(* ===== verification/Go_Prelude.thy ===== *)
theory Go_Prelude
  imports Main "HOL-Library.Word" "HOL-Library.Sublist"
begin

text \<open>
  What the components share of Go itself: byte strings and the functions of package
  \<^verbatim>\<open>strings\<close> the sources call, with the lemmas the component proofs rest on.

  A Go string is a sequence of bytes, a HOL \<^typ>\<open>string\<close> is a list of 8-bit characters, so the
  two agree byte by byte.  \<open>to_lower\<close> and \<open>to_upper\<close> map the ASCII letters and the non-ASCII
  code points whose image is ASCII (the Kelvin sign U+212A and the dotted capital I U+0130 when
  lowering, the dotless i U+0131 and the long s U+017F when raising); every other byte above
  127 is left alone, where Go would put other bytes above 127.  Everything the sources compare a
  folded string with is ASCII, so no comparison can tell the two apart.  \<open>trim_space\<close> removes
  the 25 code points of Unicode's White\_Space property, in their UTF-8 encoding.
\<close>

named_theorems go_simps \<open>unfolding rules of the model's small definitions\<close>

type_synonym byte = "8 word"
type_synonym bytes = "byte list"

subsection \<open>Bytes of a string\<close>

abbreviation ord :: "char \<Rightarrow> nat" where
  "ord c \<equiv> of_char c"

definition ascii :: "char \<Rightarrow> bool" where
  "ascii c \<longleftrightarrow> ord c < 128"

definition lower_char :: "char \<Rightarrow> char" where
  "lower_char c = (if 65 \<le> ord c \<and> ord c \<le> 90 then char_of (ord c + 32) else c)"

definition upper_char :: "char \<Rightarrow> char" where
  "upper_char c = (if 97 \<le> ord c \<and> ord c \<le> 122 then char_of (ord c - 32) else c)"

lemma ord_inject: "ord a = ord b \<longleftrightarrow> a = b"
  by (metis char_of_char)

lemma ord_lower_char: "ord (lower_char c) = (if 65 \<le> ord c \<and> ord c \<le> 90 then ord c + 32 else ord c)"
  by (auto simp: lower_char_def)

lemma lower_char_idem [simp]: "lower_char (lower_char c) = lower_char c"
  by (auto simp: lower_char_def)

lemma ascii_lower_char [simp]: "ascii (lower_char c) = ascii c"
  by (auto simp: ascii_def ord_lower_char)

subsection \<open>Prefixes, suffixes and substrings\<close>

definition has_prefix :: "string \<Rightarrow> string \<Rightarrow> bool" where
  "has_prefix s p \<longleftrightarrow> length p \<le> length s \<and> take (length p) s = p"

definition has_suffix :: "string \<Rightarrow> string \<Rightarrow> bool" where
  "has_suffix s p \<longleftrightarrow> length p \<le> length s \<and> drop (length s - length p) s = p"

fun contains :: "string \<Rightarrow> string \<Rightarrow> bool" where
  "contains [] p = (p = [])"
| "contains (c # s) p = (has_prefix (c # s) p \<or> contains s p)"

definition trim_prefix :: "string \<Rightarrow> string \<Rightarrow> string" where
  "trim_prefix s p = (if has_prefix s p then drop (length p) s else s)"

definition trim_suffix :: "string \<Rightarrow> string \<Rightarrow> string" where
  "trim_suffix s p = (if has_suffix s p then take (length s - length p) s else s)"

lemma has_prefix_iff: "has_prefix s p \<longleftrightarrow> prefix p s"
  by (auto simp: has_prefix_def prefix_def) (metis append_take_drop_id)

lemma has_suffix_iff: "has_suffix s p \<longleftrightarrow> suffix p s"
  by (auto simp: has_suffix_def suffix_def) (metis append_take_drop_id)

lemma has_suffix_append [simp]: "has_suffix (s @ p) p"
  by (simp add: has_suffix_iff suffix_def)

lemma contains_iff: "contains s p \<longleftrightarrow> sublist p s"
  by (induction s) (auto simp: has_prefix_iff sublist_Cons_right)

lemma contains_append [simp, intro]: "contains (a @ p @ b) p"
  by (auto simp: contains_iff)

lemma contains_appendI1: "contains a p \<Longrightarrow> contains (a @ b) p"
  and contains_appendI2: "contains b p \<Longrightarrow> contains (a @ b) p"
  by (auto simp: contains_iff sublist_append)

subsection \<open>Joining and splitting\<close>

fun join :: "string \<Rightarrow> string list \<Rightarrow> string" where
  "join sep [] = []"
| "join sep [x] = x"
| "join sep (x # y # xs) = x @ sep @ join sep (y # xs)"

fun split_on :: "char \<Rightarrow> string \<Rightarrow> string list" where
  "split_on c [] = [[]]"
| "split_on c (x # s) =
     (if x = c then [] # split_on c s
      else (case split_on c s of [] \<Rightarrow> [[x]] | w # ws \<Rightarrow> (x # w) # ws))"

lemma split_on_not_Nil [simp]: "split_on c s \<noteq> []"
  by (induction s) (auto split: list.splits)

lemma join_Cons: "xs \<noteq> [] \<Longrightarrow> join sep (x # xs) = x @ sep @ join sep xs"
  by (cases xs) auto

lemma join_split_on [simp]: "join [c] (split_on c s) = s"
proof (induction s)
  case Nil
  then show ?case by simp
next
  case (Cons x s)
  obtain w ws where ws: "split_on c s = w # ws"
    by (cases "split_on c s") auto
  with Cons show ?case by (cases ws) (auto simp: join_Cons)
qed

lemma split_on_no_sep [simp]: "c \<notin> set s \<Longrightarrow> split_on c s = [s]"
  by (induction s) auto

lemma split_on_append: "c \<notin> set a \<Longrightarrow> split_on c (a @ c # b) = a # split_on c b"
  by (induction a) auto

lemma split_on_join:
  "ws \<noteq> [] \<Longrightarrow> \<forall>w\<in>set ws. c \<notin> set w \<Longrightarrow> split_on c (join [c] ws) = ws"
proof (induction ws)
  case Nil
  then show ?case by simp
next
  case (Cons w ws)
  then show ?case by (cases "ws = []") (auto simp: join_Cons split_on_append)
qed

lemma split_on_sep_free: "w \<in> set (split_on c s) \<Longrightarrow> c \<notin> set w"
proof (induction s arbitrary: w)
  case (Cons x s)
  obtain v vs where "split_on c s = v # vs"
    by (cases "split_on c s") auto
  with Cons show ?case by (auto split: if_splits)
qed simp

lemma set_split_on: "w \<in> set (split_on c s) \<Longrightarrow> set w \<subseteq> set s"
proof (induction s arbitrary: w)
  case (Cons x s)
  obtain v vs where "split_on c s = v # vs"
    by (cases "split_on c s") auto
  with Cons show ?case by (fastforce split: if_splits)
qed simp

subsection \<open>Case folding\<close>

fun lower_fold :: "string \<Rightarrow> string" where
  "lower_fold (a # b # c # s) =
     (if a = CHR 0xE2 \<and> b = CHR 0x84 \<and> c = CHR 0xAA then CHR ''k'' # lower_fold s
      else if a = CHR 0xC4 \<and> b = CHR 0xB0 then CHR ''i'' # lower_fold (c # s)
      else a # lower_fold (b # c # s))"
| "lower_fold [a, b] = (if a = CHR 0xC4 \<and> b = CHR 0xB0 then [CHR ''i''] else [a, b])"
| "lower_fold [a] = [a]"
| "lower_fold [] = []"

fun upper_fold :: "string \<Rightarrow> string" where
  "upper_fold (a # b # s) =
     (if a = CHR 0xC4 \<and> b = CHR 0xB1 then CHR ''I'' # upper_fold s
      else if a = CHR 0xC5 \<and> b = CHR 0xBF then CHR ''S'' # upper_fold s
      else a # upper_fold (b # s))"
| "upper_fold [a] = [a]"
| "upper_fold [] = []"

definition to_lower :: "string \<Rightarrow> string" where
  "to_lower s = map lower_char (lower_fold s)"

definition to_upper :: "string \<Rightarrow> string" where
  "to_upper s = map upper_char (upper_fold s)"

lemma not_ascii [simp]:
  "\<not> ascii (CHR 0xE2)" "\<not> ascii (CHR 0xC4)" "\<not> ascii (CHR 0xC5)" "\<not> ascii (CHR 0x84)"
  "\<not> ascii (CHR 0xAA)" "\<not> ascii (CHR 0xB0)" "\<not> ascii (CHR 0xC2)" "\<not> ascii (CHR 0xE1)"
  "\<not> ascii (CHR 0xE3)"
  by (simp_all add: ascii_def)

lemma lower_fold_Cons_ascii: "ascii a \<Longrightarrow> lower_fold (a # s) = a # lower_fold s"
  by (cases s rule: lower_fold.cases) auto

lemma lower_fold_ascii: "list_all ascii t \<Longrightarrow> lower_fold t = t"
  by (induction t) (auto simp: lower_fold_Cons_ascii)

lemma lower_fold_Cons_ascii_tail: "list_all ascii t \<Longrightarrow> lower_fold (b # t) = b # t"
proof (cases t rule: lower_fold.cases)
  case (1 x y z s)
  assume t: "list_all ascii t"
  with 1 have "x \<noteq> CHR 0xB0" "x \<noteq> CHR 0x84" by auto
  with 1 lower_fold_ascii [OF t] show ?thesis by (simp del: lower_fold.simps(1) add: lower_fold.simps(1) [of b])
next
  case (2 x y)
  assume t: "list_all ascii t"
  with 2 have "x \<noteq> CHR 0xB0" "x \<noteq> CHR 0x84" by auto
  with 2 show ?thesis using lower_fold_ascii [OF t] by simp
next
  case (3 x)
  assume t: "list_all ascii t"
  with 3 have "x \<noteq> CHR 0xB0" by auto
  with 3 show ?thesis by simp
qed simp

lemma lower_fold_append_ascii:
  assumes t: "list_all ascii t"
  shows "lower_fold (s @ t) = lower_fold s @ t"
proof (induction s rule: lower_fold.induct)
  case (2 a b)
  show ?case
  proof (cases t)
    case Nil
    then show ?thesis by simp
  next
    case (Cons x xs)
    with t have x: "x \<noteq> CHR 0xAA" "list_all ascii xs" by auto
    with Cons lower_fold_ascii [OF t] lower_fold_Cons_ascii_tail [OF t, of b] show ?thesis by simp
  qed
qed (use t in \<open>auto simp: lower_fold_ascii lower_fold_Cons_ascii_tail\<close>)

lemma to_lower_append_ascii: "list_all ascii t \<Longrightarrow> to_lower (s @ t) = to_lower s @ map lower_char t"
  by (simp add: to_lower_def lower_fold_append_ascii)

lemma to_lower_ascii: "list_all ascii s \<Longrightarrow> to_lower s = map lower_char s"
  using to_lower_append_ascii [of s "[]"] by (simp add: to_lower_def)

lemma to_lower_Nil [simp]: "to_lower [] = []"
  by (simp add: to_lower_def)

lemma to_lower_Nil_iff [simp]: "to_lower s = [] \<longleftrightarrow> s = []"
  by (cases s rule: lower_fold.cases) (auto simp: to_lower_def)

lemma to_lower_id: "list_all (\<lambda>c. ascii c \<and> lower_char c = c) s \<Longrightarrow> to_lower s = s"
  using to_lower_ascii [of s] by (simp add: list_all_iff map_idI)

lemma lower_fold_keeps_ascii: "c \<in> set s \<Longrightarrow> ascii c \<Longrightarrow> c \<in> set (lower_fold s)"
  by (induction s rule: lower_fold.induct) auto

lemma newline_to_lower: "CHR 0x0A \<in> set s \<Longrightarrow> CHR 0x0A \<in> set (to_lower s)"
proof -
  assume "CHR 0x0A \<in> set s"
  then have "CHR 0x0A \<in> set (lower_fold s)" by (rule lower_fold_keeps_ascii) (simp add: ascii_def)
  then have "lower_char (CHR 0x0A) \<in> set (to_lower s)" by (simp add: to_lower_def)
  then show ?thesis by (simp add: lower_char_def)
qed

subsection \<open>White space\<close>

definition space1 :: "char \<Rightarrow> bool" where
  "space1 c \<longleftrightarrow> ord c \<in> {9, 10, 11, 12, 13, 32}"

definition space2 :: "string \<Rightarrow> bool" where
  "space2 s \<longleftrightarrow> s = [CHR 0xC2, CHR 0x85] \<or> s = [CHR 0xC2, CHR 0xA0]"

definition space3 :: "string \<Rightarrow> bool" where
  "space3 s \<longleftrightarrow> s = [CHR 0xE1, CHR 0x9A, CHR 0x80] \<or> s = [CHR 0xE3, CHR 0x80, CHR 0x80] \<or>
     s = [CHR 0xE2, CHR 0x81, CHR 0x9F] \<or>
     take 2 s = [CHR 0xE2, CHR 0x80] \<and> length s = 3 \<and>
       (128 \<le> ord (s ! 2) \<and> ord (s ! 2) \<le> 138 \<or> ord (s ! 2) \<in> {168, 169, 175})"

text \<open>The width in bytes of the white-space code point a string starts or ends with, 0 if none.\<close>

definition lead_space :: "string \<Rightarrow> nat" where
  "lead_space s =
     (if s \<noteq> [] \<and> space1 (hd s) then 1 else if space2 (take 2 s) then 2
      else if space3 (take 3 s) then 3 else 0)"

definition trail_space :: "string \<Rightarrow> nat" where
  "trail_space s =
     (if s \<noteq> [] \<and> space1 (last s) then 1 else if space2 (drop (length s - 2) s) then 2
      else if space3 (drop (length s - 3) s) then 3 else 0)"

text \<open>White space outside ASCII is two or three bytes wide and has no ASCII byte in it.\<close>

definition wide :: "nat \<Rightarrow> (string \<Rightarrow> bool) \<Rightarrow> bool" where
  "wide n P \<longleftrightarrow> (\<forall>s. P s \<longrightarrow> length s = n \<and> (\<forall>c\<in>set s. \<not> ascii c))"

lemma wide_space2: "wide 2 space2"
  by (auto simp: wide_def space2_def ascii_def)

lemma wide_space3: "wide 3 space3"
proof -
  have "length s = 3 \<and> (\<forall>c\<in>set s. \<not> ascii c)" if s: "space3 s" for s
  proof (cases "take 2 s = [CHR 0xE2, CHR 0x80] \<and> length s = 3")
    case True
    then have "take 2 s @ [s ! 2] = take 3 s"
      using take_Suc_conv_app_nth [of 2 s] by simp
    with True have "s = [CHR 0xE2, CHR 0x80, s ! 2]" by simp
    moreover from s True have "128 \<le> ord (s ! 2)"
      by (auto simp: space3_def)
    moreover have "\<not> ascii (CHR 0xE2)" "\<not> ascii (CHR 0x80)"
      by (simp_all add: ascii_def)
    ultimately show ?thesis
      using True by (metis ascii_def empty_iff insert_iff linorder_not_le list.set(1,2))
  next
    case False
    with s show ?thesis by (auto simp: space3_def ascii_def)
  qed
  then show ?thesis by (simp add: wide_def)
qed

lemma wide_length: "wide n P \<Longrightarrow> P (take n s) \<Longrightarrow> n \<le> length s"
  by (fastforce simp: wide_def)

lemma wide_no_ascii: "wide n P \<Longrightarrow> c \<in> set u \<Longrightarrow> ascii c \<Longrightarrow> \<not> P u"
  by (auto simp: wide_def)

lemma wide_take_append:
  assumes w: "wide n P" and c: "ascii c"
  shows "P (take n (s @ c # t)) = P (take n s)"
proof (cases "n \<le> length s")
  case False
  then have "c \<in> set (take n (s @ c # t))" by (simp add: take_Cons')
  with w c have "\<not> P (take n (s @ c # t))" by (blast dest: wide_no_ascii)
  moreover from False w have "\<not> P (take n s)" by (blast dest: wide_length)
  ultimately show ?thesis by simp
qed simp

lemma lead_space_le: "lead_space s \<le> length s"
  using wide_length [OF wide_space2, of s] wide_length [OF wide_space3, of s]
  by (cases s) (auto simp: lead_space_def)

lemma lead_space_pos_nonempty: "lead_space s \<noteq> 0 \<Longrightarrow> s \<noteq> []"
  using lead_space_le [of s] by auto

lemma trail_space_pos_nonempty: "trail_space s \<noteq> 0 \<Longrightarrow> s \<noteq> []"
  by (auto simp: trail_space_def space2_def space3_def)

function trim_left :: "string \<Rightarrow> string" where
  "trim_left s = (if lead_space s = 0 then s else trim_left (drop (lead_space s) s))"
  by pat_completeness auto
termination
  by (relation "measure length") (use lead_space_pos_nonempty in fastforce)+

function trim_right :: "string \<Rightarrow> string" where
  "trim_right s = (if trail_space s = 0 then s else trim_right (take (length s - trail_space s) s))"
  by pat_completeness auto
termination
  by (relation "measure length") (use trail_space_pos_nonempty in fastforce)+

declare trim_left.simps [simp del] trim_right.simps [simp del]

definition trim_space :: "string \<Rightarrow> string" where
  "trim_space s = trim_right (trim_left s)"

definition visible :: "char \<Rightarrow> bool" where
  "visible c \<longleftrightarrow> ascii c \<and> \<not> space1 c"

lemma visible_ascii: "visible c \<Longrightarrow> ascii c" and visible_space1: "visible c \<Longrightarrow> \<not> space1 c"
  by (simp_all add: visible_def)

lemma lead_space_visible: "visible c \<Longrightarrow> lead_space (c # s) = 0"
  using wide_no_ascii [OF wide_space2, of c "take 2 (c # s)"] wide_no_ascii [OF wide_space3, of c "take 3 (c # s)"]
  by (simp add: lead_space_def visible_def)

lemma in_set_drop_snoc: "0 < n \<Longrightarrow> c \<in> set (drop (length (s @ [c]) - n) (s @ [c]))"
  by simp

lemma trail_space_visible: "visible c \<Longrightarrow> trail_space (s @ [c]) = 0"
  using wide_no_ascii [OF wide_space2 in_set_drop_snoc [of 2 c s]]
    wide_no_ascii [OF wide_space3 in_set_drop_snoc [of 3 c s]]
  by (simp add: trail_space_def visible_def)

lemma trim_left_visible: "visible c \<Longrightarrow> trim_left (c # s) = c # s"
  by (simp add: trim_left.simps [of "c # s"] lead_space_visible)

lemma trim_right_visible: "visible c \<Longrightarrow> trim_right (s @ [c]) = s @ [c]"
  by (simp add: trim_right.simps [of "s @ [c]"] trail_space_visible)

lemma trim_left_Nil [simp]: "trim_left [] = []"
  by (subst trim_left.simps) (use lead_space_pos_nonempty in auto)

lemma trim_right_Nil [simp]: "trim_right [] = []"
  by (subst trim_right.simps) (use trail_space_pos_nonempty in auto)

lemma trim_space_Nil [simp]: "trim_space [] = []"
  by (simp add: trim_space_def)

lemma trim_space_id: "list_all visible s \<Longrightarrow> trim_space s = s"
proof (cases s rule: rev_cases)
  case (snoc t c)
  assume s: "list_all visible s"
  then have "trim_left s = s"
    by (cases s) (auto simp: trim_left_visible)
  moreover from s snoc have "trim_right s = s"
    by (simp add: trim_right_visible)
  ultimately show ?thesis by (simp add: trim_space_def)
qed simp

text \<open>A visible tail stops the trimming on both sides.\<close>

lemma lead_space_append_visible:
  assumes "visible c" "s \<noteq> []"
  shows "lead_space (s @ c # t) = lead_space s"
  using assms(2) wide_take_append [OF wide_space2 visible_ascii [OF assms(1)], of s t]
    wide_take_append [OF wide_space3 visible_ascii [OF assms(1)], of s t]
  by (simp add: lead_space_def)

lemma trim_left_append_visible:
  "visible c \<Longrightarrow> trim_left (s @ c # t) = trim_left s @ c # t"
proof (induction s rule: trim_left.induct)
  case (1 s)
  show ?case
  proof (cases "s = []")
    case True
    with 1(2) show ?thesis by (simp add: trim_left_visible)
  next
    case False
    note eq = lead_space_append_visible [OF 1(2) False, of t]
    from 1 eq lead_space_le [of s] show ?thesis
      by (cases "lead_space s = 0") (simp_all add: trim_left.simps [of s] trim_left.simps [of "s @ c # t"])
  qed
qed

lemma trim_space_append_visible:
  assumes "list_all visible t" "t \<noteq> []"
  shows "trim_space (s @ t) = trim_left s @ t"
proof -
  obtain c u where c: "t = c # u" using assms(2) by (cases t) auto
  obtain d v where d: "t = v @ [d]" using assms(2) by (cases t rule: rev_cases) auto
  have "trim_space (s @ t) = trim_right (trim_left s @ t)"
    using assms(1) c by (simp add: trim_space_def trim_left_append_visible)
  also have "trim_left s @ t = (trim_left s @ v) @ [d]" using d by simp
  also have "trim_right ((trim_left s @ v) @ [d]) = (trim_left s @ v) @ [d]"
    using assms(1) d by (intro trim_right_visible) simp
  finally show ?thesis using d by simp
qed

subsection \<open>Fields and lines\<close>

fun span_word :: "string \<Rightarrow> string \<times> string" where
  "span_word [] = ([], [])"
| "span_word (c # s) =
     (if lead_space (c # s) \<noteq> 0 then ([], c # s)
      else (case span_word s of (w, r) \<Rightarrow> (c # w, r)))"

lemma span_word_length: "span_word s = (w, r) \<Longrightarrow> length w + length r = length s"
  by (induction s arbitrary: w r) (auto split: if_splits prod.splits)

lemma trim_left_length: "length (trim_left s) \<le> length s"
proof (induction s rule: trim_left.induct)
  case (1 s)
  then show ?case
    by (cases "lead_space s = 0") (auto simp: trim_left.simps [of s] intro: le_trans)
qed

lemma lead_space_trim_left: "lead_space (trim_left s) = 0"
proof (induction s rule: trim_left.induct)
  case (1 s)
  then show ?case by (subst trim_left.simps) auto
qed

lemma span_word_progress: "trim_left s \<noteq> [] \<Longrightarrow> length (snd (span_word (trim_left s))) < length s"
proof -
  assume ne: "trim_left s \<noteq> []"
  obtain c u where cu: "trim_left s = c # u" using ne by (cases "trim_left s") auto
  obtain w r where wr: "span_word u = (w, r)" by (cases "span_word u")
  have "snd (span_word (trim_left s)) = r"
    using cu wr lead_space_trim_left [of s] by simp
  moreover have "length r < length (trim_left s)"
    using span_word_length [OF wr] cu by simp
  ultimately show ?thesis using trim_left_length [of s] by simp
qed

text \<open>\<^verbatim>\<open>strings.Fields\<close>: the maximal runs without white space.\<close>

function fields :: "string \<Rightarrow> string list" where
  "fields s =
     (let t = trim_left s
      in if t = [] then [] else fst (span_word t) # fields (snd (span_word t)))"
  by pat_completeness auto
termination
  by (relation "measure length") (auto intro: span_word_progress)

declare fields.simps [simp del]

text \<open>
  \<^verbatim>\<open>bufio.Scanner\<close> with its default split function: lines end at a newline, one trailing
  carriage return is dropped, an unterminated last line counts if it is not empty, and a line of
  65536 bytes or more stops the scan with \<^verbatim>\<open>ErrTooLong\<close>, the second component.
\<close>

definition drop_cr :: "string \<Rightarrow> string" where
  "drop_cr l = (if l \<noteq> [] \<and> last l = CHR 0x0D then butlast l else l)"

definition raw_lines :: "string \<Rightarrow> string list" where
  "raw_lines s = (let ls = split_on (CHR 0x0A) s in if last ls = [] then butlast ls else ls)"

definition scan_lines :: "string \<Rightarrow> string list \<times> bool" where
  "scan_lines s =
     (let ls = raw_lines s
      in (map drop_cr (takeWhile (\<lambda>l. length l < 65536) ls), list_ex (\<lambda>l. 65536 \<le> length l) ls))"

lemma set_trim_left: "set (trim_left s) \<subseteq> set s"
proof (induction s rule: trim_left.induct)
  case (1 s)
  then show ?case
    by (cases "lead_space s = 0") (auto simp: trim_left.simps [of s] dest: in_set_dropD)
qed

lemma set_trim_right: "set (trim_right s) \<subseteq> set s"
proof (induction s rule: trim_right.induct)
  case (1 s)
  then show ?case
    by (cases "trail_space s = 0") (auto simp: trim_right.simps [of s] dest: in_set_takeD)
qed

lemma set_trim_space: "set (trim_space s) \<subseteq> set s"
  using set_trim_left set_trim_right by (fastforce simp: trim_space_def)

text \<open>Carriage returns and the trimmed line; a line that starts with a visible character keeps it.\<close>

lemma lead_space_append_ascii:
  assumes "ascii c" "s \<noteq> []"
  shows "lead_space (s @ c # t) = lead_space s"
  using assms(2) wide_take_append [OF wide_space2 assms(1), of s t] wide_take_append [OF wide_space3 assms(1), of s t]
  by (simp add: lead_space_def)

lemma trim_left_append_space:
  assumes "ascii c" "space1 c"
  shows "trim_left (s @ [c]) = (if trim_left s = [] then [] else trim_left s @ [c])"
proof (induction s rule: trim_left.induct)
  case (1 s)
  show ?case
  proof (cases "s = []")
    case True
    have "lead_space [c] = 1" using assms by (simp add: lead_space_def)
    then show ?thesis using True by (simp add: trim_left.simps [of "[c]"])
  next
    case False
    note eq = lead_space_append_ascii [OF assms(1) False, of "[]"]
    from 1 eq False lead_space_le [of s] show ?thesis
      by (cases "lead_space s = 0") (simp_all add: trim_left.simps [of s] trim_left.simps [of "s @ [c]"])
  qed
qed

lemma trim_right_append_space: "space1 c \<Longrightarrow> trim_right (s @ [c]) = trim_right s"
  by (subst trim_right.simps) (simp add: trail_space_def)

lemma trim_space_drop_cr [simp]: "trim_space (drop_cr l) = trim_space l"
proof (cases "l \<noteq> [] \<and> last l = CHR 0x0D")
  case True
  then obtain s where l: "l = s @ [CHR 0x0D]" by (metis append_butlast_last_id)
  have c: "ascii (CHR 0x0D)" "space1 (CHR 0x0D)" by (simp_all add: ascii_def space1_def)
  show ?thesis
    using trim_left_append_space [OF c, of s]
    by (simp add: l drop_cr_def trim_space_def trim_right_append_space [OF c(2)])
qed (auto simp: drop_cr_def)

lemma trail_space_visible_head: "visible c \<Longrightarrow> trail_space (c # u) \<le> length u"
  using wide_no_ascii [OF wide_space2, of c] wide_no_ascii [OF wide_space3, of c]
  by (cases u; cases "tl u"; cases "tl (tl u)")
    (auto simp: trail_space_def visible_ascii visible_space1 Suc_le_eq split: if_splits)

lemma trim_right_visible_head: "visible c \<Longrightarrow> \<exists>v. trim_right (c # u) = c # v"
proof (induction "length u" arbitrary: u rule: less_induct)
  case less
  show ?case
  proof (cases "trail_space (c # u) = 0")
    case True
    then show ?thesis by (simp add: trim_right.simps [of "c # u"])
  next
    case False
    let ?n = "trail_space (c # u)"
    from False trail_space_visible_head [OF less.prems, of u] have "?n \<le> length u" "0 < ?n" by auto
    then have "take (length (c # u) - ?n) (c # u) = c # take (length u - ?n) u"
      by (simp add: Suc_diff_le)
    moreover have "\<exists>v. trim_right (c # take (length u - ?n) u) = c # v"
      using less.hyps [of "take (length u - ?n) u"] less.prems \<open>?n \<le> length u\<close> \<open>0 < ?n\<close> by simp
    ultimately show ?thesis using False by (simp add: trim_right.simps [of "c # u"])
  qed
qed

lemma trim_space_visible_head: "visible c \<Longrightarrow> \<exists>v. trim_space (c # u) = c # v"
  by (simp add: trim_space_def trim_left_visible trim_right_visible_head)

lemma fields_visible_head: "visible c \<Longrightarrow> \<exists>w ws. fields (c # u) = (c # w) # ws"
  by (subst fields.simps) (auto simp: trim_left_visible lead_space_visible Let_def split: prod.splits)

lemma newline_free_drop_cr: "CHR 0x0A \<notin> set l \<Longrightarrow> CHR 0x0A \<notin> set (drop_cr l)"
  by (auto simp: drop_cr_def dest: in_set_butlastD)

lemma raw_lines_join:
  assumes "\<forall>l\<in>set ls. CHR 0x0A \<notin> set l" "ls \<noteq> []"
  shows "raw_lines (join [CHR 0x0A] ls @ [CHR 0x0A]) = ls"
proof -
  have "join [CHR 0x0A] ls @ [CHR 0x0A] = join [CHR 0x0A] (ls @ [[]])"
    using assms(2) by (induction ls rule: induct_list012) (auto simp: join_Cons)
  moreover have "split_on (CHR 0x0A) (join [CHR 0x0A] (ls @ [[]])) = ls @ [[]]"
    using assms by (intro split_on_join) auto
  ultimately show ?thesis by (simp add: raw_lines_def)
qed

lemma raw_lines_newline_free: "l \<in> set (raw_lines s) \<Longrightarrow> CHR 0x0A \<notin> set l"
  by (auto simp: raw_lines_def Let_def dest: split_on_sep_free in_set_butlastD split: if_splits)

lemma scan_lines_flag: "snd (scan_lines s) \<longleftrightarrow> \<not> list_all (\<lambda>l. length l < 65536) (raw_lines s)"
  by (auto simp: scan_lines_def Let_def list_ex_iff list_all_iff not_less)

lemma scan_lines_short: "\<not> snd (scan_lines s) \<Longrightarrow> scan_lines s = (map drop_cr (raw_lines s), False)"
proof -
  assume "\<not> snd (scan_lines s)"
  then have "\<forall>l\<in>set (raw_lines s). length l < 65536" by (simp add: scan_lines_flag list_all_iff)
  then have eq: "takeWhile (\<lambda>l. length l < 65536) (raw_lines s) = raw_lines s" by (simp only: takeWhile_eq_all_conv)
  have "fst (scan_lines s) = map drop_cr (raw_lines s)" by (simp only: scan_lines_def Let_def eq fst_conv)
  with \<open>\<not> snd (scan_lines s)\<close> show ?thesis by (metis prod.collapse)
qed

lemma scan_lines_newline_free: "l \<in> set (fst (scan_lines s)) \<Longrightarrow> CHR 0x0A \<notin> set l"
  by (auto simp: scan_lines_def Let_def newline_free_drop_cr raw_lines_newline_free dest!: set_takeWhileD)

text \<open>Text written line by line.\<close>

abbreviation nl :: string where
  "nl \<equiv> [CHR 0x0A]"

definition unlines :: "string list \<Rightarrow> string" where
  "unlines ls = concat (map (\<lambda>l. l @ nl) ls)"

lemma unlines_simps [simp]:
  "unlines [] = []" "unlines (l # ls) = l @ nl @ unlines ls" "unlines (as @ bs) = unlines as @ unlines bs"
  by (simp_all add: unlines_def)

lemma unlines_map: "unlines (map f xs) = concat (map (\<lambda>x. f x @ nl) xs)"
  by (simp add: unlines_def o_def)

lemma split_unlines:
  "\<forall>l\<in>set ls. CHR 0x0A \<notin> set l \<Longrightarrow> split_on (CHR 0x0A) (unlines ls) = ls @ [[]]"
  by (induction ls) (auto simp: split_on_append)

subsection \<open>Decimal and hexadecimal numbers\<close>

definition digit :: "nat \<Rightarrow> char" where
  "digit d = char_of (48 + d)"

fun nat_str :: "nat \<Rightarrow> string" where
  "nat_str n = (if n < 10 then [digit n] else nat_str (n div 10) @ [digit (n mod 10)])"

declare nat_str.simps [simp del]

definition int_str :: "int \<Rightarrow> string" where
  "int_str i = (if i < 0 then ''-'' @ nat_str (nat (- i)) else nat_str (nat i))"

definition hex_digit :: "nat \<Rightarrow> char" where
  "hex_digit d = (if d < 10 then char_of (48 + d) else char_of (87 + d))"

definition str_bytes :: "string \<Rightarrow> bytes" where
  "str_bytes s = map (\<lambda>c. word_of_nat (ord c)) s"

definition hex_encode :: "bytes \<Rightarrow> string" where
  "hex_encode bs = concat (map (\<lambda>b. [hex_digit (unat b div 16), hex_digit (unat b mod 16)]) bs)"

definition is_digit :: "char \<Rightarrow> bool" where
  "is_digit c \<longleftrightarrow> 48 \<le> ord c \<and> ord c \<le> 57"

lemma is_digit_digit: "d < 10 \<Longrightarrow> is_digit (digit d)"
  by (simp add: is_digit_def digit_def)

lemma nat_str_digits: "list_all is_digit (nat_str n)"
proof (induction n rule: nat_str.induct)
  case (1 n)
  then show ?case by (subst nat_str.simps) (auto simp: is_digit_digit)
qed

lemma nat_str_not_Nil [simp]: "nat_str n \<noteq> []"
  by (subst nat_str.simps) simp

lemma is_digit_visible: "is_digit c \<Longrightarrow> visible c"
  by (auto simp: is_digit_def visible_def ascii_def space1_def)

lemma newline_not_visible [simp]: "\<not> visible (CHR 0x0A)"
  by (simp add: visible_def space1_def)

lemma visible_no_newline: "list_all visible s \<Longrightarrow> CHR 0x0A \<notin> set s"
  using newline_not_visible by (auto simp: list_all_iff)

lemma nat_str_visible: "list_all visible (nat_str n)"
  using nat_str_digits [of n] by (auto simp: list_all_iff is_digit_visible)

lemma split_on_suffix:
  assumes "c \<notin> set t"
  shows "\<exists>w. w @ t \<in> set (split_on c (a @ t @ c # b))"
proof (induction a)
  case Nil
  show ?case using assms by (auto simp: split_on_append)
next
  case (Cons x a)
  then obtain w where w: "w @ t \<in> set (split_on c (a @ t @ c # b))" by blast
  obtain v vs where v: "split_on c (a @ t @ c # b) = v # vs" by (cases "split_on c (a @ t @ c # b)") auto
  show ?case
  proof (cases "x \<noteq> c \<and> v = w @ t")
    case True
    with v have "(x # w) @ t \<in> set (split_on c ((x # a) @ t @ c # b))" by simp
    then show ?thesis by blast
  next
    case False
    with w v have "w @ t \<in> set (split_on c ((x # a) @ t @ c # b))" by auto
    then show ?thesis by blast
  qed
qed

lemma trail_space_not_visible:
  "trail_space s \<noteq> 0 \<Longrightarrow> c \<in> set (drop (length s - trail_space s) s) \<Longrightarrow> \<not> visible c"
  using wide_no_ascii [OF wide_space2, of c "drop (length s - 2) s"] wide_no_ascii [OF wide_space3, of c "drop (length s - 3) s"]
  by (cases s rule: rev_cases) (auto simp: trail_space_def visible_def split: if_splits)

lemma trim_right_keeps_visible: "visible c \<Longrightarrow> c \<in> set s \<Longrightarrow> c \<in> set (trim_right s)"
proof (induction s rule: trim_right.induct)
  case (1 s)
  let ?k = "length s - trail_space s"
  show ?case
  proof (cases "trail_space s = 0")
    case True
    with "1.prems" show ?thesis by (simp add: trim_right.simps [of s])
  next
    case False
    have "c \<in> set (take ?k s) \<or> c \<in> set (drop ?k s)"
      using "1.prems"(2) by (metis Un_iff append_take_drop_id set_append)
    with False "1.prems"(1) have "c \<in> set (take ?k s)" using trail_space_not_visible by blast
    with 1 False show ?thesis by (simp add: trim_right.simps [of s])
  qed
qed

lemma trim_space_keeps_visible:
  assumes "visible c" "c \<in> set s"
  shows "c \<in> set (trim_space s)"
proof -
  obtain a b where "s = a @ c # b" using assms(2) by (meson split_list)
  then have "c \<in> set (trim_left s)" using trim_left_append_visible assms(1) by auto
  with assms(1) show ?thesis by (simp add: trim_space_def trim_right_keeps_visible)
qed

lemma digit_lower [simp]: "is_digit c \<Longrightarrow> lower_char c = c"
  by (auto simp: is_digit_def lower_char_def)

lemma int_str_visible: "list_all visible (int_str i)"
  by (simp add: int_str_def nat_str_visible visible_def ascii_def space1_def)

lemma int_str_lower [simp]: "map lower_char (int_str i) = int_str i"
proof -
  have "map lower_char (nat_str n) = nat_str n" for n
    using nat_str_digits [of n] by (auto simp: list_all_iff intro: map_idI)
  then show ?thesis by (simp add: int_str_def lower_char_def)
qed

lemma set_join: "set (join sep ws) \<subseteq> set sep \<union> (\<Union>w\<in>set ws. set w)"
  by (induction sep ws rule: join.induct) auto

lemma lower_fold_newline: "CHR 0x0A \<in> set (lower_fold s) \<Longrightarrow> CHR 0x0A \<in> set s"
  by (induction s rule: lower_fold.induct) (auto split: if_splits)

lemma newline_of_to_lower: "CHR 0x0A \<in> set (to_lower s) \<longleftrightarrow> CHR 0x0A \<in> set s"
proof -
  have "c = CHR 0x0A" if "lower_char c = CHR 0x0A" for c
    using ord_lower_char [of c] that by (auto simp: lower_char_def split: if_splits)
  then show ?thesis using newline_to_lower lower_fold_newline by (fastforce simp: to_lower_def)
qed

abbreviation one_line :: "string \<Rightarrow> bool" where
  "one_line s \<equiv> CHR 0x0A \<notin> set s"

end
