(* ===== verification/Go_Regexp.thy ===== *)
theory Go_Regexp
  imports Go_Prelude
begin

text \<open>
  The part of package \<^verbatim>\<open>regexp\<close> the validators use: \<^verbatim>\<open>MatchString\<close> of a pattern anchored at
  both ends.  A pattern is a term over byte classes, its meaning a set of strings, and matching
  is computed by derivatives; the two agree (\<open>matches_lang\<close>).  The lemmas at the end turn the
  shapes the sources write (bounded repetition, a class repeated) into plain list predicates.
\<close>

datatype regex =
    None_Re
  | Eps
  | Cls "char \<Rightarrow> bool"
  | Seq regex regex
  | Alt regex regex
  | Star regex

subsection \<open>Language\<close>

inductive_set star_lang :: "string set \<Rightarrow> string set" for L :: "string set" where
  star_Nil: "[] \<in> star_lang L"
| star_step: "u \<in> L \<Longrightarrow> v \<in> star_lang L \<Longrightarrow> u @ v \<in> star_lang L"

fun re_lang :: "regex \<Rightarrow> string set" where
  "re_lang None_Re = {}"
| "re_lang Eps = {[]}"
| "re_lang (Cls p) = {[c] | c. p c}"
| "re_lang (Seq r s) = {u @ v | u v. u \<in> re_lang r \<and> v \<in> re_lang s}"
| "re_lang (Alt r s) = re_lang r \<union> re_lang s"
| "re_lang (Star r) = star_lang (re_lang r)"

fun opt_eps :: "regex \<Rightarrow> bool" where
  "opt_eps None_Re = False"
| "opt_eps Eps = True"
| "opt_eps (Cls p) = False"
| "opt_eps (Seq r s) = (opt_eps r \<and> opt_eps s)"
| "opt_eps (Alt r s) = (opt_eps r \<or> opt_eps s)"
| "opt_eps (Star r) = True"

fun after :: "regex \<Rightarrow> char \<Rightarrow> regex" where
  "after None_Re c = None_Re"
| "after Eps c = None_Re"
| "after (Cls p) c = (if p c then Eps else None_Re)"
| "after (Seq r s) c =
     (if opt_eps r then Alt (Seq (after r c) s) (after s c) else Seq (after r c) s)"
| "after (Alt r s) c = Alt (after r c) (after s c)"
| "after (Star r) c = Seq (after r c) (Star r)"

definition matches :: "regex \<Rightarrow> string \<Rightarrow> bool" where
  "matches r s = opt_eps (foldl after r s)"

lemma star_lang_Cons:
  "c # s \<in> star_lang L \<longleftrightarrow> (\<exists>u v. s = u @ v \<and> c # u \<in> L \<and> v \<in> star_lang L)" (is "?A \<longleftrightarrow> ?B")
proof
  have "w \<in> star_lang L \<Longrightarrow> w = c # s \<Longrightarrow> ?B" for w
  proof (induction rule: star_lang.induct)
    case (star_step u v)
    then show ?case by (cases u) auto
  qed simp
  then show "?A \<Longrightarrow> ?B" by blast
next
  assume ?B
  then obtain u v where "s = u @ v" "c # u \<in> L" "v \<in> star_lang L" by blast
  then show ?A using star_step [of "c # u" L v] by simp
qed

lemma opt_eps_lang: "opt_eps r \<longleftrightarrow> [] \<in> re_lang r"
  by (induction r) (auto intro: star_Nil)

lemma after_lang: "s \<in> re_lang (after r c) \<longleftrightarrow> c # s \<in> re_lang r"
proof (induction r arbitrary: s)
  case (Seq r1 r2)
  have "c # s \<in> re_lang (Seq r1 r2) \<longleftrightarrow>
    (\<exists>u v. s = u @ v \<and> c # u \<in> re_lang r1 \<and> v \<in> re_lang r2) \<or> [] \<in> re_lang r1 \<and> c # s \<in> re_lang r2"
    by (auto simp: Cons_eq_append_conv)
  with Seq show ?case by (auto simp: opt_eps_lang)
next
  case (Star r)
  then show ?case by (auto simp: star_lang_Cons)
qed auto

theorem matches_lang: "matches r s \<longleftrightarrow> s \<in> re_lang r"
  unfolding matches_def
  by (induction s arbitrary: r) (auto simp: opt_eps_lang after_lang)

subsection \<open>The shapes the sources write\<close>

abbreviation Opt :: "regex \<Rightarrow> regex" where
  "Opt r \<equiv> Alt Eps r"

fun Pow :: "nat \<Rightarrow> regex \<Rightarrow> regex" where
  "Pow 0 r = Eps"
| "Pow (Suc n) r = Seq r (Pow n r)"

fun Upto :: "nat \<Rightarrow> regex \<Rightarrow> regex" where
  "Upto 0 r = Eps"
| "Upto (Suc n) r = Alt Eps (Seq r (Upto n r))"

lemma Seq_Cls_Nil [simp]: "[] \<notin> re_lang (Seq (Cls p) r)"
  and Seq_Cls_Cons [simp]: "c # s \<in> re_lang (Seq (Cls p) r) \<longleftrightarrow> p c \<and> s \<in> re_lang r"
   apply auto
  by (metis append_Cons append_Nil)

declare re_lang.simps(4) [simp del]

lemma Seq_iff: "s \<in> re_lang (Seq q r) \<longleftrightarrow> (\<exists>u v. s = u @ v \<and> u \<in> re_lang q \<and> v \<in> re_lang r)"
  by (simp add: re_lang.simps(4))

lemma star_Cls: "s \<in> star_lang (re_lang (Cls p)) \<longleftrightarrow> list_all p s"
  by (induction s) (auto simp: star_lang_Cons intro: star_Nil)

lemma Pow_Cls: "s \<in> re_lang (Pow n (Cls p)) \<longleftrightarrow> length s = n \<and> list_all p s"
proof (induction n arbitrary: s)
  case (Suc n)
  then show ?case by (cases s) auto
qed auto

lemma Upto_Cls: "s \<in> re_lang (Upto n (Cls p)) \<longleftrightarrow> length s \<le> n \<and> list_all p s"
proof (induction n arbitrary: s)
  case (Suc n)
  then show ?case by (cases s) auto
qed auto

text \<open>Items separated by one character: the items are the parts \<open>split_on\<close> gives.\<close>

lemma sep_star_lang:
  assumes item: "\<And>w. w \<in> L \<longleftrightarrow> ok w" and free: "\<And>w. ok w \<Longrightarrow> x \<notin> set w"
  shows "s \<in> star_lang {x # w | w. w \<in> L} \<longleftrightarrow> s = [] \<or> (\<exists>t. s = x # t \<and> list_all ok (split_on x t))"
proof (induction "length s" arbitrary: s rule: less_induct)
  case less
  show ?case
  proof (cases s)
    case Nil
    then show ?thesis by (simp add: star_Nil)
  next
    case (Cons c t)
    have "s \<in> star_lang {x # w | w. w \<in> L} \<longleftrightarrow>
        (\<exists>u v. t = u @ v \<and> c = x \<and> ok u \<and> v \<in> star_lang {x # w | w. w \<in> L})"
      using Cons by (auto simp: star_lang_Cons item)
    also have "\<dots> \<longleftrightarrow> (\<exists>u v. t = u @ v \<and> c = x \<and> ok u \<and>
        (v = [] \<or> (\<exists>w. v = x # w \<and> list_all ok (split_on x w))))"
    proof -
      have "v \<in> star_lang {x # w | w. w \<in> L} \<longleftrightarrow> v = [] \<or> (\<exists>w. v = x # w \<and> list_all ok (split_on x w))"
        if "t = u @ v" for u v
        using less [of v] Cons that by simp
      then show ?thesis by blast
    qed
    also have "\<dots> \<longleftrightarrow> c = x \<and> list_all ok (split_on x t)"
    proof
      assume "\<exists>u v. t = u @ v \<and> c = x \<and> ok u \<and>
        (v = [] \<or> (\<exists>w. v = x # w \<and> list_all ok (split_on x w)))"
      then show "c = x \<and> list_all ok (split_on x t)"
        using free by (auto simp: split_on_append)
    next
      assume *: "c = x \<and> list_all ok (split_on x t)"
      obtain u ws where u: "split_on x t = u # ws" by (cases "split_on x t") auto
      have t: "t = join [x] (u # ws)" by (metis u join_split_on)
      show "\<exists>u v. t = u @ v \<and> c = x \<and> ok u \<and>
        (v = [] \<or> (\<exists>w. v = x # w \<and> list_all ok (split_on x w)))"
      proof (cases "ws = []")
        case True
        with * u t show ?thesis by auto
      next
        case False
        with t have "t = u @ x # join [x] ws" by (simp add: join_Cons)
        moreover have "split_on x (join [x] ws) = ws"
          using False u split_on_sep_free [of _ x t] by (intro split_on_join) auto
        ultimately show ?thesis
          using * u by (intro exI [of _ u] exI [of _ "x # join [x] ws"]) auto
      qed
    qed
    finally show ?thesis using Cons by auto
  qed
qed

text \<open>A pattern whose classes all lie within \<open>P\<close> matches only strings over \<open>P\<close>.\<close>

fun over :: "(char \<Rightarrow> bool) \<Rightarrow> regex \<Rightarrow> bool" where
  "over P None_Re = True"
| "over P Eps = True"
| "over P (Cls p) = (\<forall>c. p c \<longrightarrow> P c)"
| "over P (Seq r s) = (over P r \<and> over P s)"
| "over P (Alt r s) = (over P r \<and> over P s)"
| "over P (Star r) = over P r"

lemma over_Pow: "over P r \<Longrightarrow> over P (Pow n r)"
  by (induction n) auto

lemma over_Upto: "over P r \<Longrightarrow> over P (Upto n r)"
  by (induction n) auto

lemma star_list_all:
  "s \<in> star_lang L \<Longrightarrow> (\<And>u. u \<in> L \<Longrightarrow> list_all P u) \<Longrightarrow> list_all P s"
  by (induction rule: star_lang.induct) auto

lemma over_lang: "over P r \<Longrightarrow> s \<in> re_lang r \<Longrightarrow> list_all P s"
  by (induction r arbitrary: s) (auto simp: Seq_iff dest: star_list_all)

lemma over_matches: "over P r \<Longrightarrow> matches r s \<Longrightarrow> list_all P s"
  by (simp add: matches_lang over_lang)

end
