(* ===== verification/Go_Net.thy ===== *)
theory Go_Net
  imports Go_Prelude
begin

text \<open>
  The address parsers of package \<^verbatim>\<open>net\<close> the sources call: \<^verbatim>\<open>ParseIP\<close>, \<^verbatim>\<open>To4\<close> and \<^verbatim>\<open>ParseCIDR\<close>.
  They follow \<^verbatim>\<open>net/netip\<close>: the first of \<^verbatim>\<open>.\<close>, \<^verbatim>\<open>:\<close> and \<^verbatim>\<open>%\<close> decides the family, an IPv4
  address is four octets without leading zeros, an IPv6 address may hold one \<^verbatim>\<open>::\<close> and a trailing
  IPv4 part, and \<^verbatim>\<open>ParseIP\<close> gives 16 bytes (IPv4 in its mapped form) and refuses a zone.
\<close>

datatype ip_addr = V4 "nat list" | V6 "nat list" string

definition dec_val :: "string \<Rightarrow> nat" where
  "dec_val s = foldl (\<lambda>n c. 10 * n + (ord c - 48)) 0 s"

definition parse_octet :: "string \<Rightarrow> nat option" where
  "parse_octet w =
     (if w = [] \<or> \<not> list_all is_digit w \<or> (1 < length w \<and> hd w = CHR ''0'') then None
      else if dec_val w > 255 then None else Some (dec_val w))"

definition parse_v4 :: "string \<Rightarrow> nat list option" where
  "parse_v4 s =
     (let ws = split_on (CHR ''.'') s; os = map parse_octet ws
      in if length ws \<noteq> 4 \<or> None \<in> set os then None else Some (map the os))"

definition hex_val :: "char \<Rightarrow> nat option" where
  "hex_val c =
     (if 48 \<le> ord c \<and> ord c \<le> 57 then Some (ord c - 48)
      else if 97 \<le> ord c \<and> ord c \<le> 102 then Some (ord c - 87)
      else if 65 \<le> ord c \<and> ord c \<le> 70 then Some (ord c - 55) else None)"

definition is_hex :: "char \<Rightarrow> bool" where
  "is_hex c \<longleftrightarrow> hex_val c \<noteq> None"

definition hex_num :: "string \<Rightarrow> nat" where
  "hex_num s = foldl (\<lambda>n c. 16 * n + the (hex_val c)) 0 s"

text \<open>
  The group loop: \<open>acc\<close> holds the bytes parsed so far (Go's index \<^verbatim>\<open>i\<close> is its length), \<open>ell\<close>
  where the \<^verbatim>\<open>::\<close> stood.
\<close>

function v6_groups :: "nat list \<Rightarrow> nat option \<Rightarrow> string \<Rightarrow> (nat list \<times> nat option) option" where
  "v6_groups acc ell s =
     (if 16 \<le> length acc then (if s = [] then Some (acc, ell) else None)
      else let ds = takeWhile is_hex s; r = dropWhile is_hex s in
        if length ds = 0 \<or> 4 < length ds then None
        else if r \<noteq> [] \<and> hd r = CHR ''.'' then
          (if ell = None \<and> length acc \<noteq> 12 then None
           else if 16 < length acc + 4 then None
           else map_option (\<lambda>v. (acc @ v, ell)) (parse_v4 s))
        else let acc' = acc @ [hex_num ds div 256, hex_num ds mod 256] in
          if r = [] then Some (acc', ell)
          else if hd r \<noteq> CHR '':'' then None
          else if tl r = [] then None
          else if hd (tl r) = CHR '':'' then
            (if ell \<noteq> None then None
             else if tl (tl r) = [] then Some (acc', Some (length acc'))
             else v6_groups acc' (Some (length acc')) (tl (tl r)))
          else v6_groups acc' ell (tl r))"
  by pat_completeness auto
termination
  by (relation "measure (\<lambda>(acc, ell, s). 16 - length acc)") auto

declare v6_groups.simps [simp del]

definition v6_expand :: "nat list \<times> nat option \<Rightarrow> nat list option" where
  "v6_expand p = (case p of
     (acc, None) \<Rightarrow> if length acc < 16 then None else Some acc
   | (acc, Some e) \<Rightarrow>
       if length acc < 16 then Some (take e acc @ replicate (16 - length acc) 0 @ drop e acc) else None)"

definition parse_v6 :: "string \<Rightarrow> ip_addr option" where
  "parse_v6 str =
     (let s = takeWhile (\<lambda>c. c \<noteq> CHR ''%'') str; z = drop (length s) str in
      if z \<noteq> [] \<and> tl z = [] then None
      else let zone = tl z in
        if has_prefix s ''::'' then
          (if length s = 2 then Some (V6 (replicate 16 0) zone)
           else map_option (\<lambda>b. V6 b zone) (Option.bind (v6_groups [] (Some 0) (drop 2 s)) v6_expand))
        else map_option (\<lambda>b. V6 b zone) (Option.bind (v6_groups [] None s) v6_expand))"

definition parse_addr :: "string \<Rightarrow> ip_addr option" where
  "parse_addr s =
     (case dropWhile (\<lambda>c. c \<noteq> CHR ''.'' \<and> c \<noteq> CHR '':'' \<and> c \<noteq> CHR ''%'') s of
        [] \<Rightarrow> None
      | c # _ \<Rightarrow> if c = CHR ''.'' then map_option V4 (parse_v4 s)
                else if c = CHR '':'' then parse_v6 s else None)"

definition v4_in_6 :: "nat list" where
  "v4_in_6 = [0, 0, 0, 0, 0, 0, 0, 0, 0, 0, 255, 255]"

definition ParseIP :: "string \<Rightarrow> nat list option" where
  "ParseIP s = (case parse_addr s of
     Some (V4 b) \<Rightarrow> Some (v4_in_6 @ b)
   | Some (V6 b z) \<Rightarrow> if z = [] then Some b else None
   | None \<Rightarrow> None)"

definition To4 :: "nat list \<Rightarrow> nat list option" where
  "To4 ip = (if length ip = 4 then Some ip
             else if length ip = 16 \<and> take 12 ip = v4_in_6 then Some (drop 12 ip) else None)"

text \<open>\<^verbatim>\<open>dtoi\<close>: the leading decimal digits, refused from 0xFFFFFF on.\<close>

definition parse_mask :: "string \<Rightarrow> nat option" where
  "parse_mask m =
     (if m = [] \<or> \<not> list_all is_digit m \<or> dec_val m \<ge> 16777215 then None else Some (dec_val m))"

definition ParseCIDR :: "string \<Rightarrow> (ip_addr \<times> nat) option" where
  "ParseCIDR s =
     (let a = takeWhile (\<lambda>c. c \<noteq> CHR ''/'') s; m = drop (length a) s in
      if m = [] then None
      else case parse_addr a of
        None \<Rightarrow> None
      | Some (V4 b) \<Rightarrow> (case parse_mask (tl m) of
            Some n \<Rightarrow> if n \<le> 32 then Some (V4 b, n) else None | None \<Rightarrow> None)
      | Some (V6 b z) \<Rightarrow> if z \<noteq> [] then None else (case parse_mask (tl m) of
            Some n \<Rightarrow> if n \<le> 128 then Some (V6 b z, n) else None | None \<Rightarrow> None))"

subsection \<open>An address text has no character outside its alphabet\<close>

definition addr_char :: "char \<Rightarrow> bool" where
  "addr_char c \<longleftrightarrow> is_hex c \<or> c = CHR ''.'' \<or> c = CHR '':''"

lemma is_digit_hex: "is_digit c \<Longrightarrow> is_hex c"
  by (auto simp: is_digit_def is_hex_def hex_val_def)

lemma is_hex_visible: "is_hex c \<Longrightarrow> visible c"
  by (auto simp: is_hex_def hex_val_def visible_def ascii_def space1_def split: if_splits)

lemma addr_char_visible: "addr_char c \<Longrightarrow> visible c"
proof -
  have "visible (CHR ''.'')" "visible (CHR '':'')" by (simp_all add: visible_def ascii_def space1_def)
  then show "addr_char c \<Longrightarrow> visible c" by (auto simp: addr_char_def is_hex_visible)
qed

lemma parse_octet_digits: "parse_octet w = Some n \<Longrightarrow> list_all is_digit w"
  by (auto simp: parse_octet_def split: if_splits)

lemma parse_v4_chars: "parse_v4 s = Some b \<Longrightarrow> list_all addr_char s"
proof -
  assume "parse_v4 s = Some b"
  then have "None \<notin> parse_octet ` set (split_on (CHR ''.'') s)"
    by (auto simp: parse_v4_def Let_def split: if_splits)
  then have *: "\<forall>w\<in>set (split_on (CHR ''.'') s). list_all is_digit w"
    by (metis image_eqI not_None_eq parse_octet_digits)
  have "\<forall>w\<in>set ws. list_all is_digit w \<Longrightarrow> list_all addr_char (join [CHR ''.''] ws)" for ws
  proof (induction ws)
    case (Cons w ws)
    then show ?case
      by (cases ws) (auto simp: join_Cons list_all_iff addr_char_def is_digit_hex)
  qed simp
  from this [OF *] show ?thesis by simp
qed

lemma takeWhile_dropWhile_all:
  "list_all Q (dropWhile P s) \<Longrightarrow> (\<And>c. P c \<Longrightarrow> Q c) \<Longrightarrow> list_all Q s"
  by (induction s) (auto split: if_splits)

lemma hd_tl_all: "r \<noteq> [] \<Longrightarrow> Q (hd r) \<Longrightarrow> list_all Q (tl r) \<Longrightarrow> list_all Q r"
  by (cases r) auto

lemma v6_groups_chars: "v6_groups acc ell s = Some p \<Longrightarrow> list_all addr_char s"
proof (induction acc ell s rule: v6_groups.induct)
  case (1 acc ell s)
  let ?ds = "takeWhile is_hex s" and ?r = "dropWhile is_hex s"
  let ?acc = "acc @ [hex_num ?ds div 256, hex_num ?ds mod 256]"
  have hx: "\<And>c. is_hex c \<Longrightarrow> addr_char c" by (simp add: addr_char_def)
  show ?case
  proof (cases "16 \<le> length acc \<or> (?r \<noteq> [] \<and> hd ?r = CHR ''.'')")
    case True
    with 1(3) show ?thesis
      using parse_v4_chars by (auto simp: v6_groups.simps [of acc ell s] Let_def split: if_splits)
  next
    case False
    with 1(3) have ds: "\<not> (length ?ds = 0 \<or> 4 < length ?ds)" 
      by (auto simp: v6_groups.simps [of acc ell s] Let_def split: if_splits)
    have "list_all addr_char ?r"
    proof (cases ?r)
      case (Cons c r)
      with False ds 1(3) have c: "c = CHR '':''" and r: "r \<noteq> []"
        by (auto simp: v6_groups.simps [of acc ell s] Let_def split: if_splits)
      have "list_all addr_char r"
      proof (cases "hd r = CHR '':''")
        case True
        have "list_all addr_char (tl r)"
        proof (cases "tl r = []")
          case tl: False
          have "v6_groups ?acc (Some (length ?acc)) (tl r) = Some p" and "ell = None"
            using 1(3) False ds Cons c r True tl
            by (simp_all add: v6_groups.simps [of acc ell s] Let_def split: if_splits)
          then show ?thesis
            using 1(1) [of ?ds ?r ?acc] False ds Cons c r True tl by simp
        qed simp
        with True r show ?thesis by (cases r) (auto simp: addr_char_def)
      next
        case hd: False
        have "v6_groups ?acc ell r = Some p"
          using 1(3) False ds Cons c r hd by (simp add: v6_groups.simps [of acc ell s] Let_def)
        then show ?thesis
          using 1(2) [of ?ds ?r ?acc] False ds Cons c r hd by simp
      qed
      with Cons c show ?thesis by (simp add: addr_char_def)
    next
      case Nil
      then show ?thesis by (simp only: list.pred_inject(1))
    qed
    then show ?thesis using hx by (rule takeWhile_dropWhile_all)
  qed
qed

lemma ParseIP_visible: "ParseIP s = Some b \<Longrightarrow> list_all visible s"
proof -
  assume s: "ParseIP s = Some b"
  have "list_all addr_char s"
  proof (cases "parse_addr s")
    case (Some a)
    show ?thesis
    proof (cases a)
      case (V4 v)
      with Some have "parse_v4 s = Some v"
        by (auto simp: parse_addr_def parse_v6_def Let_def split: list.splits if_splits)
      then show ?thesis by (rule parse_v4_chars)
    next
      case (V6 v z)
      let ?t = "takeWhile (\<lambda>c. c \<noteq> CHR ''%'') s"
      from V6 Some s have z: "z = []" and p: "parse_v6 s = Some (V6 v [])"
        by (auto simp: ParseIP_def parse_addr_def split: list.splits if_splits)
      then have "drop (length ?t) s = []"
        by (cases "drop (length ?t) s") (auto simp: parse_v6_def Let_def split: if_splits)
      then have t: "?t = s" by (metis append_Nil2 dropWhile_eq_drop takeWhile_dropWhile_id)
      with p have *: "(has_prefix s ''::'' \<and> list_all addr_char (drop 2 s)) \<or> list_all addr_char s"
        by (cases "has_prefix s ''::''")
          (auto simp: parse_v6_def Let_def bind_eq_Some_conv split: if_splits dest!: v6_groups_chars)
      have "s = ''::'' @ drop 2 s" if "has_prefix s ''::''"
        using that append_take_drop_id [of 2 s] by (simp add: has_prefix_def numeral_2_eq_2)
      moreover have "addr_char (CHR '':'')" by (simp add: addr_char_def)
      ultimately show ?thesis
        using * by (metis append_Cons append_Nil list.pred_inject(2))
    qed
  qed (use s in \<open>simp add: ParseIP_def\<close>)
  then show ?thesis by (auto simp: list_all_iff addr_char_visible)
qed

end
