(* ===== verification/Validate.thy ===== *)
theory Validate
  imports Go_Regexp Go_Net
begin

text \<open>
  \<^verbatim>\<open>internal/services/validate.go\<close>: the guards every value passes before it reaches a generated
  configuration file.  The patterns are written as the source writes them; each validator also
  has a characterisation by plain list predicates, and every accepted text is free of the bytes
  that would break out of its line.
\<close>

subsection \<open>Patterns\<close>

definition lower_alnum :: "char \<Rightarrow> bool" where
  "lower_alnum c \<longleftrightarrow> 97 \<le> ord c \<and> ord c \<le> 122 \<or> is_digit c"

definition alnum :: "char \<Rightarrow> bool" where
  "alnum c \<longleftrightarrow> lower_alnum c \<or> 65 \<le> ord c \<and> ord c \<le> 90"

definition preset_char :: "char \<Rightarrow> bool" where
  "preset_char c \<longleftrightarrow> alnum c \<or> c \<in> set '' _+/-''"

definition label_char :: "char \<Rightarrow> bool" where
  "label_char c \<longleftrightarrow> lower_alnum c \<or> c = CHR ''-''"

definition lower_hex :: "char \<Rightarrow> bool" where
  "lower_hex c \<longleftrightarrow> is_digit c \<or> 97 \<le> ord c \<and> ord c \<le> 102"

definition presetNameRe :: regex where
  "presetNameRe = Seq (Cls alnum) (Upto 63 (Cls preset_char))"

definition labelRe :: regex where
  "labelRe = Seq (Cls lower_alnum) (Opt (Seq (Star (Cls label_char)) (Cls lower_alnum)))"

definition domainNameRe :: regex where
  "domainNameRe = Seq labelRe (Star (Seq (Cls (\<lambda>c. c = CHR ''.'')) labelRe))"

definition digits15Re :: regex where
  "digits15Re = Seq (Cls is_digit) (Upto 4 (Cls is_digit))"

definition portSpecRe :: regex where
  "portSpecRe = Seq digits15Re (Opt (Seq (Cls (\<lambda>c. c = CHR ''-'')) digits15Re))"

definition macStrictRe :: regex where
  "macStrictRe =
     Seq (Pow 2 (Cls lower_hex)) (Pow 5 (Seq (Cls (\<lambda>c. c = CHR '':'')) (Pow 2 (Cls lower_hex))))"

definition protocolValid :: "string list" where
  "protocolValid = ['''', ''all'', ''tcp'', ''udp'', ''icmp'']"

subsection \<open>Validators\<close>

definition ValidPresetName :: "string \<Rightarrow> bool" where
  "ValidPresetName s = matches presetNameRe s"

definition ValidDomain :: "string \<Rightarrow> bool" where
  "ValidDomain s = (if length s = 0 \<or> 253 < length s then False else matches domainNameRe s)"

definition ValidIPv4 :: "string \<Rightarrow> bool" where
  "ValidIPv4 s = (case ParseIP (trim_space s) of None \<Rightarrow> False | Some ip \<Rightarrow> To4 ip \<noteq> None)"

definition ValidIPOrCIDR :: "string \<Rightarrow> bool" where
  "ValidIPOrCIDR s =
     (let t = trim_space s in
      if t = [] then True
      else if contains t ''/'' then ParseCIDR t \<noteq> None
      else ValidIPv4 t)"

definition ValidPortSpec :: "string \<Rightarrow> bool" where
  "ValidPortSpec s = (if s = [] then True else matches portSpecRe s)"

definition ValidProtocol :: "string \<Rightarrow> bool" where
  "ValidProtocol s \<longleftrightarrow> s \<in> set protocolValid"

definition ValidMAC :: "string \<Rightarrow> bool" where
  "ValidMAC s = matches macStrictRe (to_lower s)"

definition NormalizeDomain :: "string \<Rightarrow> string" where
  "NormalizeDomain d =
     (let d = to_lower (trim_space d); d = trim_prefix d ''*.'' in
      if \<not> ValidDomain d then [] else d)"

definition SanitizeSingleLine :: "string \<Rightarrow> string" where
  "SanitizeSingleLine s =
     filter (\<lambda>c. \<not> (c = CHR 0x0A \<or> c = CHR 0x0D \<or> ord c < 32 \<or> ord c = 127)) s"

subsection \<open>Plain characterisations\<close>

definition label_ok :: "string \<Rightarrow> bool" where
  "label_ok w \<longleftrightarrow> w \<noteq> [] \<and> lower_alnum (hd w) \<and> lower_alnum (last w) \<and> list_all label_char w"

definition digits15 :: "string \<Rightarrow> bool" where
  "digits15 w \<longleftrightarrow> 1 \<le> length w \<and> length w \<le> 5 \<and> list_all is_digit w"

lemma lower_alnum_label: "lower_alnum c \<Longrightarrow> label_char c"
  by (simp add: label_char_def)

lemma labelRe_iff: "w \<in> re_lang labelRe \<longleftrightarrow> label_ok w"
proof (cases w)
  case Nil
  then show ?thesis by (simp add: labelRe_def label_ok_def)
next
  case (Cons c s)
  have "s \<in> re_lang (Seq (Star (Cls label_char)) (Cls lower_alnum)) \<longleftrightarrow>
      s \<noteq> [] \<and> list_all label_char s \<and> lower_alnum (last s)" (is "_ = ?R")
  proof (cases s rule: rev_cases)
    case Nil
    then show ?thesis by (auto simp: Seq_iff)
  next
    case (snoc t d)
    have "s \<in> re_lang (Seq (Star (Cls label_char)) (Cls lower_alnum)) \<longleftrightarrow>
        list_all label_char t \<and> lower_alnum d"
      using snoc star_Cls [of _ label_char] by (auto simp: Seq_iff)
    with snoc show ?thesis by (auto simp: lower_alnum_label)
  qed
  with Cons show ?thesis
    by (auto simp: labelRe_def label_ok_def lower_alnum_label)
qed

lemma label_ok_no_dot: "label_ok w \<Longrightarrow> CHR ''.'' \<notin> set w"
  by (auto simp: label_ok_def list_all_iff label_char_def lower_alnum_def is_digit_def)

lemma domainNameRe_iff: "s \<in> re_lang domainNameRe \<longleftrightarrow> list_all label_ok (split_on (CHR ''.'') s)"
proof -
  let ?dot = "CHR ''.''"
  have eq: "re_lang (Seq (Cls (\<lambda>c. c = ?dot)) labelRe) = {?dot # w | w. w \<in> re_lang labelRe}"
    by (auto simp: Seq_iff)
  have "s \<in> re_lang domainNameRe \<longleftrightarrow>
      (\<exists>u v. s = u @ v \<and> label_ok u \<and> v \<in> star_lang {?dot # w | w. w \<in> re_lang labelRe})"
    by (simp add: domainNameRe_def Seq_iff labelRe_iff eq)
  also have "\<dots> \<longleftrightarrow> ?dot # s \<in> star_lang {?dot # w | w. w \<in> re_lang labelRe}"
    by (auto simp: star_lang_Cons labelRe_iff)
  also have "\<dots> \<longleftrightarrow> list_all label_ok (split_on ?dot s)"
    using sep_star_lang [of "re_lang labelRe" label_ok ?dot "?dot # s"] labelRe_iff label_ok_no_dot
    by auto
  finally show ?thesis .
qed

lemma ValidDomain_iff:
  "ValidDomain s \<longleftrightarrow> s \<noteq> [] \<and> length s \<le> 253 \<and> list_all label_ok (split_on (CHR ''.'') s)"
  by (auto simp: ValidDomain_def matches_lang domainNameRe_iff)

lemma digits15Re_iff: "w \<in> re_lang digits15Re \<longleftrightarrow> digits15 w"
  unfolding digits15Re_def digits15_def
  by (cases w) (auto simp: Upto_Cls simp del: Upto.simps)

lemma portSpecRe_iff:
  "s \<in> re_lang portSpecRe \<longleftrightarrow>
     digits15 s \<or> (\<exists>a b. s = a @ CHR ''-'' # b \<and> digits15 a \<and> digits15 b)"
proof -
  have "v \<in> re_lang (Seq (Cls (\<lambda>c. c = CHR ''-'')) digits15Re) \<longleftrightarrow>
      (\<exists>b. v = CHR ''-'' # b \<and> digits15 b)" for v
    by (cases v) (auto simp: digits15Re_iff)
  then have "s \<in> re_lang portSpecRe \<longleftrightarrow>
      (\<exists>u v. s = u @ v \<and> digits15 u \<and> (v = [] \<or> (\<exists>b. v = CHR ''-'' # b \<and> digits15 b)))"
    by (simp add: portSpecRe_def Seq_iff [of _ digits15Re] digits15Re_iff)
  then show ?thesis by (metis append_Nil2)
qed

subsection \<open>Alphabets\<close>

lemma lower_alnum_visible: "lower_alnum c \<Longrightarrow> visible c"
  by (auto simp: lower_alnum_def is_digit_def visible_def ascii_def space1_def)

lemma visible_punct [simp]:
  "visible (CHR ''-'')" "visible (CHR ''.'')" "visible (CHR '':'')" "visible (CHR ''/'')"
  "visible (CHR ''_'')" "visible (CHR ''+'')" "visible (CHR '','')"
  by (simp_all add: visible_def ascii_def space1_def)

lemma label_char_visible: "label_char c \<Longrightarrow> visible c"
  by (auto simp: label_char_def lower_alnum_visible)

lemma lower_hex_visible: "lower_hex c \<Longrightarrow> visible c"
  by (auto simp: lower_hex_def is_digit_def visible_def ascii_def space1_def)

definition domain_char :: "char \<Rightarrow> bool" where
  "domain_char c \<longleftrightarrow> label_char c \<or> c = CHR ''.''"

lemma domain_char_visible: "domain_char c \<Longrightarrow> visible c"
  by (auto simp: domain_char_def label_char_visible)

lemma domain_char_lower: "domain_char c \<Longrightarrow> lower_char c = c"
  by (auto simp: domain_char_def label_char_def lower_alnum_def is_digit_def lower_char_def)

lemma over_domain: "over domain_char domainNameRe"
  by (auto simp: domainNameRe_def labelRe_def domain_char_def label_char_def)

lemma ValidDomain_chars: "ValidDomain s \<Longrightarrow> list_all domain_char s"
  by (auto simp: ValidDomain_def intro: over_matches [OF over_domain] split: if_splits)

lemma ValidDomain_visible: "ValidDomain s \<Longrightarrow> list_all visible s"
  by (drule ValidDomain_chars) (auto simp: list_all_iff domain_char_visible)

lemma ValidDomain_not_Nil: "ValidDomain s \<Longrightarrow> s \<noteq> []"
  by (auto simp: ValidDomain_def)

lemma ValidDomain_trim: "ValidDomain s \<Longrightarrow> trim_space s = s"
  by (rule trim_space_id) (rule ValidDomain_visible)

lemma ValidDomain_lower: "ValidDomain s \<Longrightarrow> to_lower s = s"
  by (rule to_lower_id)
    (auto simp: list_all_iff domain_char_lower visible_ascii domain_char_visible dest!: ValidDomain_chars)

lemma NormalizeDomain_cases: "NormalizeDomain d = [] \<or> ValidDomain (NormalizeDomain d)"
  by (simp add: NormalizeDomain_def Let_def)

lemma over_mac: "over (\<lambda>c. lower_hex c \<or> c = CHR '':'') macStrictRe"
  unfolding macStrictRe_def by (simp add: over_Pow del: Pow.simps)

lemma ValidMAC_visible: "ValidMAC s \<Longrightarrow> list_all visible (to_lower s)"
  unfolding ValidMAC_def
  by (drule over_matches [OF over_mac]) (auto simp: list_all_iff lower_hex_visible)

lemma ValidMAC_no_newline: "ValidMAC s \<Longrightarrow> CHR 0x0A \<notin> set s"
  using ValidMAC_visible visible_no_newline newline_to_lower by blast

lemma ValidMAC_not_Nil: "ValidMAC s \<Longrightarrow> s \<noteq> []"
  by (auto simp: ValidMAC_def matches_lang macStrictRe_def Seq_iff Pow_Cls simp del: Pow.simps)

lemma SanitizeSingleLine_no_control:
  "c \<in> set (SanitizeSingleLine s) \<Longrightarrow> 32 \<le> ord c \<and> ord c \<noteq> 127"
  by (auto simp: SanitizeSingleLine_def)

lemma lower_fold_hex:
  "list_all (\<lambda>c. lower_hex c \<or> c = CHR '':'') (to_lower s) \<Longrightarrow> lower_fold s = s"
  by (induction s rule: lower_fold.induct) (auto simp: to_lower_def lower_hex_def is_digit_def lower_char_def split: if_splits)

lemma ValidMAC_chars: 
  assumes "ValidMAC s"
  shows "list_all visible s" "to_lower s = map lower_char s"
proof -
  have hex: "list_all (\<lambda>c. lower_hex c \<or> c = CHR '':'') (to_lower s)"
    using assms over_matches [OF over_mac] by (simp add: ValidMAC_def)
  then show low: "to_lower s = map lower_char s" using lower_fold_hex [of s] by (simp add: to_lower_def)
  have "visible c" if "visible (lower_char c)" for c
    using that by (auto simp: visible_def space1_def ord_lower_char ascii_def lower_char_def split: if_splits)
  with ValidMAC_visible [OF assms] show "list_all visible s"
    by (auto simp: low list_all_iff)
qed


lemma ValidPortSpec_visible: "ValidPortSpec s \<Longrightarrow> list_all visible s"
  by (auto simp: ValidPortSpec_def matches_lang portSpecRe_iff digits15_def list_all_iff is_digit_visible split: if_splits)

end
