(* ===== verification/Protected.thy ===== *)
theory Protected
  imports Validate
begin

text \<open>
  \<^verbatim>\<open>internal/services/protected.go\<close>: the constant list of Tesla endpoints that must never be
  reached, the four exempt hosts, and the two tests built on it.  \<open>subdomain_of d p\<close> (\<open>d\<close> is \<open>p\<close> or one of
  its sub-domains) is the suffix test every consumer writes out; the locale \<open>name_tree\<close> holds
  what the consumers need of it and \<open>allow_gate\<close> the contract of an allow decision that lets the
  floor override the allow-list.
\<close>

subsection \<open>The tree of names\<close>

definition subdomain_of :: "string \<Rightarrow> string \<Rightarrow> bool" where
  "subdomain_of d p \<longleftrightarrow> d = p \<or> has_suffix d (''.'' @ p)"

locale name_tree =
  fixes below :: "'n \<Rightarrow> 'n \<Rightarrow> bool"
  assumes below_refl: "below a a"
    and below_trans: "below a b \<Longrightarrow> below b c \<Longrightarrow> below a c"
    and below_linear: "below s a \<Longrightarrow> below s b \<Longrightarrow> below a b \<or> below b a"
begin

lemma disjoint_subtrees: "\<not> below a b \<Longrightarrow> \<not> below b a \<Longrightarrow> \<not> (below s a \<and> below s b)"
  using below_linear by blast

lemma covered_by_two:
  "below s a \<Longrightarrow> \<exists>p\<in>P. below s p \<Longrightarrow> (\<exists>p\<in>P. below a p) \<or> (\<exists>p\<in>P. below p a)"
  using below_linear by blast

end

lemma subdomain_suffix: "subdomain_of d p \<longleftrightarrow> suffix (CHR ''.'' # p) (CHR ''.'' # d)"
  by (auto simp: subdomain_of_def has_suffix_iff suffix_Cons)

lemma subdomain_append [simp]: "subdomain_of (x @ CHR ''.'' # p) p"
  using has_suffix_append [of x "CHR ''.'' # p"] by (simp add: subdomain_of_def)

interpretation names: name_tree subdomain_of
proof unfold_locales
  show "subdomain_of a a" for a by (simp add: subdomain_of_def)
  show "subdomain_of a b \<Longrightarrow> subdomain_of b c \<Longrightarrow> subdomain_of a c" for a b c
    by (auto simp: subdomain_suffix intro: suffix_order.trans)
  show "subdomain_of s a \<Longrightarrow> subdomain_of s b \<Longrightarrow> subdomain_of a b \<or> subdomain_of b a" for s a b
    by (auto simp: subdomain_suffix dest: suffix_same_cases)
qed

subsection \<open>The list and the exemptions\<close>

definition spoofConnManHost :: string where
  "spoofConnManHost = ''connman.vn.tesla.services''"

definition protectedDeny :: "string list" where
  "protectedDeny = [
     ''ap.tesla.services'', ''vn.tesla.services'', ''cn.tesla.services'', ''mo.tesla.services'',
     ''eng.go.tesla.services'', ''vn.cloud.tesla.com'', ''vn.cloud.tesla.cn'', ''obs.tesla.com'',
     ''teslamotors.com'', ''tslans.net'', ''tesla-cdn.com'', ''tesla-cdn.net'',
     ''software-update.tesla.com'', ''dl.tesla.com'', ''remote-diagnostics.tesla.com'',
     ''github-fw.tesla.com'', ''toolbox.tesla.com'', ''epc.tesla.com'', ''parts.tesla.com'',
     ''tesla-hermes-snapshot.s3.us-west-2.amazonaws.com'',
     ''tesla-hermes-snapshot-eu.s3.eu-central-1.amazonaws.com'',
     ''tesla-hermes-snapshot-eng.s3.us-west-2.amazonaws.com'',
     ''tesla-hermes-snapshot-eng-eu.s3.eu-central-1.amazonaws.com'']"

definition assistantExempt :: "string list" where
  "assistantExempt = [
     ''assistant-api.prd.euw1.vn.cloud.tesla.com'',
     ''assistant-api.prd.na.vn.cloud.tesla.com'',
     ''assistant-api.prd.cnn1.vn.cloud.tesla.cn'']"

definition canon :: "string \<Rightarrow> string" where
  "canon d = to_lower (trim_space d)"

definition isProtectedDenied :: "string \<Rightarrow> bool" where
  "isProtectedDenied domain =
     (let d = to_lower (trim_space domain) in
      if d = [] then False
      else if d = spoofConnManHost then False
      else if d \<in> set assistantExempt then False
      else list_ex (\<lambda>p. d = p \<or> has_suffix d (''.'' @ p)) protectedDeny)"

definition isProtectedAncestor :: "string \<Rightarrow> bool" where
  "isProtectedAncestor domain =
     (let d = to_lower (trim_space domain) in
      if d = [] then False else list_ex (\<lambda>p. has_suffix p (''.'' @ d)) protectedDeny)"

definition ProtectedDenyCount :: nat where
  "ProtectedDenyCount = length protectedDeny"

abbreviation exempt_hosts :: "string set" where
  "exempt_hosts \<equiv> insert spoofConnManHost (set assistantExempt)"

subsection \<open>What the tests decide\<close>

lemma isProtectedDenied_iff:
  "isProtectedDenied d \<longleftrightarrow>
     canon d \<noteq> [] \<and> canon d \<notin> exempt_hosts \<and> (\<exists>p\<in>set protectedDeny. subdomain_of (canon d) p)"
  by (auto simp: isProtectedDenied_def canon_def subdomain_of_def list_ex_iff Let_def)

lemma strict_subdomain: "has_suffix p (''.'' @ d) \<longleftrightarrow> p \<noteq> d \<and> subdomain_of p d"
  by (auto simp: subdomain_of_def has_suffix_def)

lemma isProtectedAncestor_iff:
  "isProtectedAncestor d \<longleftrightarrow> canon d \<noteq> [] \<and> (\<exists>p\<in>set protectedDeny. p \<noteq> canon d \<and> subdomain_of p (canon d))"
  unfolding isProtectedAncestor_def canon_def [symmetric] strict_subdomain Let_def list_ex_iff
  by simp

lemma canon_ValidDomain: "ValidDomain d \<Longrightarrow> canon d = d"
  by (simp add: canon_def ValidDomain_trim ValidDomain_lower)

lemma canon_Nil [simp]: "canon [] = []"
  by (simp add: canon_def)

text \<open>A valid name keeps its place at the end of whatever is put in front of it.\<close>

lemma domain_charD: "domain_char c \<Longrightarrow> visible c \<and> ascii c \<and> lower_char c = c"
  by (simp add: domain_char_visible domain_char_lower visible_ascii)

lemma canon_append:
  assumes "list_all domain_char t" "t \<noteq> []"
  shows "canon (x @ t) = to_lower (trim_left x) @ t"
proof -
  have v: "list_all visible t" "list_all ascii t" "map lower_char t = t"
    using assms(1) by (auto simp: list_all_iff domain_charD intro: map_idI)
  then show ?thesis
    by (simp add: canon_def trim_space_append_visible assms(2) to_lower_append_ascii)
qed

lemma canon_sub:
  assumes "ValidDomain d"
  shows "canon (x @ ''.'' @ d) = to_lower (trim_left x) @ ''.'' @ d"
  using canon_append [of "CHR ''.'' # d" x] ValidDomain_chars [OF assms]
  by (simp add: domain_char_def)

lemma subdomain_canon_sub: "ValidDomain d \<Longrightarrow> subdomain_of (canon (x @ ''.'' @ d)) d"
  using canon_sub [of d x] subdomain_append [of _ d] by simp

subsection \<open>An allow decision over the floor\<close>

locale allow_gate =
  fixes gate :: "string \<Rightarrow> string list \<Rightarrow> bool"
  assumes gate_iff:
    "gate s L \<longleftrightarrow> canon s \<noteq> [] \<and> \<not> isProtectedDenied s \<and> (\<exists>p\<in>set L. p \<noteq> [] \<and> subdomain_of (canon s) p)"
begin

lemma deny_wins: "isProtectedDenied s \<Longrightarrow> \<not> gate s L"
  by (simp add: gate_iff)

lemma gate_mono: "set L \<subseteq> set M \<Longrightarrow> gate s L \<Longrightarrow> gate s M"
  by (auto simp: gate_iff)

lemma gate_union: "gate s (L @ M) \<longleftrightarrow> gate s L \<or> gate s M"
  by (auto simp: gate_iff)

lemma gate_empty: "\<not> gate s []"
  by (simp add: gate_iff)

text \<open>
  A list whose entries are neither denied nor an ancestor of a denied name decides by itself: for
  a name it matches, the floor has nothing left to refuse, unless the entry is an exempt host.
\<close>

lemma guarded_list_suffices:
  assumes guard: "\<And>p. p \<in> set L \<Longrightarrow> ValidDomain p \<and> \<not> isProtectedDenied p \<and> \<not> isProtectedAncestor p"
    and p: "p \<in> set L" "subdomain_of (canon s) p" "p \<notin> exempt_hosts"
  shows "gate s L"
proof -
  from guard [OF p(1)] have v: "ValidDomain p" "canon p = p" by (simp_all add: canon_ValidDomain)
  have ne: "canon s \<noteq> []"
    using p(2) v ValidDomain_not_Nil [of p] by (auto simp: subdomain_of_def has_suffix_def)
  have "\<not> isProtectedDenied s"
  proof
    assume "isProtectedDenied s"
    then obtain q where q: "q \<in> set protectedDeny" "subdomain_of (canon s) q"
      by (auto simp: isProtectedDenied_iff)
    from names.below_linear [OF p(2) q(2)] show False
    proof
      assume "subdomain_of p q"
      with guard [OF p(1)] v q p(3) ValidDomain_not_Nil [of p] show False
        by (auto simp: isProtectedDenied_iff)
    next
      assume "subdomain_of q p"
      with guard [OF p(1)] v q p(3) ValidDomain_not_Nil [of p] show False
        by (cases "q = p") (auto simp: isProtectedDenied_iff isProtectedAncestor_iff names.below_refl)
    qed
  qed
  with ne p v ValidDomain_not_Nil [of p] show ?thesis by (auto simp: gate_iff)
qed

end

subsection \<open>Properties of the floor\<close>

lemma exempt_check:
  "list_all (\<lambda>e. list_ex (subdomain_of e) protectedDeny \<and>
      list_all (\<lambda>f. \<not> has_suffix f (''.'' @ e)) (spoofConnManHost # assistantExempt))
     (spoofConnManHost # assistantExempt)"
  by code_simp

lemma exempt_denied_apex: "e \<in> exempt_hosts \<Longrightarrow> \<exists>p\<in>set protectedDeny. subdomain_of e p"
  using exempt_check by (auto simp: list_all_iff list_ex_iff)

lemma exempt_incomparable:
  "e \<in> exempt_hosts \<Longrightarrow> f \<in> exempt_hosts \<Longrightarrow> \<not> has_suffix f (''.'' @ e)"
  using exempt_check by (auto simp: list_all_iff)

lemma listed_valid_check:
  "list_all (\<lambda>d. d \<noteq> [] \<and> length d \<le> 253 \<and> list_all label_ok (split_on (CHR ''.'') d))
     (spoofConnManHost # assistantExempt @ protectedDeny)"
  by code_simp

lemma ValidDomain_exempt: "e \<in> exempt_hosts \<Longrightarrow> ValidDomain e"
  and ValidDomain_protected: "p \<in> set protectedDeny \<Longrightarrow> ValidDomain p"
  using listed_valid_check by (auto simp: list_all_iff ValidDomain_iff)

subsection \<open>Properties\<close>

text \<open>
  The floor is closed downwards.  Whatever is put in front of a denied name - any bytes,
  any letter case, leading white space - the longer name is denied too, unless it is exactly one
  of the four exempt hosts.
\<close>

theorem denied_subtree:
  assumes "isProtectedDenied h" and "ValidDomain h" and "canon (x @ ''.'' @ h) \<notin> exempt_hosts"
  shows "isProtectedDenied (x @ ''.'' @ h)"
proof -
  from assms(1,2) obtain p where p: "p \<in> set protectedDeny" "subdomain_of h p"
    by (auto simp: isProtectedDenied_iff canon_ValidDomain)
  have "subdomain_of (canon (x @ ''.'' @ h)) p"
    using subdomain_canon_sub [OF assms(2)] p(2) by (rule names.below_trans)
  moreover have "canon (x @ ''.'' @ h) \<noteq> []"
    using canon_sub [OF assms(2), of x] by simp
  ultimately show ?thesis using assms(3) p(1) by (auto simp: isProtectedDenied_iff)
qed

theorem denied_subtree_witness:
  "isProtectedDenied ('' HERMES'' @ ''.'' @ ''vn.tesla.services'')"
proof (rule denied_subtree)
  have v: "ValidDomain ''vn.tesla.services''"
    using ValidDomain_protected by (simp add: protectedDeny_def)
  then show "ValidDomain ''vn.tesla.services''" .
  show "isProtectedDenied ''vn.tesla.services''"
    using canon_ValidDomain [OF v]
    by (auto simp: isProtectedDenied_iff protectedDeny_def subdomain_of_def spoofConnManHost_def
        assistantExempt_def)
  show "canon ('' HERMES'' @ ''.'' @ ''vn.tesla.services'') \<notin> exempt_hosts"
    by code_simp
qed

text \<open>
  An exemption is one host and nothing more.  The captive-check host and the assistant hosts
  are not denied, each lies under a denied apex, and every name strictly below one is denied.
\<close>

theorem exemption_is_exact:
  assumes "e \<in> exempt_hosts"
  shows "\<not> isProtectedDenied e \<and> (\<exists>p\<in>set protectedDeny. subdomain_of e p) \<and>
         isProtectedDenied (x @ ''.'' @ e)"
proof (intro conjI)
  have v: "ValidDomain e" using assms by (rule ValidDomain_exempt)
  show "\<not> isProtectedDenied e"
    using assms canon_ValidDomain [OF v] by (auto simp: isProtectedDenied_iff)
  show p: "\<exists>p\<in>set protectedDeny. subdomain_of e p"
    using assms by (rule exempt_denied_apex)
  have c: "canon (x @ ''.'' @ e) = to_lower (trim_left x) @ ''.'' @ e" using v by (rule canon_sub)
  then have "canon (x @ ''.'' @ e) \<notin> exempt_hosts"
    using exempt_incomparable [OF assms, of "canon (x @ ''.'' @ e)"] has_suffix_append [of _ "''.'' @ e"]
    by metis
  moreover from p have "\<exists>p\<in>set protectedDeny. subdomain_of (canon (x @ ''.'' @ e)) p"
    using names.below_trans [OF subdomain_canon_sub [OF v, of x]] by blast
  ultimately show "isProtectedDenied (x @ ''.'' @ e)"
    using c by (simp add: isProtectedDenied_iff)
qed

theorem exemption_is_exact_witness:
  "isProtectedDenied (''x'' @ ''.'' @ ''connman.vn.tesla.services'')"
  using exemption_is_exact [of "''connman.vn.tesla.services''" "''x''"]
  by (simp add: spoofConnManHost_def)

end
