(* ===== verification/Models.thy ===== *)
theory Models
  imports Go_Prelude "HOL-Library.Multiset"
begin

text \<open>
  \<^verbatim>\<open>internal/models\<close> and the tables the services keep their state in.  A table is the list of its
  rows in rowid order; \<open>AUTOINCREMENT\<close> gives a new row the successor of the largest id ever used,
  which the table's counter holds.  A statement can fail at the driver: every operation takes the
  predicate \<open>fails\<close>, which says by the statement's label whether it returns an error now, so that
  each \<^verbatim>\<open>if err != nil\<close> of the source is a branch of the model.  Timestamps are integers.

  The constraints are those of \<^verbatim>\<open>internal/database/migrations.go\<close>.
\<close>

type_synonym faults = "string \<Rightarrow> bool"
type_synonym time = int

definition no_faults :: faults where
  "no_faults = (\<lambda>_. False)"

record FilterPort =
  fp_proto :: string
  fp_port :: int
  fp_description :: string

record Filter =
  f_id :: int
  f_name :: string
  f_description :: string
  f_is_system :: bool
  f_enabled :: bool
  f_group :: string
  f_ports :: "FilterPort list"

record FilterDomain =
  d_id :: int
  d_filter :: int
  d_domain :: string
  d_description :: string
  d_enabled :: bool

record Device =
  dev_id :: int
  dev_mac :: string
  dev_ip :: string
  dev_hostname :: string
  dev_alias :: string
  dev_last_seen :: time
  dev_status :: string
  dev_is_blocked :: bool
  dev_ignore_log :: bool

record FirewallRule =
  r_id :: int
  r_description :: string
  r_direction :: string
  r_protocol :: string
  r_source_ip :: string
  r_dest_ip :: string
  r_dest_port :: string
  r_action :: string
  r_device_mac :: string
  r_enabled :: bool
  r_priority :: int

record port_row =
  p_preset :: int
  p_port :: int
  p_description :: string

record db =
  filters :: "Filter list"
  filters_seq :: int
  filter_domains :: "FilterDomain list"
  domains_seq :: int
  filter_udp_ports :: "port_row list"
  filter_tcp_ports :: "port_row list"
  devices :: "Device list"
  devices_seq :: int
  firewall_rules :: "FirewallRule list"
  rules_seq :: int
  settings :: "(string \<times> string) list"

definition empty_db :: db where
  "empty_db = \<lparr>filters = [], filters_seq = 0, filter_domains = [], domains_seq = 0,
     filter_udp_ports = [], filter_tcp_ports = [], devices = [], devices_seq = 0,
     firewall_rules = [], rules_seq = 0, settings = []\<rparr>"

definition DeviceStatusBlocked :: string where "DeviceStatusBlocked = ''blocked''"
definition DeviceStatusFiltered :: string where "DeviceStatusFiltered = ''filtered''"
definition DeviceStatusOpen :: string where "DeviceStatusOpen = ''open''"

lemmas status_defs = DeviceStatusBlocked_def DeviceStatusFiltered_def DeviceStatusOpen_def

subsection \<open>Queries\<close>

definition find_filter :: "int \<Rightarrow> db \<Rightarrow> Filter option" where
  "find_filter i d = find (\<lambda>f. f_id f = i) (filters d)"

text \<open>
  \<^verbatim>\<open>SELECT DISTINCT fd.domain FROM filter_domains fd JOIN filters f ON f.id = fd.preset_id WHERE
  fd.enabled = 1 AND f.enabled = 1\<close>: the global allow-list, before the callers trim it.
\<close>

definition enabled_domains :: "db \<Rightarrow> string list" where
  "enabled_domains d =
     remdups (map d_domain (filter (\<lambda>fd. d_enabled fd \<and>
        list_ex (\<lambda>f. f_id f = d_filter fd \<and> f_enabled f) (filters d)) (filter_domains d)))"

definition with_status :: "string \<Rightarrow> db \<Rightarrow> Device list" where
  "with_status st d = filter (\<lambda>dev. dev_status dev = st) (devices d)"

lemma enabled_domains_iff:
  "s \<in> set (enabled_domains d) \<longleftrightarrow>
     (\<exists>fd\<in>set (filter_domains d). d_domain fd = s \<and> d_enabled fd \<and>
        (\<exists>f\<in>set (filters d). f_id f = d_filter fd \<and> f_enabled f))"
  by (auto simp: enabled_domains_def list_ex_iff)

text \<open>String order of SQLite's default collation (byte-wise), for \<^verbatim>\<open>ORDER BY\<close> on a text column.\<close>

fun str_le :: "string \<Rightarrow> string \<Rightarrow> bool" where
  "str_le [] t = True"
| "str_le (c # s) [] = False"
| "str_le (c # s) (e # t) = (ord c < ord e \<or> c = e \<and> str_le s t)"

text \<open>\<^verbatim>\<open>ORDER BY\<close>: a stable insertion sort by the given comparison.\<close>

fun insert_by :: "('a \<Rightarrow> 'a \<Rightarrow> bool) \<Rightarrow> 'a \<Rightarrow> 'a list \<Rightarrow> 'a list" where
  "insert_by le x [] = [x]"
| "insert_by le x (y # ys) = (if le x y then x # y # ys else y # insert_by le x ys)"

definition sort_by :: "('a \<Rightarrow> 'a \<Rightarrow> bool) \<Rightarrow> 'a list \<Rightarrow> 'a list" where
  "sort_by le xs = foldr (insert_by le) xs []"

lemma set_insert_by [simp]: "set (insert_by le x xs) = insert x (set xs)"
  by (induction xs) auto

lemma sort_by_simps [simp]: "sort_by le [] = []" "sort_by le (x # xs) = insert_by le x (sort_by le xs)"
  by (simp_all add: sort_by_def)

lemma set_sort_by [simp]: "set (sort_by le xs) = set xs"
  by (induction xs) auto

lemma distinct_insert_by [simp]: "distinct (insert_by le x xs) \<longleftrightarrow> x \<notin> set xs \<and> distinct xs"
  by (induction xs) auto

lemma distinct_sort_by: "distinct (sort_by le xs) \<longleftrightarrow> distinct xs"
  by (induction xs) auto

lemma length_insert_by [simp]: "length (insert_by le x xs) = Suc (length xs)"
  by (induction xs) auto

lemma length_sort_by [simp]: "length (sort_by le xs) = length xs"
  by (induction xs) auto

lemma mset_sort_by: "mset (sort_by le xs) = mset xs"
proof -
  have "mset (insert_by le x ys) = add_mset x (mset ys)" for x ys by (induction ys) auto
  then show ?thesis by (induction xs) simp_all
qed

lemma sorted_sort_by:
  assumes total: "\<And>x y. le x y \<or> le y x" and trans: "\<And>x y z. le x y \<Longrightarrow> le y z \<Longrightarrow> le x z"
  shows "sorted_wrt le (sort_by le xs)"
proof -
  have set: "set (insert_by le x ys) = insert x (set ys)" for x ys by (induction ys) auto
  have "sorted_wrt le (insert_by le x ys)" if "sorted_wrt le ys" for x ys
    using that
  proof (induction ys)
    case (Cons y ys)
    then show ?case using total [of x y] by (auto simp: set intro: trans)
  qed simp
  then show ?thesis by (induction xs) simp_all
qed

end
