(* ===== verification/SNI_Proxy.thy ===== *)
theory SNI_Proxy
  imports Protected Models
begin

text \<open>
  \<^verbatim>\<open>internal/services/sniproxy.go\<close>: the transparent TLS gate.  The byte parsers work on the
  bytes the client sent before the read deadline; the connection handler is the list of effects
  it has on the outside, so that what it may dial and what it replays are statements about that
  list.  The lease and ARP tables, the upstream dial and the upstream write are arguments: they
  are the kernel's and dnsmasq's.
\<close>

subsection \<open>Reading the ClientHello\<close>

definition be16 :: "byte \<Rightarrow> byte \<Rightarrow> nat" where
  "be16 a b = unat a * 256 + unat b"

definition bytes_str :: "bytes \<Rightarrow> string" where
  "bytes_str bs = map (\<lambda>b. char_of (unat b)) bs"

definition limit :: "nat \<Rightarrow> 'a list \<Rightarrow> 'a list" where
  "limit n b = (if n < length b then take n b else b)"

function sni_names :: "bytes \<Rightarrow> string" where
  "sni_names l =
     (if length l < 3 then []
      else let nameLen = be16 (l ! 1) (l ! 2) in
        if length l < 3 + nameLen then []
        else if l ! 0 = 0 then to_lower (bytes_str (take nameLen (drop 3 l)))
        else sni_names (drop (3 + nameLen) l))"
  by pat_completeness auto
termination
  by (relation "measure length") auto

function sni_exts :: "bytes \<Rightarrow> string" where
  "sni_exts b =
     (if length b < 4 then []
      else let extType = be16 (b ! 0) (b ! 1); extDataLen = be16 (b ! 2) (b ! 3) in
        if length b < 4 + extDataLen then []
        else let extData = take extDataLen (drop 4 b); b' = drop (4 + extDataLen) b in
          if extType \<noteq> 0 then sni_exts b'
          else if length extData < 2 then []
          else sni_names (limit (be16 (extData ! 0) (extData ! 1)) (drop 2 extData)))"
  by pat_completeness auto
termination
  by (relation "measure length") auto

declare sni_names.simps [simp del] sni_exts.simps [simp del]

definition parseSNI :: "bytes \<Rightarrow> string" where
  "parseSNI b =
     (if length b < 4 \<or> b ! 0 \<noteq> 1 then []
      else let hsLen = unat (b ! 1) * 65536 + unat (b ! 2) * 256 + unat (b ! 3);
               b = limit hsLen (drop 4 b) in
      if length b < 34 then []
      else let b = drop 34 b in
      if length b < 1 then []
      else let sidLen = unat (b ! 0) in
      if length b < 1 + sidLen then []
      else let b = drop (1 + sidLen) b in
      if length b < 2 then []
      else let csLen = be16 (b ! 0) (b ! 1) in
      if length b < 2 + csLen then []
      else let b = drop (2 + csLen) b in
      if length b < 1 then []
      else let cmLen = unat (b ! 0) in
      if length b < 1 + cmLen then []
      else let b = drop (1 + cmLen) b in
      if length b < 2 then []
      else sni_exts (limit (be16 (b ! 0) (b ! 1)) (drop 2 b)))"

datatype hello_error = ReadFull_Error | Not_Handshake byte | Bad_Record_Length nat

definition readClientHello :: "bytes \<Rightarrow> hello_error + (bytes \<times> string)" where
  "readClientHello conn =
     (if length conn < 5 then Inl ReadFull_Error
      else let header = take 5 conn in
        if header ! 0 \<noteq> 0x16 then Inl (Not_Handshake (header ! 0))
        else let recLen = be16 (header ! 3) (header ! 4) in
          if recLen \<le> 0 \<or> 16384 < recLen then Inl (Bad_Record_Length recLen)
          else if length (drop 5 conn) < recLen then Inl ReadFull_Error
          else let body = take recLen (drop 5 conn) in Inr (header @ body, parseSNI body))"

subsection \<open>The allow decision\<close>

definition matchSNI :: "string \<Rightarrow> string list \<Rightarrow> bool" where
  "matchSNI sni sufs =
     (let s = to_lower (trim_space sni) in
      if s = [] then False
      else list_ex (\<lambda>suf. suf \<noteq> [] \<and> (s = suf \<or> has_suffix s (''.'' @ suf))) sufs)"

definition sniAllowed :: "string \<Rightarrow> string list \<Rightarrow> bool" where
  "sniAllowed sni sufs = (if isProtectedDenied sni then False else matchSNI sni sufs)"

lemma matchSNI_iff:
  "matchSNI s L \<longleftrightarrow> canon s \<noteq> [] \<and> (\<exists>p\<in>set L. p \<noteq> [] \<and> subdomain_of (canon s) p)"
  by (auto simp: matchSNI_def canon_def [symmetric] Let_def list_ex_iff subdomain_of_def)

interpretation sni: allow_gate sniAllowed
  by unfold_locales (auto simp: sniAllowed_def matchSNI_iff)

subsection \<open>State\<close>

record SNIProxy =
  sp_suffixes :: "string list"
  sp_filtered :: "string list"

text \<open>The live tables: the lease file by MAC in the order Go's map iteration gives, and ARP by IP.\<close>

record lan_tables =
  leases :: "(string \<times> string list) list option"
  arp :: "(string \<times> string) list option"

definition lookup_domains :: "db \<Rightarrow> string list" where
  "lookup_domains d =
     filter (\<lambda>s. s \<noteq> []) (map (\<lambda>s. to_lower (trim_space s)) (enabled_domains d))"

definition filtered_macs :: "db \<Rightarrow> string list" where
  "filtered_macs d =
     filter (\<lambda>m. m \<noteq> []) (map (\<lambda>dev. to_upper (trim_space (dev_mac dev))) (with_status ''filtered'' d))"

definition RefreshCache :: "faults \<Rightarrow> db \<Rightarrow> SNIProxy \<Rightarrow> SNIProxy" where
  "RefreshCache fails d s =
     (if fails ''sni: list domains'' then s
      else if fails ''sni: list filtered devices'' then s
      else s\<lparr>sp_suffixes := lookup_domains d, sp_filtered := filtered_macs d\<rparr>)"

definition clientMAC :: "lan_tables \<Rightarrow> string \<Rightarrow> string" where
  "clientMAC lan ip =
     (let from_arp = (case arp lan of None \<Rightarrow> []
            | Some t \<Rightarrow> (case map_of t ip of None \<Rightarrow> [] | Some mac \<Rightarrow> to_upper (trim_space mac)))
      in case leases lan of None \<Rightarrow> from_arp
         | Some t \<Rightarrow> (case find (\<lambda>(mac, ips). ip \<in> set ips) t of
                Some (mac, _) \<Rightarrow> to_upper (trim_space mac) | None \<Rightarrow> from_arp))"

definition policyFor :: "lan_tables \<Rightarrow> SNIProxy \<Rightarrow> string \<Rightarrow> string list \<times> bool" where
  "policyFor lan s ip =
     (let mac = clientMAC lan ip in
      if mac = [] then ([], False) else (sp_suffixes s, mac \<in> set (sp_filtered s)))"

subsection \<open>The connection handler\<close>

datatype sni_effect =
    LogSNI string string bool
  | Dial string
  | WriteUpstream bytes
  | Splice
  | CloseUpstream
  | CloseClient

definition JoinHostPort :: "string \<Rightarrow> string \<Rightarrow> string" where
  "JoinHostPort host port =
     (if contains host '':'' then ''['' @ host @ '']:'' @ port else host @ '':'' @ port)"

definition sni_handle ::
    "lan_tables \<Rightarrow> (string \<Rightarrow> bool) \<Rightarrow> (bytes \<Rightarrow> bool) \<Rightarrow> SNIProxy \<Rightarrow> string \<Rightarrow> bytes \<Rightarrow> sni_effect list" where
  "sni_handle lan dial_ok write_ok s clientIP conn =
     (case readClientHello conn of
        Inl e \<Rightarrow> [CloseClient]
      | Inr (hello, sni) \<Rightarrow>
          (let (sufs, filt) = policyFor lan s clientIP;
               allowed = (filt \<and> sniAllowed sni sufs);
               addr = JoinHostPort sni ''443'' in
           if \<not> allowed then [LogSNI clientIP sni False, CloseClient]
           else if \<not> dial_ok addr then [Dial addr, LogSNI clientIP sni False, CloseClient]
           else if \<not> write_ok hello then [Dial addr, WriteUpstream hello, CloseUpstream, CloseClient]
           else [Dial addr, WriteUpstream hello, LogSNI clientIP sni True, Splice,
                 CloseUpstream, CloseClient]))"

subsection \<open>Well-formed ClientHello messages (RFC 8446, section 4.1.2)\<close>

definition u16 :: "nat \<Rightarrow> bytes" where
  "u16 n = [word_of_nat (n div 256), word_of_nat (n mod 256)]"

definition u24 :: "nat \<Rightarrow> bytes" where
  "u24 n = [word_of_nat (n div 65536), word_of_nat (n div 256 mod 256), word_of_nat (n mod 256)]"

fun enc_ext :: "nat \<times> bytes \<Rightarrow> bytes" where
  "enc_ext (t, d) = u16 t @ u16 (length d) @ d"

definition sni_ext :: "bytes \<Rightarrow> nat \<times> bytes" where
  "sni_ext host = (0, u16 (length host + 3) @ [0] @ u16 (length host) @ host)"

definition hello_body :: "bytes \<Rightarrow> bytes \<Rightarrow> bytes \<Rightarrow> bytes \<Rightarrow> (nat \<times> bytes) list \<Rightarrow> bytes" where
  "hello_body rnd sid cs cm exts =
     rnd @ [word_of_nat (length sid)] @ sid @ u16 (length cs) @ cs @ [word_of_nat (length cm)] @ cm @
     (let e = concat (map enc_ext exts) in u16 (length e) @ e)"

definition client_hello :: "bytes \<Rightarrow> bytes \<Rightarrow> bytes \<Rightarrow> bytes \<Rightarrow> (nat \<times> bytes) list \<Rightarrow> bytes \<Rightarrow> bytes" where
  "client_hello rnd sid cs cm exts rest =
     (let b = hello_body rnd sid cs cm exts in [1] @ u24 (length b) @ b @ rest)"

definition ext_ok :: "nat \<times> bytes \<Rightarrow> bool" where
  "ext_ok e \<longleftrightarrow> fst e < 65536 \<and> length (snd e) < 65536"

lemma unat_word8 [simp]: "n < 256 \<Longrightarrow> unat (word_of_nat n :: byte) = n"
  by (simp add: unat_of_nat take_bit_nat_eq_self)

lemma be16_u16: "n < 65536 \<Longrightarrow> be16 (word_of_nat (n div 256)) (word_of_nat (n mod 256)) = n"
  by (simp add: be16_def div_less_iff_less_mult)

lemma u24_value:
  "n < 16777216 \<Longrightarrow>
     unat (word_of_nat (n div 65536) :: byte) * 65536 +
     unat (word_of_nat (n div 256 mod 256) :: byte) * 256 + unat (word_of_nat (n mod 256) :: byte) = n"
proof -
  assume "n < 16777216"
  then have "n div 65536 < 256" by (simp add: div_less_iff_less_mult)
  then have "unat (word_of_nat (n div 65536) :: byte) = n div 65536" by simp
  moreover have "n div 65536 * 65536 + n div 256 mod 256 * 256 + n mod 256 = n"
  proof -
    have "n div 65536 = n div 256 div 256" by (simp add: div_mult2_eq [of n 256 256, symmetric])
    then show ?thesis using div_mult_mod_eq [of n 256] div_mult_mod_eq [of "n div 256" 256] by linarith
  qed
  ultimately show ?thesis by simp
qed

lemma limit_append [simp]: "limit (length a) (a @ b) = a"
  by (simp add: limit_def)

lemma limit_length [simp]: "limit (length a) a = a"
  by (simp add: limit_def)

lemma sni_exts_Cons4:
  "sni_exts (a # b # c # e # t) =
     (if length t < be16 c e then []
      else if be16 a b \<noteq> 0 then sni_exts (drop (be16 c e) t)
      else let d = take (be16 c e) t in
        if length d < 2 then [] else sni_names (limit (be16 (d ! 0) (d ! 1)) (drop 2 d)))"
proof -
  have "drop (4 + n) (a # b # c # e # t) = drop n t" for n by (simp add: numeral_eq_Suc)
  then show ?thesis by (subst sni_exts.simps) (simp add: Let_def)
qed

lemma sni_exts_skip:
  assumes "ext_ok e" "fst e \<noteq> 0"
  shows "sni_exts (enc_ext e @ r) = sni_exts r"
  using assms by (cases e) (simp add: sni_exts_Cons4 u16_def be16_u16 ext_ok_def)

lemma sni_exts_skip_all:
  "list_all (\<lambda>e. ext_ok e \<and> fst e \<noteq> 0) es \<Longrightarrow> sni_exts (concat (map enc_ext es) @ r) = sni_exts r"
  by (induction es) (auto simp: sni_exts_skip)

lemma sni_names_host:
  "length host < 65536 \<Longrightarrow> sni_names ([0] @ u16 (length host) @ host) = to_lower (bytes_str host)"
  by (simp add: sni_names.simps [of "0 # _"] u16_def be16_u16 Let_def)

lemma sni_exts_server_name:
  assumes "length d < 65536" "2 \<le> length d"
  shows "sni_exts (enc_ext (0, d) @ r) = sni_names (limit (be16 (d ! 0) (d ! 1)) (drop 2 d))"
  using assms by (simp add: sni_exts_Cons4 u16_def be16_u16 be16_u16 [of 0, simplified] Let_def)

lemma sni_exts_host:
  assumes "length host + 5 < 65536"
  shows "sni_exts (enc_ext (sni_ext host) @ r) = to_lower (bytes_str host)"
proof -
  let ?l = "[0] @ u16 (length host) @ host"
  let ?d = "u16 (length host + 3) @ ?l"
  have len: "length ?d = length host + 5" "length ?l = length host + 3" by (simp_all add: u16_def)
  have "sni_exts (enc_ext (sni_ext host) @ r) = sni_names (limit (length host + 3) ?l)"
    using sni_exts_server_name [of ?d r] assms len
    by (simp add: sni_ext_def u16_def be16_u16 del: enc_ext.simps)
  also have "limit (length host + 3) ?l = ?l" using len by (simp add: limit_def)
  finally show ?thesis using assms sni_names_host [of host] by simp
qed

lemma parseSNI_client_hello:
  assumes "length rnd = 34" "length sid < 256" "length cs < 65536" "length cm < 256"
    and "length (concat (map enc_ext exts)) < 65536" "length (hello_body rnd sid cs cm exts) < 16777216"
  shows "parseSNI (client_hello rnd sid cs cm exts rest) = sni_exts (concat (map enc_ext exts))"
proof -
  let ?b = "hello_body rnd sid cs cm exts" and ?e = "concat (map enc_ext exts)"
  have hs: "limit (unat (word_of_nat (length ?b div 65536) :: byte) * 65536 +
     unat (word_of_nat (length ?b div 256 mod 256) :: byte) * 256 +
     unat (word_of_nat (length ?b mod 256) :: byte)) (?b @ rest) = ?b"
    using u24_value [OF assms(6)] by simp
  show ?thesis
    unfolding parseSNI_def client_hello_def Let_def u24_def
    using hs assms
    by (simp add: hello_body_def u16_def be16_u16 Let_def)
qed

subsection \<open>Properties\<close>

lemma sni_handle_Dial:
  assumes "Dial addr \<in> set (sni_handle lan dial_ok write_ok s ip conn)"
  obtains hello sni where "readClientHello conn = Inr (hello, sni)" "addr = JoinHostPort sni ''443''"
    "clientMAC lan ip \<noteq> []" "clientMAC lan ip \<in> set (sp_filtered s)" "sniAllowed sni (sp_suffixes s)"
  using assms
  by (auto simp: sni_handle_def policyFor_def Let_def split: sum.splits prod.splits if_splits)

lemma lookup_domains_iff:
  "p \<in> set (lookup_domains d) \<longleftrightarrow> p \<noteq> [] \<and>
     (\<exists>fd\<in>set (filter_domains d). d_enabled fd \<and> canon (d_domain fd) = p \<and>
        (\<exists>f\<in>set (filters d). f_id f = d_filter fd \<and> f_enabled f))"
proof -
  have "p \<in> set (lookup_domains d) \<longleftrightarrow> p \<noteq> [] \<and> (\<exists>x. x \<in> set (enabled_domains d) \<and> canon x = p)"
    by (auto simp: lookup_domains_def canon_def)
  then show ?thesis unfolding enabled_domains_iff by blast
qed

lemma filtered_macs_iff:
  "m \<in> set (filtered_macs d) \<longleftrightarrow> m \<noteq> [] \<and>
     (\<exists>dev\<in>set (devices d). dev_status dev = ''filtered'' \<and> to_upper (trim_space (dev_mac dev)) = m)"
  by (auto simp: filtered_macs_def with_status_def)

text \<open>
  The proxy opens an upstream connection only for a filtered device and an allowed name.
  After a cache refresh, a dial implies that the client's MAC is that of a device row with status
  filtered, that the name in the ClientHello is not on the protected floor, and that it is, or
  lies below, an enabled domain of an enabled filter; the address dialled is that name on port 443.
\<close>

theorem dial_only_allowed:
  assumes "Dial addr \<in> set (sni_handle lan dial_ok write_ok (RefreshCache no_faults d s) ip conn)"
  shows "\<exists>hello sni. readClientHello conn = Inr (hello, sni) \<and> addr = JoinHostPort sni ''443'' \<and>
     \<not> isProtectedDenied sni \<and>
     (\<exists>fd\<in>set (filter_domains d). d_enabled fd \<and> subdomain_of (canon sni) (canon (d_domain fd)) \<and>
        (\<exists>f\<in>set (filters d). f_id f = d_filter fd \<and> f_enabled f)) \<and>
     (\<exists>dev\<in>set (devices d). dev_status dev = ''filtered'' \<and>
        to_upper (trim_space (dev_mac dev)) = clientMAC lan ip)"
proof -
  from assms obtain hello sni where *: "readClientHello conn = Inr (hello, sni)"
    "addr = JoinHostPort sni ''443''" "clientMAC lan ip \<in> set (filtered_macs d)"
    "sniAllowed sni (lookup_domains d)"
    by (elim sni_handle_Dial) (simp add: RefreshCache_def no_faults_def)
  from *(4) have "\<not> isProtectedDenied sni"
    and "\<exists>p\<in>set (lookup_domains d). subdomain_of (canon sni) p"
    by (auto simp: sni.gate_iff)
  with * show ?thesis by (auto simp: lookup_domains_iff filtered_macs_iff) blast
qed

text \<open>
  C7: a protected name is never dialled, whatever the caches, the lease tables and the upstream
  say: the handler logs the refusal and closes the client.
\<close>

theorem protected_never_dialled:
  assumes "readClientHello conn = Inr (hello, sni)" and "isProtectedDenied sni"
  shows "sni_handle lan dial_ok write_ok s ip conn = [LogSNI ip sni False, CloseClient]"
  using assms sni.deny_wins [OF assms(2)] by (auto simp: sni_handle_def Let_def split: prod.splits)

text \<open>
  C8: the parser finds the host name of every well-formed ClientHello, whatever extensions stand
  before and after the server-name extension and whatever follows the message in the record.
\<close>

theorem parseSNI_roundtrip:
  assumes "length rnd = 34" "length sid < 256" "length cs < 65536" "length cm < 256"
    and exts: "exts = pre @ [sni_ext host] @ post"
    and pre: "list_all (\<lambda>e. ext_ok e \<and> fst e \<noteq> 0) pre" and host: "length host + 5 < 65536"
    and "length (concat (map enc_ext exts)) < 65536"
    and "length (hello_body rnd sid cs cm exts) < 16777216"
  shows "parseSNI (client_hello rnd sid cs cm exts rest) = to_lower (bytes_str host)"
proof -
  have "parseSNI (client_hello rnd sid cs cm exts rest) = sni_exts (concat (map enc_ext exts))"
    using assms by (intro parseSNI_client_hello) auto
  also have "\<dots> = sni_exts (enc_ext (sni_ext host) @ concat (map enc_ext post))"
    using exts sni_exts_skip_all [OF pre] by simp
  also have "\<dots> = to_lower (bytes_str host)" using host by (rule sni_exts_host)
  finally show ?thesis .
qed

text \<open>
  What the proxy replays upstream is exactly what the client sent: the raw bytes are the
  first record of the stream, header and body, between 6 and 16389 bytes long.
\<close>

theorem readClientHello_raw:
  assumes "readClientHello conn = Inr (raw, sni)"
  shows "raw = take (length raw) conn \<and> 6 \<le> length raw \<and> length raw \<le> 16389 \<and>
         hd raw = 0x16 \<and> sni = parseSNI (drop 5 raw)"
proof -
  define n where "n = be16 (conn ! 3) (conn ! 4)"
  from assms have n: "5 \<le> length conn" "1 \<le> n" "n \<le> 16384" "n \<le> length (drop 5 conn)"
    and raw: "raw = take 5 conn @ take n (drop 5 conn)" "sni = parseSNI (take n (drop 5 conn))"
    and h: "conn ! 0 = 0x16"
    by (auto simp: readClientHello_def Let_def n_def split: if_splits)
  from n have len: "length raw = 5 + n" by (simp add: raw)
  moreover have "raw = take (5 + n) conn" by (simp add: raw take_add)
  moreover have "hd raw = 0x16" using n h by (cases conn) (simp_all add: raw)
  moreover have "drop 5 raw = take n (drop 5 conn)" using n by (simp add: raw)
  ultimately show ?thesis using n raw by simp
qed

subsection \<open>A worked connection\<close>

definition hello_for :: "string \<Rightarrow> bytes" where
  "hello_for host =
     (let m = client_hello (replicate 34 7) [1] [0x13, 1] [0] [(10, [0, 2]), sni_ext (str_bytes host)] []
      in [0x16, 3, 1] @ u16 (length m) @ m)"

definition sni_db :: db where
  "sni_db = empty_db\<lparr>
     filters := [\<lparr>f_id = 1, f_name = ''Maps'', f_description = [], f_is_system = True,
                  f_enabled = True, f_group = [], f_ports = []\<rparr>],
     filter_domains := [\<lparr>d_id = 1, d_filter = 1, d_domain = ''a.io'', d_description = ''maps'',
                  d_enabled = True\<rparr>],
     devices := [\<lparr>dev_id = 1, dev_mac = ''AA:BB:CC:DD:EE:FF'', dev_ip = ''10.0.0.7'', dev_hostname = [],
                  dev_alias = [], dev_last_seen = 0, dev_status = ''filtered'', dev_is_blocked = False,
                  dev_ignore_log = False\<rparr>]\<rparr>"

definition sni_lan :: lan_tables where
  "sni_lan = \<lparr>leases = Some [(''aa:bb:cc:dd:ee:ff'', [''10.0.0.7''])], arp = None\<rparr>"

definition sni_proxy :: SNIProxy where
  "sni_proxy = RefreshCache no_faults sni_db \<lparr>sp_suffixes = [], sp_filtered = []\<rparr>"

lemma bytes_str_bytes [simp]: "bytes_str (str_bytes s) = s"
  by (simp add: bytes_str_def str_bytes_def o_def)

lemma readClientHello_record:
  assumes "m \<noteq> []" "length m \<le> 16384"
  shows "readClientHello ([0x16, a, b] @ u16 (length m) @ m) =
    Inr ([0x16, a, b] @ u16 (length m) @ m, parseSNI m)"
  using assms by (simp add: readClientHello_def u16_def be16_u16 Let_def)

lemma read_hello_for:
  assumes "length host < 1000"
  shows "readClientHello (hello_for host) = Inr (hello_for host, to_lower host)"
proof -
  let ?x = "[(10, [0, 2]), sni_ext (str_bytes host)]"
  let ?m = "client_hello (replicate 34 7) [1] [0x13, 1] [0] ?x []"
  have len: "length ?m < 2000"
    using assms by (simp add: client_hello_def hello_body_def u24_def u16_def sni_ext_def str_bytes_def Let_def)
  have "parseSNI ?m = sni_exts (concat (map enc_ext ?x))"
    using assms by (intro parseSNI_client_hello)
      (simp_all add: hello_body_def u16_def sni_ext_def str_bytes_def Let_def)
  also have "\<dots> = to_lower host"
    using assms sni_exts_skip [of "(10, [0, 2])"] sni_exts_host [of "str_bytes host" "[]"]
    by (simp add: ext_ok_def str_bytes_def bytes_str_bytes [unfolded str_bytes_def] del: enc_ext.simps)
  finally have "parseSNI ?m = to_lower host" .
  moreover have "?m \<noteq> []" by (simp add: client_hello_def Let_def)
  ultimately show ?thesis
    using len readClientHello_record [of ?m 3 1] by (simp add: hello_for_def Let_def)
qed

lemma example_policy: "policyFor sni_lan sni_proxy ''10.0.0.7'' = ([''a.io''], True)"
  by code_simp

lemma example_allowed: "sniAllowed ''m.a.io'' [''a.io'']"
  by code_simp

lemma example_lower: "to_lower ''M.A.io'' = ''m.a.io''" "to_lower ''dl.tesla.com'' = ''dl.tesla.com''"
  by code_simp+

lemma example_effects:
  "sni_handle sni_lan (\<lambda>_. True) (\<lambda>_. True) sni_proxy ''10.0.0.7'' (hello_for ''M.A.io'') =
     [Dial ''m.a.io:443'', WriteUpstream (hello_for ''M.A.io''), LogSNI ''10.0.0.7'' ''m.a.io'' True, Splice,
      CloseUpstream, CloseClient]"
  using read_hello_for [of "''M.A.io''"]
  by (simp add: sni_handle_def example_lower example_policy example_allowed JoinHostPort_def has_prefix_def)

lemma example_read:
  "readClientHello (hello_for ''dl.tesla.com'') = Inr (hello_for ''dl.tesla.com'', ''dl.tesla.com'')"
  using read_hello_for [of "''dl.tesla.com''"] by (simp add: example_lower)

theorem dial_only_allowed_witness:
  "\<exists>hello sni. readClientHello (hello_for ''M.A.io'') = Inr (hello, sni) \<and>
     ''m.a.io:443'' = JoinHostPort sni ''443'' \<and> \<not> isProtectedDenied sni"
  using dial_only_allowed [of "''m.a.io:443''" sni_lan "\<lambda>_. True" "\<lambda>_. True" sni_db
      "\<lparr>sp_suffixes = [], sp_filtered = []\<rparr>" "''10.0.0.7''" "hello_for ''M.A.io''"]
    example_effects [unfolded sni_proxy_def]
  by auto

theorem protected_never_dialled_witness:
  "sni_handle sni_lan (\<lambda>_. True) (\<lambda>_. True) sni_proxy ''10.0.0.7'' (hello_for ''dl.tesla.com'') =
     [LogSNI ''10.0.0.7'' ''dl.tesla.com'' False, CloseClient]"
proof -
  have "isProtectedDenied ''dl.tesla.com''" by code_simp
  then show ?thesis by (rule protected_never_dialled [OF example_read])
qed

theorem parseSNI_roundtrip_witness:
  "parseSNI (client_hello (replicate 34 7) [1] [0x13, 1] [0] [(10, [0, 2]), sni_ext (str_bytes ''A.io'')] [11]) =
     ''a.io''"
proof -
  have "parseSNI (client_hello (replicate 34 7) [1] [0x13, 1] [0] [(10, [0, 2]), sni_ext (str_bytes ''A.io'')] [11]) =
     to_lower (bytes_str (str_bytes ''A.io''))"
  proof (rule parseSNI_roundtrip [where pre = "[(10, [0, 2])]" and post = "[]"])
    show "list_all (\<lambda>e. ext_ok e \<and> fst e \<noteq> 0) [(10, [0 :: byte, 2])]" by (simp add: ext_ok_def)
  qed (simp_all add: sni_ext_def str_bytes_def u16_def hello_body_def Let_def)
  also have "to_lower (bytes_str (str_bytes ''A.io'')) = ''a.io''" by code_simp
  finally show ?thesis .
qed

theorem readClientHello_raw_witness:
  "6 \<le> length (hello_for ''dl.tesla.com'') \<and> ''dl.tesla.com'' = parseSNI (drop 5 (hello_for ''dl.tesla.com''))"
  using readClientHello_raw [OF example_read] by simp

end
