(* ===== verification/Filters.thy ===== *)
theory Filters
  imports Protected Models
begin

text \<open>
  \<^verbatim>\<open>internal/services/filter.go\<close>: filters, their domains and the global allow-list.  The schema's
  constraints are part of the statements: \<open>UNIQUE(name)\<close> on filters, \<open>UNIQUE(preset_id, domain)\<close>
  with the upsert that meets it, the foreign key of a domain row and its \<open>ON DELETE CASCADE\<close>.
  The invariant \<open>filters_wf\<close> says what every reachable pair of tables satisfies; the allow-list
  it gives is what the DNS generator and the SNI proxy read.
\<close>

datatype filter_error =
    ErrFilterNotFound
  | ErrSystemFilter
  | ErrDescRequired
  | ErrInvalidName
  | ErrDomainRequired
  | ErrProtected string
  | ErrTooBroad string
  | ErrSQL string

subsection \<open>Filters\<close>

definition filter_order :: "Filter \<Rightarrow> Filter \<Rightarrow> bool" where
  "filter_order a b \<longleftrightarrow>
     (if f_group a \<noteq> f_group b then str_le (f_group b) (f_group a)
      else if f_is_system a \<noteq> f_is_system b then f_is_system a
      else str_le (f_name a) (f_name b))"

definition ports_of :: "string \<Rightarrow> port_row list \<Rightarrow> int \<Rightarrow> FilterPort list" where
  "ports_of proto rows i =
     map (\<lambda>p. \<lparr>fp_proto = proto, fp_port = p_port p, fp_description = p_description p\<rparr>)
       (filter (\<lambda>p. p_preset p = i) (sort_by (\<lambda>a b. p_port a \<le> p_port b) rows))"

definition loadPorts :: "faults \<Rightarrow> db \<Rightarrow> int \<Rightarrow> FilterPort list" where
  "loadPorts fails d i =
     (if fails ''filter_udp_ports'' then [] else ports_of ''UDP'' (filter_udp_ports d) i) @
     (if fails ''filter_tcp_ports'' then [] else ports_of ''TCP'' (filter_tcp_ports d) i)"

definition List_filters :: "faults \<Rightarrow> db \<Rightarrow> filter_error + Filter list" where
  "List_filters fails d =
     (if fails ''list filters'' then Inl (ErrSQL ''list filters'')
      else Inr (map (\<lambda>f. f\<lparr>f_ports := loadPorts fails d (f_id f)\<rparr>) (sort_by filter_order (filters d))))"

definition Get_filter :: "faults \<Rightarrow> int \<Rightarrow> db \<Rightarrow> filter_error + Filter" where
  "Get_filter fails i d =
     (if fails ''get filter'' then Inl (ErrSQL ''get filter'')
      else case find_filter i d of
        None \<Rightarrow> Inl ErrFilterNotFound
      | Some f \<Rightarrow> Inr (f\<lparr>f_ports := loadPorts fails d (f_id f)\<rparr>))"

definition Create_filter :: "faults \<Rightarrow> Filter \<Rightarrow> db \<Rightarrow> filter_error + (int \<times> db)" where
  "Create_filter fails f d =
     (let name = trim_space (f_name f); i = filters_seq d + 1 in
      if \<not> ValidPresetName name then Inl ErrInvalidName
      else if fails ''insert filter'' \<or> list_ex (\<lambda>g. f_name g = name) (filters d)
        then Inl (ErrSQL ''insert filter'')
      else Inr (i, d\<lparr>filters_seq := i,
             filters := filters d @ [\<lparr>f_id = i, f_name = name, f_description = f_description f,
               f_is_system = False, f_enabled = False, f_group = [], f_ports = []\<rparr>]\<rparr>))"

definition Update_filter :: "faults \<Rightarrow> int \<Rightarrow> Filter \<Rightarrow> db \<Rightarrow> filter_error + db" where
  "Update_filter fails i f d =
     (let name = trim_space (f_name f) in
      if \<not> ValidPresetName name then Inl ErrInvalidName
      else if fails ''update filter'' \<or>
           (find_filter i d \<noteq> None \<and> list_ex (\<lambda>g. f_name g = name \<and> f_id g \<noteq> i) (filters d))
        then Inl (ErrSQL ''update filter'')
      else Inr (d\<lparr>filters := map (\<lambda>g. if f_id g = i
             then g\<lparr>f_name := name, f_description := f_description f\<rparr> else g) (filters d)\<rparr>))"

definition SetEnabled_filter :: "faults \<Rightarrow> int \<Rightarrow> bool \<Rightarrow> db \<Rightarrow> filter_error + db" where
  "SetEnabled_filter fails i en d =
     (if fails ''set enabled'' then Inl (ErrSQL ''set enabled'')
      else if find_filter i d = None then Inl ErrFilterNotFound
      else Inr (d\<lparr>filters := map (\<lambda>g. if f_id g = i then g\<lparr>f_enabled := en\<rparr> else g) (filters d)\<rparr>))"

definition Delete_filter :: "faults \<Rightarrow> int \<Rightarrow> db \<Rightarrow> filter_error + db" where
  "Delete_filter fails i d =
     (if fails ''select is_system'' then Inl (ErrSQL ''select is_system'')
      else case find_filter i d of
        None \<Rightarrow> Inl ErrFilterNotFound
      | Some f \<Rightarrow>
          if f_is_system f then Inl ErrSystemFilter
          else if fails ''delete filter'' then Inl (ErrSQL ''delete filter'')
          else Inr (d\<lparr>filters := filter (\<lambda>g. f_id g \<noteq> i) (filters d),
                 filter_domains := filter (\<lambda>fd. d_filter fd \<noteq> i) (filter_domains d),
                 filter_udp_ports := filter (\<lambda>p. p_preset p \<noteq> i) (filter_udp_ports d),
                 filter_tcp_ports := filter (\<lambda>p. p_preset p \<noteq> i) (filter_tcp_ports d)\<rparr>))"

subsection \<open>Domains of a filter\<close>

definition ListDomains :: "faults \<Rightarrow> int \<Rightarrow> db \<Rightarrow> filter_error + FilterDomain list" where
  "ListDomains fails i d =
     (if fails ''list filter domains'' then Inl (ErrSQL ''list filter domains'')
      else Inr (sort_by (\<lambda>a b. str_le (d_domain a) (d_domain b))
             (filter (\<lambda>fd. d_filter fd = i) (filter_domains d))))"

definition upsert_domain :: "int \<Rightarrow> string \<Rightarrow> string \<Rightarrow> db \<Rightarrow> int \<times> db" where
  "upsert_domain i nm desc d =
     (case find (\<lambda>fd. d_filter fd = i \<and> d_domain fd = nm) (filter_domains d) of
        Some fd \<Rightarrow> (d_id fd, d\<lparr>filter_domains := map (\<lambda>x. if d_filter x = i \<and> d_domain x = nm
             then x\<lparr>d_description := desc\<rparr> else x) (filter_domains d)\<rparr>)
      | None \<Rightarrow> (let n = domains_seq d + 1 in (n, d\<lparr>domains_seq := n,
             filter_domains := filter_domains d @ [\<lparr>d_id = n, d_filter = i, d_domain = nm,
               d_description = desc, d_enabled = False\<rparr>]\<rparr>)))"

definition CreateDomain :: "faults \<Rightarrow> int \<Rightarrow> FilterDomain \<Rightarrow> db \<Rightarrow> filter_error + (int \<times> db)" where
  "CreateDomain fails i fd d =
     (let nm = NormalizeDomain (d_domain fd); desc = trim_space (d_description fd) in
      if nm = [] then Inl ErrDomainRequired
      else if desc = [] then Inl ErrDescRequired
      else if isProtectedDenied nm then Inl (ErrProtected nm)
      else if isProtectedAncestor nm then Inl (ErrTooBroad nm)
      else if fails ''upsert filter domain'' \<or> find_filter i d = None
        then Inl (ErrSQL ''upsert filter domain'')
      else Inr (upsert_domain i nm desc d))"

definition UpdateDomain :: "faults \<Rightarrow> int \<Rightarrow> FilterDomain \<Rightarrow> db \<Rightarrow> filter_error + db" where
  "UpdateDomain fails i fd d =
     (if trim_space (d_description fd) = [] then Inl ErrDescRequired
      else if fails ''update domain'' then Inl (ErrSQL ''update domain'')
      else Inr (d\<lparr>filter_domains := map (\<lambda>x. if d_id x = i
             then x\<lparr>d_description := trim_space (d_description fd), d_enabled := d_enabled fd\<rparr> else x)
             (filter_domains d)\<rparr>))"

definition SetDomainEnabled :: "faults \<Rightarrow> int \<Rightarrow> bool \<Rightarrow> db \<Rightarrow> filter_error + db" where
  "SetDomainEnabled fails i en d =
     (if fails ''set domain enabled'' then Inl (ErrSQL ''set domain enabled'')
      else Inr (d\<lparr>filter_domains := map (\<lambda>x. if d_id x = i then x\<lparr>d_enabled := en\<rparr> else x)
             (filter_domains d)\<rparr>))"

definition DeleteDomain :: "faults \<Rightarrow> int \<Rightarrow> db \<Rightarrow> filter_error + db" where
  "DeleteDomain fails i d =
     (if fails ''delete domain'' then Inl (ErrSQL ''delete domain'')
      else Inr (d\<lparr>filter_domains := filter (\<lambda>x. d_id x \<noteq> i) (filter_domains d)\<rparr>))"

definition AllEnabledDomains :: "faults \<Rightarrow> db \<Rightarrow> filter_error + string list" where
  "AllEnabledDomains fails d =
     (if fails ''query enabled domains'' then Inl (ErrSQL ''query enabled domains'')
      else Inr (filter (\<lambda>s. s \<noteq> [] \<and> ValidDomain s)
             (map (\<lambda>s. to_lower (trim_space s)) (sort_by str_le (enabled_domains d)))))"

subsection \<open>Invariant\<close>

definition domain_ok :: "FilterDomain \<Rightarrow> bool" where
  "domain_ok fd \<longleftrightarrow> ValidDomain (d_domain fd) \<and> \<not> isProtectedDenied (d_domain fd) \<and>
     \<not> isProtectedAncestor (d_domain fd) \<and> d_description fd \<noteq> []"

definition filters_wf :: "db \<Rightarrow> bool" where
  "filters_wf d \<longleftrightarrow>
     distinct (map f_id (filters d)) \<and> distinct (map f_name (filters d)) \<and>
     (\<forall>f\<in>set (filters d). f_id f \<le> filters_seq d) \<and>
     distinct (map (\<lambda>fd. (d_filter fd, d_domain fd)) (filter_domains d)) \<and>
     (\<forall>fd\<in>set (filter_domains d). domain_ok fd \<and> d_filter fd \<in> f_id ` set (filters d))"

inductive filter_op :: "db \<Rightarrow> db \<Rightarrow> bool" where
  op_create: "Create_filter fails f d = Inr (i, d') \<Longrightarrow> filter_op d d'"
| op_update: "Update_filter fails i f d = Inr d' \<Longrightarrow> filter_op d d'"
| op_enable: "SetEnabled_filter fails i en d = Inr d' \<Longrightarrow> filter_op d d'"
| op_delete: "Delete_filter fails i d = Inr d' \<Longrightarrow> filter_op d d'"
| op_add_domain: "CreateDomain fails i fd d = Inr (n, d') \<Longrightarrow> filter_op d d'"
| op_update_domain: "UpdateDomain fails i fd d = Inr d' \<Longrightarrow> filter_op d d'"
| op_enable_domain: "SetDomainEnabled fails i en d = Inr d' \<Longrightarrow> filter_op d d'"
| op_delete_domain: "DeleteDomain fails i d = Inr d' \<Longrightarrow> filter_op d d'"

lemmas filter_op_defs = Create_filter_def Update_filter_def SetEnabled_filter_def Delete_filter_def
  UpdateDomain_def SetDomainEnabled_def DeleteDomain_def Let_def

lemma find_filter_Some: "find_filter i d = Some f \<Longrightarrow> f \<in> set (filters d) \<and> f_id f = i"
  by (auto simp: find_filter_def find_Some_iff)

lemma find_filter_None: "find_filter i d = None \<longleftrightarrow> i \<notin> f_id ` set (filters d)"
  by (auto simp: find_filter_def find_None_iff)

lemma map_upd_key:
  assumes "\<And>x. k (g x) = k x"
  shows "map k (map (\<lambda>x. if P x then g x else x) xs) = map k xs"
  using assms by (induction xs) auto

lemma distinct_names_update:
  assumes ids: "distinct (map f_id fs)" and names: "distinct (map f_name fs)"
    and nm: "\<forall>g\<in>set fs. f_name g = nm \<longrightarrow> f_id g = i"
  shows "distinct (map f_name (map (\<lambda>g. if f_id g = i then g\<lparr>f_name := nm, f_description := ds\<rparr> else g) fs))"
    (is "distinct (map f_name (map ?h fs))")
proof -
  have "inj_on (\<lambda>g. f_name (?h g)) (set fs)"
  proof (rule inj_onI)
    fix x y
    assume xy: "x \<in> set fs" "y \<in> set fs" and eq: "f_name (?h x) = f_name (?h y)"
    show "x = y"
    proof (cases "f_id x = i \<longleftrightarrow> f_id y = i")
      case True
      with eq xy ids names show ?thesis
        by (cases "f_id x = i") (auto simp: distinct_map dest: inj_onD)
    next
      case False
      with eq xy nm show ?thesis by (auto split: if_splits)
    qed
  qed
  with ids show ?thesis by (simp add: distinct_map o_def comp_inj_on_iff)
qed

lemma wf_Create_filter: "filters_wf d \<Longrightarrow> Create_filter fails f d = Inr (i, d') \<Longrightarrow> filters_wf d'"
  by (force simp: filter_op_defs filters_wf_def list_ex_iff split: if_splits)

lemma wf_map_filters:
  assumes "filters_wf d" "\<And>g. f_id (h g) = f_id g" "distinct (map f_name (map h (filters d)))"
  shows "filters_wf (d\<lparr>filters := map h (filters d)\<rparr>)"
  using assms by (auto simp: filters_wf_def image_image o_def)

lemma wf_Update_filter: "filters_wf d \<Longrightarrow> Update_filter fails i f d = Inr d' \<Longrightarrow> filters_wf d'"
proof -
  assume wf: "filters_wf d" and u: "Update_filter fails i f d = Inr d'"
  let ?nm = "trim_space (f_name f)"
  let ?h = "\<lambda>g. if f_id g = i then g\<lparr>f_name := ?nm, f_description := f_description f\<rparr> else g"
  from u have d': "d' = d\<lparr>filters := map ?h (filters d)\<rparr>"
    and nm: "find_filter i d \<noteq> None \<longrightarrow> (\<forall>g\<in>set (filters d). f_name g = ?nm \<longrightarrow> f_id g = i)"
    by (auto simp: filter_op_defs list_ex_iff split: if_splits)
  show ?thesis
  proof (cases "find_filter i d = None")
    case True
    then have "map ?h (filters d) = filters d"
      by (intro map_idI) (auto simp: find_filter_None image_iff)
    with wf d' show ?thesis by simp
  next
    case False
    with nm wf have "distinct (map f_name (map ?h (filters d)))"
      by (intro distinct_names_update) (auto simp: filters_wf_def)
    with wf show ?thesis unfolding d' by (intro wf_map_filters) auto
  qed
qed

lemma wf_SetEnabled: "filters_wf d \<Longrightarrow> SetEnabled_filter fails i en d = Inr d' \<Longrightarrow> filters_wf d'"
proof -
  assume wf: "filters_wf d" and u: "SetEnabled_filter fails i en d = Inr d'"
  let ?h = "\<lambda>g. if f_id g = i then g\<lparr>f_enabled := en\<rparr> else g"
  from u have d': "d' = d\<lparr>filters := map ?h (filters d)\<rparr>"
    by (auto simp: filter_op_defs split: if_splits)
  have "map f_name (map ?h (filters d)) = map f_name (filters d)"
    by (rule map_upd_key) simp
  with wf have "distinct (map f_name (map ?h (filters d)))"
    unfolding filters_wf_def by (simp only:)
  with wf show ?thesis unfolding d' by (intro wf_map_filters) auto
qed

lemma wf_Delete_filter: "filters_wf d \<Longrightarrow> Delete_filter fails i d = Inr d' \<Longrightarrow> filters_wf d'"
proof -
  assume wf: "filters_wf d" and u: "Delete_filter fails i d = Inr d'"
  then have d': "filters d' = filter (\<lambda>g. f_id g \<noteq> i) (filters d)" "filters_seq d' = filters_seq d"
    "filter_domains d' = filter (\<lambda>fd. d_filter fd \<noteq> i) (filter_domains d)"
    by (auto simp: filter_op_defs split: if_splits option.splits)
  have "d_filter fd \<in> f_id ` {g \<in> set (filters d). f_id g \<noteq> i}"
    if "d_filter fd \<in> f_id ` set (filters d)" "d_filter fd \<noteq> i" for fd :: FilterDomain
    using that by auto
  with wf d' show ?thesis by (auto simp: filters_wf_def distinct_map_filter)
qed

lemma wf_map_domains:
  assumes "filters_wf d" "\<And>x. x \<in> set (filter_domains d) \<Longrightarrow> domain_ok (h x)"
    and "\<And>x. d_filter (h x) = d_filter x \<and> d_domain (h x) = d_domain x"
  shows "filters_wf (d\<lparr>filter_domains := map h (filter_domains d)\<rparr>)"
  using assms by (auto simp: filters_wf_def o_def)

lemma wf_UpdateDomain: "filters_wf d \<Longrightarrow> UpdateDomain fails i fd d = Inr d' \<Longrightarrow> filters_wf d'"
  by (auto simp: filter_op_defs split: if_splits intro!: wf_map_domains)
    (auto simp: filters_wf_def domain_ok_def)

lemma wf_SetDomainEnabled: "filters_wf d \<Longrightarrow> SetDomainEnabled fails i en d = Inr d' \<Longrightarrow> filters_wf d'"
  by (auto simp: filter_op_defs split: if_splits intro!: wf_map_domains)
    (auto simp: filters_wf_def domain_ok_def)

lemma wf_DeleteDomain: "filters_wf d \<Longrightarrow> DeleteDomain fails i d = Inr d' \<Longrightarrow> filters_wf d'"
  by (auto simp: filter_op_defs filters_wf_def distinct_map_filter split: if_splits)

lemma CreateDomain_Inr:
  assumes "CreateDomain fails i fd d = Inr (n, d')"
  obtains nm desc where "nm = NormalizeDomain (d_domain fd)" "desc = trim_space (d_description fd)"
    "ValidDomain nm" "\<not> isProtectedDenied nm" "\<not> isProtectedAncestor nm" "desc \<noteq> []"
    "find_filter i d \<noteq> None" "upsert_domain i nm desc d = (n, d')"
  using assms NormalizeDomain_cases [of "d_domain fd"]
  by (auto simp: CreateDomain_def Let_def split: if_splits)

lemma wf_upsert_domain:
  assumes wf: "filters_wf d" and ok: "ValidDomain nm" "\<not> isProtectedDenied nm" "\<not> isProtectedAncestor nm"
    "desc \<noteq> []" and i: "find_filter i d \<noteq> None" and u: "upsert_domain i nm desc d = (n, d')"
  shows "filters_wf d'"
proof (cases "find (\<lambda>fd. d_filter fd = i \<and> d_domain fd = nm) (filter_domains d)")
  case None
  then have "(i, nm) \<notin> (\<lambda>fd. (d_filter fd, d_domain fd)) ` set (filter_domains d)"
    by (auto simp: find_None_iff)
  with None wf ok i u show ?thesis
    by (auto simp: upsert_domain_def filters_wf_def domain_ok_def find_filter_None Let_def)
next
  case (Some x)
  with u have "d' = d\<lparr>filter_domains := map (\<lambda>x. if d_filter x = i \<and> d_domain x = nm
     then x\<lparr>d_description := desc\<rparr> else x) (filter_domains d)\<rparr>"
    by (simp add: upsert_domain_def)
  moreover have "domain_ok x \<Longrightarrow> domain_ok (x\<lparr>d_description := desc\<rparr>)" for x
    using ok by (simp add: domain_ok_def)
  ultimately show ?thesis using wf by (auto intro!: wf_map_domains) (auto simp: filters_wf_def)
qed

lemma wf_CreateDomain: "filters_wf d \<Longrightarrow> CreateDomain fails i fd d = Inr (n, d') \<Longrightarrow> filters_wf d'"
  by (erule CreateDomain_Inr) (blast intro: wf_upsert_domain)

lemma wf_filter_op: "filter_op d d' \<Longrightarrow> filters_wf d \<Longrightarrow> filters_wf d'"
  by (induction rule: filter_op.induct)
    (blast intro: wf_Create_filter wf_Update_filter wf_SetEnabled wf_Delete_filter wf_CreateDomain
      wf_UpdateDomain wf_SetDomainEnabled wf_DeleteDomain)+

lemma wf_filter_ops: "filter_op\<^sup>*\<^sup>* d d' \<Longrightarrow> filters_wf d \<Longrightarrow> filters_wf d'"
  by (induction rule: rtranclp_induct) (auto intro: wf_filter_op)

text \<open>A table with one system filter, for evaluation, and a domain row as a client sends it.\<close>

definition example_db :: db where
  "example_db = empty_db\<lparr>filters_seq := 1, filters := [\<lparr>f_id = 1, f_name = ''Maps'', f_description = [],
     f_is_system = True, f_enabled = True, f_group = [], f_ports = []\<rparr>]\<rparr>"

definition example_row :: FilterDomain where
  "example_row = \<lparr>d_id = 0, d_filter = 0, d_domain = '' Maps.Example.COM '', d_description = ''tiles'',
     d_enabled = True\<rparr>"

definition example_db' :: db where
  "example_db' = example_db\<lparr>domains_seq := 1, filter_domains := [\<lparr>d_id = 1, d_filter = 1,
     d_domain = ''maps.example.com'', d_description = ''tiles'', d_enabled = True\<rparr>]\<rparr>"

lemma example_create: "CreateDomain no_faults 1 example_row example_db =
    Inr (1, example_db'\<lparr>filter_domains := [\<lparr>d_id = 1, d_filter = 1, d_domain = ''maps.example.com'',
      d_description = ''tiles'', d_enabled = False\<rparr>]\<rparr>)"
  by code_simp

lemma example_wf: "filters_wf example_db"
  by code_simp

lemma example_run: "filter_op\<^sup>*\<^sup>* example_db example_db'"
proof (rule converse_rtranclp_into_rtranclp)
  show "filter_op example_db (example_db'\<lparr>filter_domains := [\<lparr>d_id = 1, d_filter = 1,
      d_domain = ''maps.example.com'', d_description = ''tiles'', d_enabled = False\<rparr>]\<rparr>)"
    by (rule op_add_domain [OF example_create])
  show "filter_op\<^sup>*\<^sup>* (example_db'\<lparr>filter_domains := [\<lparr>d_id = 1, d_filter = 1,
      d_domain = ''maps.example.com'', d_description = ''tiles'', d_enabled = False\<rparr>]\<rparr>) example_db'"
    by (rule r_into_rtranclp, rule op_enable_domain [of no_faults 1 True])
      (simp add: SetDomainEnabled_def no_faults_def example_db'_def)
qed

definition system_ids :: "db \<Rightarrow> int set" where
  "system_ids d = set (map f_id (filter f_is_system (filters d)))"

lemma system_ids_map:
  "(\<And>g. f_id (h g) = f_id g \<and> f_is_system (h g) = f_is_system g) \<Longrightarrow>
     filters d' = map h (filters d) \<Longrightarrow> system_ids d' = system_ids d"
  by (rule set_eqI) (auto simp: system_ids_def image_iff)

lemma system_ids_Delete:
  assumes wf: "filters_wf d" and u: "Delete_filter fails i d = Inr d'"
  shows "system_ids d' = system_ids d"
proof -
  from u obtain f where f: "find_filter i d = Some f" "\<not> f_is_system f"
    and d': "filters d' = filter (\<lambda>g. f_id g \<noteq> i) (filters d)"
    by (auto simp: filter_op_defs split: if_splits option.splits)
  have "g = f" if "g \<in> set (filters d)" "f_id g = i" for g
    using wf that find_filter_Some [OF f(1)] by (auto simp: filters_wf_def distinct_map dest: inj_onD)
  with f(2) d' show ?thesis by (auto simp: system_ids_def)
qed

lemma system_ids_op: "filter_op d d' \<Longrightarrow> filters_wf d \<Longrightarrow> system_ids d' = system_ids d"
proof (induction rule: filter_op.induct)
  case (op_create fails f d i d')
  then show ?case by (auto simp: filter_op_defs system_ids_def split: if_splits)
next
  case (op_update fails i f d d')
  then show ?case
    by (intro system_ids_map [where h = "\<lambda>g. if f_id g = i then
        g\<lparr>f_name := trim_space (f_name f), f_description := f_description f\<rparr> else g"])
      (auto simp: filter_op_defs split: if_splits)
next
  case (op_enable fails i en d d')
  then show ?case
    by (intro system_ids_map [where h = "\<lambda>g. if f_id g = i then g\<lparr>f_enabled := en\<rparr> else g"])
      (auto simp: filter_op_defs split: if_splits)
next
  case (op_delete fails i d d')
  then show ?case by (simp add: system_ids_Delete)
next
  case (op_add_domain fails i fd d n d')
  then show ?case
    by (elim CreateDomain_Inr) (auto simp: upsert_domain_def system_ids_def Let_def split: option.splits)
qed (auto simp: filter_op_defs system_ids_def split: if_splits)

lemma enabled_domains_map:
  assumes "\<And>x. d_domain (h x) = d_domain x \<and> d_enabled (h x) = d_enabled x \<and> d_filter (h x) = d_filter x"
  shows "enabled_domains (d\<lparr>filter_domains := map h (filter_domains d)\<rparr>) = enabled_domains d"
  using assms by (simp add: enabled_domains_def filter_map o_def)

lemma upsert_domain_inert:
  assumes "upsert_domain i nm desc d = (n, d')"
  shows "enabled_domains d' = enabled_domains d \<and>
         (\<exists>x\<in>set (filter_domains d'). d_id x = n \<and> d_filter x = i \<and> d_domain x = nm \<and> d_description x = desc)"
proof (cases "find (\<lambda>fd. d_filter fd = i \<and> d_domain fd = nm) (filter_domains d)")
  case None
  with assms show ?thesis by (auto simp: upsert_domain_def enabled_domains_def Let_def)
next
  case (Some x)
  let ?h = "\<lambda>x. if d_filter x = i \<and> d_domain x = nm then x\<lparr>d_description := desc\<rparr> else x"
  from Some assms have n: "n = d_id x" and d': "d' = d\<lparr>filter_domains := map ?h (filter_domains d)\<rparr>"
    by (auto simp: upsert_domain_def)
  have "enabled_domains d' = enabled_domains d"
    unfolding d' by (rule enabled_domains_map) simp
  moreover have "x \<in> set (filter_domains d)" "d_filter x = i" "d_domain x = nm"
    using Some by (auto simp: find_Some_iff)
  then have "?h x \<in> set (filter_domains d')" unfolding d' by simp
  with \<open>d_filter x = i\<close> \<open>d_domain x = nm\<close> have "\<exists>x\<in>set (filter_domains d'). d_id x = n \<and> d_filter x = i \<and>
      d_domain x = nm \<and> d_description x = desc" by (intro bexI [of _ "?h x"]) (auto simp: n)
  ultimately show ?thesis by blast
qed

lemma AllEnabledDomains_set:
  assumes "filters_wf d"
  shows "AllEnabledDomains no_faults d = Inr (sort_by str_le (enabled_domains d))"
proof -
  have ok: "ValidDomain s" if "s \<in> set (enabled_domains d)" for s
    using that assms by (auto simp: enabled_domains_iff filters_wf_def domain_ok_def)
  have "map (\<lambda>s. to_lower (trim_space s)) (sort_by str_le (enabled_domains d)) = sort_by str_le (enabled_domains d)"
    by (rule map_idI) (simp add: ok ValidDomain_trim ValidDomain_lower)
  then show ?thesis
    using ok by (simp add: AllEnabledDomains_def no_faults_def ValidDomain_not_Nil filter_id_conv)
qed

subsection \<open>Properties\<close>

text \<open>
  C9: the tables stay well-formed under every sequence of operations, with statements failing
  anywhere: ids and names stay unique, every domain row belongs to an existing filter, is a valid
  host name with a justification, and neither is a protected endpoint nor a parent of one.
\<close>

theorem filter_ops_keep_wf: "filter_op\<^sup>*\<^sup>* d d' \<Longrightarrow> filters_wf d \<Longrightarrow> filters_wf d'"
  by (rule wf_filter_ops)

theorem filter_ops_keep_wf_witness: "filters_wf example_db'"
  by (rule filter_ops_keep_wf [OF example_run example_wf])

text \<open>
  System filters can be renamed, extended, switched on and off, but no sequence of operations
  removes one or makes a new one.
\<close>

theorem system_filters_survive: "filter_op\<^sup>*\<^sup>* d d' \<Longrightarrow> filters_wf d \<Longrightarrow> system_ids d' = system_ids d"
proof (induction rule: rtranclp_induct)
  case (step y z)
  have "filters_wf y"
    using step(1) \<open>filters_wf d\<close> by (rule wf_filter_ops)
  with step show ?case by (simp add: system_ids_op)
qed simp

theorem system_filters_survive_witness: "system_ids example_db' = {1} \<and> system_ids example_db = {1}"
  using system_filters_survive [OF example_run example_wf] by (simp add: system_ids_def example_db_def)

text \<open>
  Adding a domain never widens the allow-list.  The row is stored under its normalised name
  and the set of names that resolve is unchanged, also when the row existed and was enabled.
\<close>

theorem created_domain_is_inert:
  assumes "CreateDomain fails i fd d = Inr (n, d')"
  shows "enabled_domains d' = enabled_domains d \<and>
         (\<exists>x\<in>set (filter_domains d'). d_id x = n \<and> d_filter x = i \<and>
            d_domain x = NormalizeDomain (d_domain fd) \<and> d_description x = trim_space (d_description fd))"
  using assms by (elim CreateDomain_Inr) (use upsert_domain_inert in blast)

theorem created_domain_is_inert_witness:
  "\<exists>n d'. CreateDomain no_faults 1 example_row example_db = Inr (n, d') \<and>
     enabled_domains d' = enabled_domains example_db"
  using created_domain_is_inert [OF example_create] example_create by blast

text \<open>
  The allow-list that the generators read is exact.  After any sequence of operations on
  well-formed tables, \<^verbatim>\<open>AllEnabledDomains\<close> returns precisely the names enabled in an enabled filter,
  each one a valid host name that neither the deny floor covers nor sits above it.
\<close>

theorem allow_list_sound:
  assumes "filter_op\<^sup>*\<^sup>* d d'" "filters_wf d"
  shows "\<exists>l. AllEnabledDomains no_faults d' = Inr l \<and> distinct l \<and>
     set l = {d_domain fd | fd f. fd \<in> set (filter_domains d') \<and> f \<in> set (filters d') \<and>
                d_filter fd = f_id f \<and> d_enabled fd \<and> f_enabled f} \<and>
     list_all (\<lambda>s. ValidDomain s \<and> \<not> isProtectedDenied s \<and> \<not> isProtectedAncestor s) l"
proof -
  have wf: "filters_wf d'" using assms by (rule wf_filter_ops)
  have "set (enabled_domains d') = {d_domain fd | fd f. fd \<in> set (filter_domains d') \<and>
      f \<in> set (filters d') \<and> d_filter fd = f_id f \<and> d_enabled fd \<and> f_enabled f}"
    by (rule set_eqI) (auto simp: enabled_domains_iff eq_commute)
  moreover have "list_all (\<lambda>s. ValidDomain s \<and> \<not> isProtectedDenied s \<and> \<not> isProtectedAncestor s)
      (sort_by str_le (enabled_domains d'))"
    using wf by (auto simp: list_all_iff enabled_domains_iff filters_wf_def domain_ok_def)
  ultimately show ?thesis
    by (simp add: AllEnabledDomains_set [OF wf] distinct_sort_by enabled_domains_def)
qed

theorem allow_list_sound_witness:
  "\<exists>l. AllEnabledDomains no_faults example_db' = Inr l \<and> distinct l \<and> ''maps.example.com'' \<in> set l"
  using allow_list_sound [OF example_run example_wf] by (auto simp: example_db'_def example_db_def)

end
