(* ===== verification/Runtime.thy ===== *)
theory Runtime
  imports Models
begin

text \<open>
  \<^verbatim>\<open>internal/config\<close> and \<^verbatim>\<open>internal/executor\<close>, and the part of the machine the services act on.
  A \<open>host\<close> holds the files by path, the executor, and the commands it really started.  What a
  command does is the parameter \<open>shell\<close>: its output and exit, given the commands started before
  it.  An \<open>err\<close> is Go's \<^verbatim>\<open>error\<close>, \<open>None\<close> for nil, and names the failing step otherwise.
\<close>

type_synonym err = "string option"

subsection \<open>Configuration\<close>

record Config =
  ListenAddr :: string
  UseTLS :: bool
  TLSCert :: string
  TLSKey :: string
  DBPath :: string
  WANInterface :: string
  LANInterface :: string
  LANSubnet :: string
  LANGateway :: string
  DHCPRangeStart :: string
  DHCPRangeEnd :: string
  DNSUpstream :: string
  SNIProxyPort :: int
  EnrolHost :: string
  DryRun :: bool
  LogLevel :: string

definition Defaults :: Config where
  "Defaults = \<lparr>ListenAddr = '':80'', UseTLS = False, TLSCert = ''/etc/netfilterd/server.crt'',
     TLSKey = ''/etc/netfilterd/server.key'', DBPath = ''/var/lib/netfilterd/netfilter.db'',
     WANInterface = ''eth1'', LANInterface = ''wlan0'', LANSubnet = ''192.168.4.0/24'',
     LANGateway = ''192.168.4.1'', DHCPRangeStart = ''192.168.4.100'', DHCPRangeEnd = ''192.168.4.250'',
     DNSUpstream = ''1.1.1.1,8.8.8.8'', SNIProxyPort = 8444, EnrolHost = ''air.gapp'', DryRun = False,
     LogLevel = ''info''\<rparr>"

text \<open>
  The map of the source is walked in no fixed order; its keys and the fields they point to are all
  different, so the order does not matter.  An unset variable reads as the empty string.
\<close>

definition override :: "string \<Rightarrow> string \<Rightarrow> string" where
  "override v old = (if v = [] then old else v)"

definition applyEnvOverrides :: "(string \<Rightarrow> string) \<Rightarrow> Config \<Rightarrow> Config" where
  "applyEnvOverrides env c =
     c\<lparr>ListenAddr := override (env ''NETFILTER_LISTEN_ADDR'') (ListenAddr c),
       TLSCert := override (env ''NETFILTER_TLS_CERT'') (TLSCert c),
       TLSKey := override (env ''NETFILTER_TLS_KEY'') (TLSKey c),
       DBPath := override (env ''NETFILTER_DB_PATH'') (DBPath c),
       WANInterface := override (env ''NETFILTER_WAN_INTERFACE'') (WANInterface c),
       LANInterface := override (env ''NETFILTER_LAN_INTERFACE'') (LANInterface c),
       EnrolHost := override (env ''NETFILTER_ENROL_HOST'') (EnrolHost c),
       LANSubnet := override (env ''NETFILTER_LAN_SUBNET'') (LANSubnet c),
       LANGateway := override (env ''NETFILTER_LAN_GATEWAY'') (LANGateway c),
       DHCPRangeStart := override (env ''NETFILTER_DHCP_RANGE_START'') (DHCPRangeStart c),
       DHCPRangeEnd := override (env ''NETFILTER_DHCP_RANGE_END'') (DHCPRangeEnd c),
       DNSUpstream := override (env ''NETFILTER_DNS_UPSTREAM'') (DNSUpstream c),
       LogLevel := override (env ''NETFILTER_LOG_LEVEL'') (LogLevel c),
       DryRun := (let v = env ''NETFILTER_DRY_RUN'' in
         if v = [] then DryRun c else to_lower v = ''true'' \<or> v = ''1'')\<rparr>"

datatype read_result = NotExist | ReadError | Contents string

text \<open>
  \<open>unmarshal\<close> stands for \<^verbatim>\<open>yaml.Unmarshal\<close>: the document and the configuration it writes into, and
  the configuration with the error flag.
\<close>

definition Load :: "(string \<Rightarrow> Config \<Rightarrow> Config \<times> bool) \<Rightarrow> (string \<Rightarrow> string) \<Rightarrow> read_result \<Rightarrow> Config \<times> err" where
  "Load unmarshal env r =
     (case r of
        NotExist \<Rightarrow> (applyEnvOverrides env Defaults, None)
      | ReadError \<Rightarrow> (Defaults, Some ''read config'')
      | Contents s \<Rightarrow> (case unmarshal s Defaults of (c, bad) \<Rightarrow>
          if bad then (c, Some ''parse config'') else (applyEnvOverrides env c, None)))"

subsection \<open>Executor\<close>

record Executor =
  ex_dry_run :: bool
  recorded :: "string list"

record Result =
  Stdout :: string
  Stderr :: string
  ExitCode :: int

definition New_executor :: "bool \<Rightarrow> Executor" where
  "New_executor dry = \<lparr>ex_dry_run = dry, recorded = []\<rparr>"

definition maxRecorded :: nat where
  "maxRecorded = 256"

definition record_cmd :: "string \<Rightarrow> Executor \<Rightarrow> Executor" where
  "record_cmd cmd e =
     (if \<not> ex_dry_run e then e
      else let r = recorded e @ [cmd] in
        e\<lparr>recorded := if length r > maxRecorded then drop (length r - maxRecorded) r else r\<rparr>)"

definition Recorded :: "Executor \<Rightarrow> string list" where
  "Recorded e = recorded e"

datatype proc_error = ExitStatus int | NotStarted

type_synonym command = "string \<times> string list"
type_synonym shell = "command list \<Rightarrow> command \<Rightarrow> string \<times> string \<times> proc_error option"

record host =
  files :: "string \<Rightarrow> string option"
  executor :: Executor
  issued :: "command list"

definition empty_result :: Result where
  "empty_result = \<lparr>Stdout = [], Stderr = [], ExitCode = 0\<rparr>"

definition Run :: "shell \<Rightarrow> string \<Rightarrow> string list \<Rightarrow> host \<Rightarrow> Result \<times> err \<times> host" where
  "Run sh name args h =
     (let cmdStr = name @ '' '' @ join '' '' args;
          h = h\<lparr>executor := record_cmd cmdStr (executor h)\<rparr> in
      if ex_dry_run (executor h) then (empty_result, None, h)
      else (case sh (issued h) (name, args) of (out, errs, e) \<Rightarrow>
        let h = h\<lparr>issued := issued h @ [(name, args)]\<rparr> in
        (case e of
           None \<Rightarrow> (\<lparr>Stdout = out, Stderr = errs, ExitCode = 0\<rparr>, None, h)
         | Some (ExitStatus n) \<Rightarrow> (\<lparr>Stdout = out, Stderr = errs, ExitCode = n\<rparr>, Some (''exec '' @ cmdStr), h)
         | Some NotStarted \<Rightarrow> (\<lparr>Stdout = out, Stderr = errs, ExitCode = -1\<rparr>, Some (''exec '' @ cmdStr), h))))"

definition RunShell :: "shell \<Rightarrow> string \<Rightarrow> host \<Rightarrow> Result \<times> err \<times> host" where
  "RunShell sh script h = Run sh ''sh'' [''-c'', script] h"

text \<open>\<^verbatim>\<open>os.WriteFile\<close>, \<^verbatim>\<open>os.Remove\<close>: the path decides, through \<open>fails\<close>, whether the call succeeds.\<close>

definition write_file :: "faults \<Rightarrow> string \<Rightarrow> string \<Rightarrow> host \<Rightarrow> bool \<times> host" where
  "write_file fails path s h =
     (if fails (''write '' @ path) then (False, h) else (True, h\<lparr>files := (files h)(path \<mapsto> s)\<rparr>))"

definition remove_file :: "string \<Rightarrow> host \<Rightarrow> host" where
  "remove_file path h = h\<lparr>files := (files h)(path := None)\<rparr>"

definition new_host :: "bool \<Rightarrow> host" where
  "new_host dry = \<lparr>files = Map.empty, executor = New_executor dry, issued = []\<rparr>"

subsection \<open>Lemmas\<close>

lemma Run_frame:
  assumes "Run sh name args h = (r, e, h')"
  shows "files h' = files h \<and> ex_dry_run (executor h') = ex_dry_run (executor h) \<and>
         (if ex_dry_run (executor h) then e = None \<and> issued h' = issued h
          else issued h' = issued h @ [(name, args)] \<and> recorded (executor h') = recorded (executor h))"
  using assms
  by (auto simp: Run_def Let_def record_cmd_def split: prod.splits option.splits proc_error.splits if_splits)

definition last_n :: "nat \<Rightarrow> 'a list \<Rightarrow> 'a list" where
  "last_n n xs = drop (length xs - n) xs"

lemma last_n_snoc: "0 < n \<Longrightarrow> last_n n (last_n n xs @ [x]) = last_n n (xs @ [x])"
  by (cases "length xs < n") (auto simp: last_n_def Suc_diff_le not_less)

lemma length_last_n [simp]: "length (last_n n xs) = min n (length xs)"
  by (simp add: last_n_def)

lemma record_cmd_last_n:
  "ex_dry_run e \<Longrightarrow> record_cmd c e = e\<lparr>recorded := last_n maxRecorded (recorded e @ [c])\<rparr>"
  by (simp add: record_cmd_def last_n_def Let_def not_less)

definition cmd_string :: "command \<Rightarrow> string" where
  "cmd_string c = fst c @ '' '' @ join '' '' (snd c)"

definition Run_all :: "shell \<Rightarrow> command list \<Rightarrow> host \<Rightarrow> host" where
  "Run_all sh cs h = fold (\<lambda>c h. snd (snd (Run sh (fst c) (snd c) h))) cs h"

lemma Run_dry:
  "ex_dry_run (executor h) \<Longrightarrow>
     Run sh n args h = (empty_result, None,
        h\<lparr>executor := record_cmd (n @ '' '' @ join '' '' args) (executor h)\<rparr>)"
  by (simp add: Run_def Let_def record_cmd_def)

text \<open>
  In dry-run no command is ever started, and the record is the last 256 commands in call order,
  oldest first, however many were run; outside dry-run nothing is recorded and every command starts.
\<close>

theorem recording_window:
  "Recorded (executor (Run_all sh cs (new_host True))) = last_n 256 (map cmd_string cs) \<and>
   issued (Run_all sh cs (new_host True)) = [] \<and>
   Recorded (executor (Run_all sh cs (new_host False))) = [] \<and>
   issued (Run_all sh cs (new_host False)) = cs"
proof -
  have dry: "let h = Run_all sh cs (new_host True) in ex_dry_run (executor h) \<and> issued h = [] \<and>
      recorded (executor h) = last_n maxRecorded (map cmd_string cs)"
  proof (induction cs rule: rev_induct)
    case (snoc c cs)
    then show ?case
      by (simp add: Run_all_def Let_def Run_dry record_cmd_last_n last_n_snoc maxRecorded_def cmd_string_def)
  qed (simp add: Run_all_def new_host_def New_executor_def last_n_def)
  have wet: "let h = Run_all sh cs (new_host False) in \<not> ex_dry_run (executor h) \<and> issued h = cs \<and>
      recorded (executor h) = []"
  proof (induction cs rule: rev_induct)
    case (snoc c cs)
    let ?h = "Run_all sh cs (new_host False)"
    obtain r e h' where R: "Run sh (fst c) (snd c) ?h = (r, e, h')" by (metis prod_cases3)
    from snoc Run_frame [OF R] R show ?case by (simp add: Run_all_def Let_def)
  qed (simp add: Run_all_def new_host_def New_executor_def)
  from dry wet show ?thesis by (simp add: Let_def Recorded_def maxRecorded_def)
qed

end
