(* ===== verification/DNS_Config.thy ===== *)
theory DNS_Config
  imports Filters Runtime
begin

text \<open>
  \<^verbatim>\<open>internal/services/dns.go\<close>: the default-deny dnsmasq configuration generated from the allow-list,
  and the repair of files an older build left behind.
\<close>

subsection \<open>Generated configuration\<close>

definition em_dash :: string where
  "em_dash = [CHR 0xE2, CHR 0x80, CHR 0x94]"

definition server_line :: "string \<Rightarrow> string \<Rightarrow> string" where
  "server_line host up = ''server=/'' @ host @ ''/'' @ up"

definition dns_header :: "string list" where
  "dns_header =
     [''# Generated by netfilterd '' @ em_dash @ '' do not edit'',
      ''# Default-deny DNS: only filter-enabled domains resolve; everything'',
      ''# else is sinkholed to 0.0.0.0. Extra-defense layer behind the SNI proxy.'', [],
      ''address=/#/0.0.0.0'', [],
      ''# connman captive-check '' @ em_dash @ '' must resolve for the spoof to work'']"

definition buildDNSConfig :: "string list \<Rightarrow> string list \<Rightarrow> string list \<Rightarrow> string" where
  "buildDNSConfig upstreams allowed openMACs =
     concat (map (\<lambda>l. l @ nl) dns_header) @
     concat (map (\<lambda>up. server_line spoofConnManHost up @ nl) upstreams) @
     nl @ ''# Filter allow-list '' @ em_dash @ '' resolve via upstream'' @ nl @
     concat (map (\<lambda>d. if isProtectedDenied d then []
        else concat (map (\<lambda>up. server_line d up @ nl) upstreams)) allowed) @
     (if openMACs = [] then []
      else nl @ ''# Open devices '' @ em_dash @ '' handed public DNS, bypass the default-deny resolver'' @ nl @
        concat (map (\<lambda>mac. ''dhcp-host='' @ mac @ '',set:open'' @ nl) openMACs) @
        ''dhcp-option=tag:open,6,'' @ join '','' upstreams @ nl)"

definition splitUpstreams :: "string \<Rightarrow> string list" where
  "splitUpstreams csv =
     (let out = filter (\<lambda>p. p \<noteq> []) (map trim_space (split_on (CHR '','') csv)) in
      if out = [] then [''1.1.1.1''] else out)"

definition allowedDomains :: "faults \<Rightarrow> db \<Rightarrow> string list option" where
  "allowedDomains fails d =
     (if fails ''query allow-list domains'' then None
      else Some (filter (\<lambda>s. s \<noteq> [] \<and> ValidDomain s)
             (map (\<lambda>s. to_lower (trim_space s)) (sort_by str_le (enabled_domains d)))))"

definition openDeviceMACs :: "faults \<Rightarrow> db \<Rightarrow> string list option" where
  "openDeviceMACs fails d =
     (if fails ''query open devices'' then None
      else Some (filter ValidMAC (map (\<lambda>dev. to_lower (trim_space (dev_mac dev)))
             (with_status DeviceStatusOpen d))))"

definition dns_conf_path :: string where
  "dns_conf_path = ''/etc/dnsmasq.d/netfilter-dns.conf''"

definition enrol_lines :: "Config \<Rightarrow> string" where
  "enrol_lines cfg =
     (if EnrolHost cfg = [] then []
      else nl @ ''# Self-service enrol QR page (LAN-only vanity host)'' @ nl @
        ''address=/'' @ EnrolHost cfg @ ''/'' @ LANGateway cfg @ nl)"

definition restart_dnsmasq :: "shell \<Rightarrow> host \<Rightarrow> err \<times> host" where
  "restart_dnsmasq sh h =
     (case Run sh ''systemctl'' [''restart'', ''dnsmasq''] h of (_, e, h') \<Rightarrow>
        ((if e = None then None else Some ''restart dnsmasq''), h'))"

definition Apply_dns :: "faults \<Rightarrow> shell \<Rightarrow> Config \<Rightarrow> db \<Rightarrow> host \<Rightarrow> err \<times> host" where
  "Apply_dns fails sh cfg d h =
     (case allowedDomains fails d of
        None \<Rightarrow> (Some ''query allow-list domains'', h)
      | Some domains \<Rightarrow>
          (case openDeviceMACs fails d of
             None \<Rightarrow> (Some ''query open devices'', h)
           | Some openMACs \<Rightarrow>
               let conf = buildDNSConfig (splitUpstreams (DNSUpstream cfg)) domains openMACs @ enrol_lines cfg;
                   h1 = remove_file ''/etc/dnsmasq.d/blocklist.conf'' h;
                   (ok, h2) = write_file fails dns_conf_path conf h1 in
               if \<not> ok \<and> \<not> ex_dry_run (executor h2) then (Some ''write netfilter-dns.conf'', h2)
               else restart_dnsmasq sh h2))"

subsection \<open>Repair of older files\<close>

definition global_upstream :: "string \<Rightarrow> bool" where
  "global_upstream t \<longleftrightarrow> has_prefix t ''server='' \<and> \<not> has_prefix t ''server=/''"

definition no_resolv :: "string \<Rightarrow> bool" where
  "no_resolv t \<longleftrightarrow> (case Go_Prelude.fields t of [] \<Rightarrow> False | f # _ \<Rightarrow> f = ''no-resolv'')"

definition stripped_note :: string where
  "stripped_note = ''# stripped by netfilterd (global upstream defeats default-deny): ''"

fun heal_lines :: "string list \<Rightarrow> bool \<Rightarrow> string list \<times> bool \<times> bool" where
  "heal_lines [] seen = ([], seen, False)"
| "heal_lines (line # rest) seen =
     (let trimmed = trim_space line in
      if global_upstream trimmed
      then (case heal_lines rest seen of (ls, s, _) \<Rightarrow>
        ((stripped_note @ trimmed) # ls, s, True))
      else if no_resolv trimmed \<and> seen
      then (case heal_lines rest seen of (ls, s, _) \<Rightarrow> (ls, s, True))
      else (case heal_lines rest (seen \<or> no_resolv trimmed) of (ls, s, ch) \<Rightarrow> (line # ls, s, ch)))"

definition no_resolv_line :: string where
  "no_resolv_line = ''no-resolv  # added by netfilterd '' @ em_dash @ '' no fallback to /etc/resolv.conf''"

text \<open>The new content of the file, if it changes; \<open>None\<close> for a line the scanner refuses.\<close>

definition heal_dnsmasq :: "string \<Rightarrow> string option option" where
  "heal_dnsmasq s =
     (case scan_lines s of (ls, tooLong) \<Rightarrow>
      case heal_lines ls False of (ls', seen, ch) \<Rightarrow>
        if tooLong then None
        else let ls'' = (if seen then ls' else ls' @ [no_resolv_line]) in
          Some (if ch \<or> \<not> seen then Some (join nl ls'' @ nl) else None))"

definition loopback_entry :: "string \<Rightarrow> bool" where
  "loopback_entry line \<longleftrightarrow>
     (case Go_Prelude.fields (trim_space line) of
        [a, b] \<Rightarrow> a = ''nameserver'' \<and> (b = ''127.0.0.1'' \<or> b = ''::1'')
      | _ \<Rightarrow> False)"

definition heal_resolv :: "string \<Rightarrow> string option option" where
  "heal_resolv s =
     (case scan_lines s of (ls, tooLong) \<Rightarrow>
        if tooLong then None
        else Some (if list_ex loopback_entry ls
          then Some (join nl (filter (\<lambda>l. \<not> loopback_entry l) ls) @ nl) else None))"

text \<open>Opening, rewriting and the result \<^verbatim>\<open>(changed, err)\<close> of both functions.\<close>

definition heal_file :: "(string \<Rightarrow> string option option) \<Rightarrow> faults \<Rightarrow> string \<Rightarrow> host \<Rightarrow> (bool \<times> err) \<times> host" where
  "heal_file heal fails path h =
     (case files h path of
        None \<Rightarrow> ((False, Some ''open''), h)
      | Some s \<Rightarrow>
          (case heal s of
             None \<Rightarrow> ((False, Some ''bufio.Scanner: token too long''), h)
           | Some None \<Rightarrow> ((False, None), h)
           | Some (Some out) \<Rightarrow>
               (case write_file fails path out h of (ok, h') \<Rightarrow>
                  ((True, if ok then None else Some ''write''), h'))))"

definition stripGlobalUpstreamsAndAddNoResolv :: "faults \<Rightarrow> string \<Rightarrow> host \<Rightarrow> (bool \<times> err) \<times> host" where
  "stripGlobalUpstreamsAndAddNoResolv = heal_file heal_dnsmasq"

definition stripLoopbackFromResolv :: "faults \<Rightarrow> string \<Rightarrow> host \<Rightarrow> (bool \<times> err) \<times> host" where
  "stripLoopbackFromResolv = heal_file heal_resolv"

definition EnsureDefaultDenyConfig :: "faults \<Rightarrow> shell \<Rightarrow> host \<Rightarrow> err \<times> host" where
  "EnsureDefaultDenyConfig fails sh h =
     (case stripGlobalUpstreamsAndAddNoResolv fails ''/etc/dnsmasq.conf'' h of ((ch1, e1), h1) \<Rightarrow>
      if e1 \<noteq> None then (Some ''heal /etc/dnsmasq.conf'', h1)
      else (case stripLoopbackFromResolv fails ''/etc/resolv.conf'' h1 of ((ch2, _), h2) \<Rightarrow>
        if ch1 \<or> ch2 then restart_dnsmasq sh h2 else (None, h2)))"

subsection \<open>The lines of the configuration\<close>

definition config_lines :: "string list \<Rightarrow> string list \<Rightarrow> string list \<Rightarrow> string list" where
  "config_lines upstreams allowed openMACs =
     dns_header @ map (server_line spoofConnManHost) upstreams @
     [[], ''# Filter allow-list '' @ em_dash @ '' resolve via upstream''] @
     concat (map (\<lambda>d. map (server_line d) upstreams) (filter (\<lambda>d. \<not> isProtectedDenied d) allowed)) @
     (if openMACs = [] then []
      else [[], ''# Open devices '' @ em_dash @ '' handed public DNS, bypass the default-deny resolver''] @
        map (\<lambda>mac. ''dhcp-host='' @ mac @ '',set:open'') openMACs @
        [''dhcp-option=tag:open,6,'' @ join '','' upstreams])"

lemma unlines_servers:
  "unlines (concat (map (\<lambda>d. map (server_line d) ups) (filter (\<lambda>d. \<not> isProtectedDenied d) ds))) =
     concat (map (\<lambda>d. if isProtectedDenied d then [] else concat (map (\<lambda>up. server_line d up @ nl) ups)) ds)"
  by (induction ds) (auto simp: unlines_def o_def)

lemma buildDNSConfig_unlines:
  "buildDNSConfig ups ds macs = unlines (config_lines ups ds macs)"
proof -
  have "concat (map (\<lambda>l. l @ nl) dns_header) = unlines dns_header" by (simp add: unlines_def)
  then show ?thesis by (simp add: buildDNSConfig_def config_lines_def unlines_servers unlines_map)
qed

lemma newline_free_const:
  "CHR 0x0A \<notin> set em_dash" "\<forall>l\<in>set dns_header. CHR 0x0A \<notin> set l" "CHR 0x0A \<notin> set spoofConnManHost"
  by (simp_all add: em_dash_def dns_header_def spoofConnManHost_def)

lemma newline_free_join: "\<forall>l\<in>set ls. CHR 0x0A \<notin> set l \<Longrightarrow> CHR 0x0A \<notin> set (join '','' ls)"
  by (induction "'',''" ls rule: join.induct) auto

lemma config_lines_newline_free:
  assumes "\<forall>u\<in>set ups. CHR 0x0A \<notin> set u" "\<forall>d\<in>set ds. CHR 0x0A \<notin> set d" "\<forall>m\<in>set macs. CHR 0x0A \<notin> set m"
  shows "\<forall>l\<in>set (config_lines ups ds macs). CHR 0x0A \<notin> set l"
  using assms newline_free_const newline_free_join [OF assms(1)]
  by (auto simp: config_lines_def server_line_def)

lemma newline_free_visible: "list_all visible s \<Longrightarrow> CHR 0x0A \<notin> set s"
  by (rule visible_no_newline)

lemma allowedDomains_valid: "allowedDomains fails d = Some ds \<Longrightarrow> x \<in> set ds \<Longrightarrow> ValidDomain x"
  by (auto simp: allowedDomains_def split: if_splits)

lemma openDeviceMACs_valid: "openDeviceMACs fails d = Some ms \<Longrightarrow> x \<in> set ms \<Longrightarrow> ValidMAC x"
  by (auto simp: openDeviceMACs_def split: if_splits)

lemma server_lines_of_config:
  assumes "l \<in> set (config_lines ups ds macs)" "has_prefix l ''server=''"
  shows "\<exists>h up. l = server_line h up \<and> up \<in> set ups \<and>
           (h = spoofConnManHost \<or> h \<in> set ds \<and> \<not> isProtectedDenied h)"
  using assms by (auto simp: config_lines_def dns_header_def has_prefix_def split: if_splits)

lemma server_line_prefix: "has_prefix (server_line h up) ''server=''"
  by (simp add: server_line_def has_prefix_def)

lemma server_line_in_config:
  assumes "up \<in> set ups" "h = spoofConnManHost \<or> h \<in> set ds \<and> \<not> isProtectedDenied h"
  shows "server_line h up \<in> set (config_lines ups ds macs)"
proof -
  have "server_line h up \<in> set (map (server_line spoofConnManHost) ups) \<or>
      server_line h up \<in> set (concat (map (\<lambda>d. map (server_line d) ups) (filter (\<lambda>d. \<not> isProtectedDenied d) ds)))"
    using assms by auto
  then show ?thesis unfolding config_lines_def set_append by blast
qed

definition server_lines :: "string \<Rightarrow> string set" where
  "server_lines conf = set (filter (\<lambda>l. has_prefix l ''server='') (split_on (CHR 0x0A) conf))"

lemma server_lines_config:
  assumes "\<forall>u\<in>set ups. CHR 0x0A \<notin> set u" "\<forall>d\<in>set ds. CHR 0x0A \<notin> set d" "\<forall>m\<in>set macs. CHR 0x0A \<notin> set m"
    and "\<forall>l\<in>set ls. CHR 0x0A \<notin> set l \<and> \<not> has_prefix l ''server=''"
  shows "server_lines (buildDNSConfig ups ds macs @ unlines ls) =
     {server_line h up | h up. up \<in> set ups \<and> (h = spoofConnManHost \<or> h \<in> set ds \<and> \<not> isProtectedDenied h)}"
    (is "?L = ?R")
proof -
  have "split_on (CHR 0x0A) (buildDNSConfig ups ds macs @ unlines ls) = (config_lines ups ds macs @ ls) @ [[]]"
    using split_unlines [of "config_lines ups ds macs @ ls"] config_lines_newline_free [OF assms(1-3)] assms(4)
    by (auto simp: buildDNSConfig_unlines)
  moreover have "\<not> has_prefix [] ''server=''" by (simp add: has_prefix_def)
  ultimately have "?L = {l \<in> set (config_lines ups ds macs). has_prefix l ''server=''}"
    using assms(4) by (auto simp: server_lines_def)
  moreover have "?R \<subseteq> {l \<in> set (config_lines ups ds macs). has_prefix l ''server=''}"
    using server_line_in_config server_line_prefix by blast
  moreover have "{l \<in> set (config_lines ups ds macs). has_prefix l ''server=''} \<subseteq> ?R"
    using server_lines_of_config by blast
  ultimately show ?thesis by blast
qed

lemma splitUpstreams_newline_free:
  assumes "CHR 0x0A \<notin> set csv"
  shows "\<forall>u\<in>set (splitUpstreams csv). CHR 0x0A \<notin> set u"
proof -
  have "CHR 0x0A \<notin> set (trim_space w)" if "w \<in> set (split_on (CHR '','') csv)" for w
    using assms set_split_on [OF that] set_trim_space [of w] by blast
  then show ?thesis by (auto simp: splitUpstreams_def Let_def)
qed

lemma enrol_unlines:
  assumes "CHR 0x0A \<notin> set (EnrolHost cfg)" "CHR 0x0A \<notin> set (LANGateway cfg)"
  shows "\<exists>ls. enrol_lines cfg = unlines ls \<and> (\<forall>l\<in>set ls. CHR 0x0A \<notin> set l \<and> \<not> has_prefix l ''server='')"
proof (cases "EnrolHost cfg = []")
  case True
  then show ?thesis by (intro exI [of _ "[]"]) (simp add: enrol_lines_def)
next
  case False
  with assms show ?thesis
    by (intro exI [of _ "[[], ''# Self-service enrol QR page (LAN-only vanity host)'',
         ''address=/'' @ EnrolHost cfg @ ''/'' @ LANGateway cfg]"]) (simp add: enrol_lines_def has_prefix_def)
qed

lemma Apply_dns_ok:
  assumes "Apply_dns fails sh cfg d h = (None, h')" "\<not> ex_dry_run (executor h)"
  obtains ds ms where "allowedDomains fails d = Some ds" "openDeviceMACs fails d = Some ms"
    "files h' dns_conf_path = Some (buildDNSConfig (splitUpstreams (DNSUpstream cfg)) ds ms @ enrol_lines cfg)"
    "issued h' = issued h @ [(''systemctl'', [''restart'', ''dnsmasq''])]"
  using assms
  by (auto simp: Apply_dns_def restart_dnsmasq_def write_file_def remove_file_def Let_def
      split: option.splits if_splits prod.splits dest!: Run_frame)

lemma allowed_set:
  "allowedDomains fails d = Some ds \<Longrightarrow>
     set ds = {h. ValidDomain h \<and> h \<in> (\<lambda>s. to_lower (trim_space s)) ` set (enabled_domains d)}"
  using ValidDomain_not_Nil by (fastforce simp: allowedDomains_def split: if_splits)

text \<open>
  C10: when the DNS configuration is applied, the names that the written file sends to an upstream
  are exactly the captive-check host and the enabled, valid, unprotected domains, once per
  configured upstream, whatever the tables contain; every name else is left to the sinkhole, and
  dnsmasq is restarted after the write.
\<close>

theorem applied_dns_is_default_deny:
  assumes "Apply_dns fails sh cfg d h = (None, h')" "\<not> ex_dry_run (executor h)"
    and "CHR 0x0A \<notin> set (DNSUpstream cfg)" "CHR 0x0A \<notin> set (EnrolHost cfg)" "CHR 0x0A \<notin> set (LANGateway cfg)"
  shows "\<exists>conf. files h' dns_conf_path = Some conf \<and>
     issued h' = issued h @ [(''systemctl'', [''restart'', ''dnsmasq''])] \<and>
     server_lines conf = {server_line s up | s up. up \<in> set (splitUpstreams (DNSUpstream cfg)) \<and>
       (s = spoofConnManHost \<or> ValidDomain s \<and> \<not> isProtectedDenied s \<and>
          s \<in> (\<lambda>s. to_lower (trim_space s)) ` set (enabled_domains d))}"
proof -
  obtain ds ms where ok: "allowedDomains fails d = Some ds" "openDeviceMACs fails d = Some ms"
    "files h' dns_conf_path = Some (buildDNSConfig (splitUpstreams (DNSUpstream cfg)) ds ms @ enrol_lines cfg)"
    "issued h' = issued h @ [(''systemctl'', [''restart'', ''dnsmasq''])]"
    using assms(1,2) by (rule Apply_dns_ok)
  obtain ls where ls: "enrol_lines cfg = unlines ls" "\<forall>l\<in>set ls. CHR 0x0A \<notin> set l \<and> \<not> has_prefix l ''server=''"
    using enrol_unlines [OF assms(4,5)] by blast
  have "\<forall>x\<in>set ds. CHR 0x0A \<notin> set x"
    using allowedDomains_valid [OF ok(1)] by (intro ballI visible_no_newline ValidDomain_visible)
  moreover have "\<forall>x\<in>set ms. CHR 0x0A \<notin> set x"
    using openDeviceMACs_valid [OF ok(2)] by (blast dest: ValidMAC_no_newline)
  ultimately have srv: "server_lines (buildDNSConfig (splitUpstreams (DNSUpstream cfg)) ds ms @ enrol_lines cfg) =
     {server_line s up | s up. up \<in> set (splitUpstreams (DNSUpstream cfg)) \<and>
        (s = spoofConnManHost \<or> s \<in> set ds \<and> \<not> isProtectedDenied s)}"
    unfolding ls(1) using splitUpstreams_newline_free [OF assms(3)] ls(2) by (intro server_lines_config)
  have eq: "s \<in> set ds \<and> \<not> isProtectedDenied s \<longleftrightarrow> ValidDomain s \<and> \<not> isProtectedDenied s \<and>
      s \<in> (\<lambda>s. to_lower (trim_space s)) ` set (enabled_domains d)" for s
    unfolding allowed_set [OF ok(1)] by blast
  show ?thesis by (intro exI conjI, rule ok(3), rule ok(4)) (simp only: srv eq)
qed

definition example_cfg :: Config where
  "example_cfg = Defaults"

definition quiet_shell :: shell where
  "quiet_shell = (\<lambda>_ _. ([], [], None))"

lemma example_apply:
  "fst (Apply_dns no_faults quiet_shell Defaults example_db' (new_host False)) = None"
  by code_simp

theorem applied_dns_is_default_deny_witness:
  "\<exists>h' conf. Apply_dns no_faults quiet_shell Defaults example_db' (new_host False) = (None, h') \<and>
     files h' dns_conf_path = Some conf \<and> server_line ''maps.example.com'' ''8.8.8.8'' \<in> server_lines conf"
proof -
  obtain h' where ok: "Apply_dns no_faults quiet_shell Defaults example_db' (new_host False) = (None, h')"
    using example_apply by (metis prod.collapse)
  have n: "CHR 0x0A \<notin> set (DNSUpstream Defaults)" "CHR 0x0A \<notin> set (EnrolHost Defaults)"
    "CHR 0x0A \<notin> set (LANGateway Defaults)" "\<not> ex_dry_run (executor (new_host False))"
    by (simp_all add: Defaults_def new_host_def New_executor_def)
  have c: "''8.8.8.8'' \<in> set (splitUpstreams (DNSUpstream Defaults))" "ValidDomain ''maps.example.com''"
    "\<not> isProtectedDenied ''maps.example.com''"
    "''maps.example.com'' \<in> (\<lambda>s. to_lower (trim_space s)) ` set (enabled_domains example_db')"
    by code_simp+
  show ?thesis using applied_dns_is_default_deny [OF ok n(4,1,2,3)] ok c by blast
qed

subsection \<open>The repair\<close>

definition healed :: "string list \<Rightarrow> bool" where
  "healed ls \<longleftrightarrow> list_all (\<lambda>l. \<not> global_upstream (trim_space l)) ls \<and>
     length (filter (\<lambda>l. no_resolv (trim_space l)) ls) = 1"

lemma hash_line: "\<not> global_upstream (trim_space (CHR ''#'' # u)) \<and> \<not> no_resolv (trim_space (CHR ''#'' # u))"
proof -
  have "visible (CHR ''#'')" by (simp add: visible_def ascii_def space1_def)
  from trim_space_visible_head [OF this] obtain v where v: "trim_space (CHR ''#'' # u) = CHR ''#'' # v" by blast
  from fields_visible_head [OF \<open>visible (CHR ''#'')\<close>] obtain w ws where "Go_Prelude.fields (CHR ''#'' # v) = (CHR ''#'' # w) # ws"
    by blast
  with v show ?thesis by (simp add: global_upstream_def no_resolv_def has_prefix_def)
qed

lemma heal_lines_spec:
  assumes "heal_lines ls seen = (out, s, ch)"
  shows "list_all (\<lambda>l. \<not> global_upstream (trim_space l)) out \<and> (seen \<longrightarrow> s) \<and>
     length (filter (\<lambda>l. no_resolv (trim_space l)) out) = (if s \<and> \<not> seen then 1 else 0) \<and>
     (\<forall>l\<in>set out. l \<in> set ls \<or> (\<exists>l'\<in>set ls. l = stripped_note @ trim_space l'))"
  using assms
proof (induction ls arbitrary: seen out s ch)
  case (Cons l ls)
  obtain o1 s1 c1 where r1: "heal_lines ls seen = (o1, s1, c1)" by (metis prod_cases3)
  obtain o2 s2 c2 where r2: "heal_lines ls (seen \<or> no_resolv (trim_space l)) = (o2, s2, c2)" by (metis prod_cases3)
  have nt: "\<not> global_upstream (trim_space (stripped_note @ u))" "\<not> no_resolv (trim_space (stripped_note @ u))" for u
    using hash_line by (simp_all add: stripped_note_def)
  consider (g) "global_upstream (trim_space l)"
    | (d) "\<not> global_upstream (trim_space l)" "no_resolv (trim_space l) \<and> seen"
    | (k) "\<not> global_upstream (trim_space l)" "\<not> (no_resolv (trim_space l) \<and> seen)" by blast
  then show ?case
  proof cases
    case g
    with Cons.prems r1 have "out = (stripped_note @ trim_space l) # o1" "s = s1" by (auto simp: Let_def)
    with Cons.IH [OF r1] nt show ?thesis by auto
  next
    case d
    with Cons.prems r1 have "out = o1" "s = s1" by (auto simp: Let_def)
    with Cons.IH [OF r1] show ?thesis by auto
  next
    case k
    with Cons.prems r2 have "out = l # o2" "s = s2" by (auto simp: Let_def)
    with Cons.IH [OF r2] k show ?thesis by (auto split: if_splits)
  qed
qed simp

lemma heal_lines_fixpoint:
  assumes "list_all (\<lambda>l. \<not> global_upstream (trim_space l)) ls"
    and "length (filter (\<lambda>l. no_resolv (trim_space l)) ls) \<le> (if seen then 0 else 1)"
  shows "heal_lines ls seen = (ls, seen \<or> list_ex (\<lambda>l. no_resolv (trim_space l)) ls, False)"
  using assms
proof (induction ls arbitrary: seen)
  case (Cons l ls)
  from Cons.prems Cons.IH [of "seen \<or> no_resolv (trim_space l)"] show ?case
    by (auto simp: Let_def split: if_splits)
qed simp

lemma heal_lines_unchanged: "heal_lines ls seen = (out, s, False) \<Longrightarrow> out = ls"
  by (induction ls arbitrary: seen out s) (auto simp: Let_def split: if_splits prod.splits)

lemma healed_drop_cr [simp]: "healed (map drop_cr ls) = healed ls"
  by (simp add: healed_def list_all_iff filter_map o_def)

lemma healed_fixpoint: "healed ls \<Longrightarrow> heal_lines ls False = (ls, True, False)"
  using heal_lines_fixpoint [of ls False]
  by (auto simp: healed_def list_ex_iff filter_empty_conv length_Suc_conv filter_eq_Cons_iff)

lemma no_resolv_line_ok:
  "no_resolv (trim_space no_resolv_line)" "\<not> global_upstream (trim_space no_resolv_line)" "CHR 0x0A \<notin> set no_resolv_line"
  by code_simp+

lemma heal_dnsmasq_fixpoint:
  assumes "healed (raw_lines c)"
  shows "heal_dnsmasq c = (if list_all (\<lambda>l. length l < 65536) (raw_lines c) then Some None else None)"
proof (cases "snd (scan_lines c)")
  case True
  then show ?thesis
    by (cases "scan_lines c") (simp add: heal_dnsmasq_def Let_def flip: scan_lines_flag split: prod.splits)
next
  case False
  then show ?thesis
    using assms by (simp add: heal_dnsmasq_def scan_lines_short healed_fixpoint Let_def scan_lines_flag)
qed

lemma heal_dnsmasq_healed:
  assumes "heal_dnsmasq s = Some r"
  shows "healed (raw_lines (case r of None \<Rightarrow> s | Some out \<Rightarrow> out))"
proof -
  obtain ls tl where sc: "scan_lines s = (ls, tl)" by fastforce
  obtain out seen ch where h: "heal_lines ls False = (out, seen, ch)" by (metis prod_cases3)
  define new where "new = (if seen then out else out @ [no_resolv_line])"
  have tl: "\<not> tl" and r: "r = (if ch \<or> \<not> seen then Some (join nl new @ nl) else None)"
    using assms sc h by (auto simp: heal_dnsmasq_def new_def Let_def split: if_splits)
  have new: "healed new"
    using heal_lines_spec [OF h] no_resolv_line_ok by (auto simp: new_def healed_def)
  then have "new \<noteq> []" by (auto simp: healed_def)
  have "CHR 0x0A \<notin> set l" if "l \<in> set ls" for l
    using that scan_lines_newline_free [of l s] sc by simp
  then have "\<forall>l\<in>set new. CHR 0x0A \<notin> set l"
    using heal_lines_spec [OF h] no_resolv_line_ok(3) set_trim_space
    by (fastforce simp: new_def stripped_note_def split: if_splits)
  then have lines: "raw_lines (join nl new @ nl) = new" using \<open>new \<noteq> []\<close> by (rule raw_lines_join)
  show ?thesis
  proof (cases "ch \<or> \<not> seen")
    case True
    with new lines show ?thesis by (simp add: r)
  next
    case False
    have "ls = map drop_cr (raw_lines s)"
      using sc tl scan_lines_short [of s] by simp
    moreover have "new = ls" using False heal_lines_unchanged [of ls False out seen] h by (simp add: new_def)
    ultimately show ?thesis using new False by (simp add: r)
  qed
qed

text \<open>
  The repair of \<^verbatim>\<open>/etc/dnsmasq.conf\<close> reaches what it is for and then rests.  After it returns
  without an error the file has no global upstream line and exactly one \<^verbatim>\<open>no-resolv\<close> directive, and
  a further run changes nothing (unless a comment it wrote is over the scanner's line limit, which
  the run reports as an error and leaves the file alone).
\<close>

theorem heal_reaches_fixpoint:
  assumes "stripGlobalUpstreamsAndAddNoResolv no_faults p h = ((ch, None), h')"
  shows "\<exists>c. files h' p = Some c \<and> healed (raw_lines c) \<and>
     snd (stripGlobalUpstreamsAndAddNoResolv no_faults p h') = h' \<and>
     (list_all (\<lambda>l. length l < 65536) (raw_lines c) \<longrightarrow>
        fst (stripGlobalUpstreamsAndAddNoResolv no_faults p h') = (False, None))"
proof -
  from assms obtain s r where s: "files h p = Some s" and r: "heal_dnsmasq s = Some r"
    and f: "files h' p = Some (case r of None \<Rightarrow> s | Some out \<Rightarrow> out)"
    by (auto simp: stripGlobalUpstreamsAndAddNoResolv_def heal_file_def write_file_def no_faults_def
        split: option.splits)
  from heal_dnsmasq_healed [OF r] f show ?thesis
    by (auto simp: stripGlobalUpstreamsAndAddNoResolv_def heal_file_def heal_dnsmasq_fixpoint)
qed

theorem heal_reaches_fixpoint_witness:
  "\<exists>c. files (snd (stripGlobalUpstreamsAndAddNoResolv no_faults ''/f''
        ((new_host False)\<lparr>files := [''/f'' \<mapsto> ''server=1.1.1.1'' @ nl @ ''domain-needed'' @ nl]\<rparr>))) ''/f'' = Some c \<and>
     healed (raw_lines c)"
proof -
  let ?h = "(new_host False)\<lparr>files := [''/f'' \<mapsto> ''server=1.1.1.1'' @ nl @ ''domain-needed'' @ nl]\<rparr>"
  have l: "raw_lines (''server=1.1.1.1'' @ nl @ ''domain-needed'' @ nl) = [''server=1.1.1.1'', ''domain-needed'']"
    and heal: "heal_lines (map drop_cr [''server=1.1.1.1'', ''domain-needed'']) False =
      ([stripped_note @ ''server=1.1.1.1'', ''domain-needed''], False, True)"
    by code_simp+
  have "scan_lines (''server=1.1.1.1'' @ nl @ ''domain-needed'' @ nl) =
      (map drop_cr [''server=1.1.1.1'', ''domain-needed''], False)"
    by (subst scan_lines_short) (simp_all only: scan_lines_flag l, simp)
  then have "\<exists>out. heal_dnsmasq (''server=1.1.1.1'' @ nl @ ''domain-needed'' @ nl) = Some (Some out)"
    using heal by (simp only: heal_dnsmasq_def) (simp add: Let_def)
  then have "fst (stripGlobalUpstreamsAndAddNoResolv no_faults ''/f'' ?h) = (True, None)"
    by (auto simp: stripGlobalUpstreamsAndAddNoResolv_def heal_file_def write_file_def no_faults_def)
  then have "stripGlobalUpstreamsAndAddNoResolv no_faults ''/f'' ?h =
      ((True, None), snd (stripGlobalUpstreamsAndAddNoResolv no_faults ''/f'' ?h))" by (metis prod.collapse)
  from heal_reaches_fixpoint [OF this] show ?thesis by blast
qed

end
