(* ===== verification/Lock_Gate.thy ===== *)
theory Lock_Gate
  imports Models
begin

text \<open>
  \<^verbatim>\<open>internal/services/lockgate.go\<close>: the pure half of the lock-gated access point.  The protobuf
  library and the generated message types are third-party code, so the two decoders and the printed
  names of enum values are parameters, and a decoded message is the record of what the getters the
  code calls return.  Times and durations are nanoseconds; the zero \<^verbatim>\<open>time.Time\<close> is 0.
\<close>

definition seconds :: "int \<Rightarrow> time" where
  "seconds n = n * 1000000000"

definition ActivityLease :: time where
  "ActivityLease = seconds (3 * 60)"

subsection \<open>Frames\<close>

datatype SignalKind = SignalNone | SignalStatus | SignalActivity

record LockSignal =
  Kind :: SignalKind
  Locked :: bool
  Present :: bool

text \<open>Enum values of the generated code: the one the code compares with, and any other number.\<close>

datatype domain = DOMAIN_VEHICLE_SECURITY | domain_other int
datatype VehicleLockState = LOCKED | lock_state_other int
datatype UserPresence = NOT_PRESENT | presence_other int

record RoutableMessage =
  from_domain :: domain
  from_routing_address :: bytes
  to_domain :: domain
  request_uuid :: bytes
  signature_data :: "bool option"  \<comment> \<open>present, and whether it is AES-GCM response data\<close>
  protobuf_message_as_bytes :: bytes
  session_info :: bytes
  signed_message_status :: "int option"
  unknown_fields :: bytes

record VehicleStatus =
  vehicle_lock_state :: VehicleLockState
  user_presence :: UserPresence

record FromVCSECMessage =
  vehicle_status :: "VehicleStatus option"
  sub_message :: "string option"  \<comment> \<open>the type name of the sub-message that is set\<close>

record decoders =
  unmarshal_rm :: "bytes \<Rightarrow> RoutableMessage option"
  unmarshal_fv :: "bytes \<Rightarrow> FromVCSECMessage option"

definition inert :: LockSignal where
  "inert = \<lparr>Kind = SignalNone, Locked = False, Present = False\<rparr>"

definition DecodeLockSignal :: "decoders \<Rightarrow> bytes \<Rightarrow> LockSignal" where
  "DecodeLockSignal dec frame =
     (case unmarshal_rm dec frame of
        None \<Rightarrow> inert
      | Some rm \<Rightarrow>
          if from_domain rm \<noteq> DOMAIN_VEHICLE_SECURITY then inert
          else if length (request_uuid rm) > 0 then inert
          else if signature_data rm = Some True then inert
          else if length (protobuf_message_as_bytes rm) = 0 then inert
          else (case unmarshal_fv dec (protobuf_message_as_bytes rm) of
             None \<Rightarrow> inert
           | Some fv \<Rightarrow>
               (case vehicle_status fv of
                  None \<Rightarrow> \<lparr>Kind = SignalActivity, Locked = False, Present = False\<rparr>
                | Some vs \<Rightarrow> \<lparr>Kind = SignalStatus, Locked = (vehicle_lock_state vs = LOCKED),
                    Present = (user_presence vs \<noteq> NOT_PRESENT)\<rparr>)))"

record printers =
  show_domain :: "domain \<Rightarrow> string"
  show_operation :: "int \<Rightarrow> string"
  show_error :: "bytes \<Rightarrow> string"

definition DescribeFrame :: "printers \<Rightarrow> decoders \<Rightarrow> bytes \<Rightarrow> string" where
  "DescribeFrame pr dec frame =
     (if frame = [] then ''empty frame''
      else case unmarshal_rm dec frame of
        None \<Rightarrow> ''NOT a RoutableMessage: '' @ show_error pr frame @ '' (len='' @ nat_str (length frame) @
          '' head='' @ hex_encode (take 16 frame) @ '')''
      | Some rm \<Rightarrow> join '' '' (
          [''len='' @ nat_str (length frame), ''from_domain='' @ show_domain pr (from_domain rm)] @
          (if from_routing_address rm \<noteq> [] then [''from=routing_address(not a domain)''] else []) @
          [''to_domain='' @ show_domain pr (to_domain rm)] @
          (if request_uuid rm \<noteq> [] then [''request_uuid=SET(solicited)''] else []) @
          (case signature_data rm of
             None \<Rightarrow> []
           | Some True \<Rightarrow> [''SEALED(AES_GCM_Response)'']
           | Some False \<Rightarrow> [''signature_data=present'']) @
          (if protobuf_message_as_bytes rm \<noteq> [] then
             [''payload='' @ nat_str (length (protobuf_message_as_bytes rm)) @ ''B'',
              (case unmarshal_fv dec (protobuf_message_as_bytes rm) of
                 None \<Rightarrow> ''payload NOT a FromVCSECMessage''
               | Some fv \<Rightarrow> (case sub_message fv of
                     Some t \<Rightarrow> ''vcsec_submsg='' @ t
                   | None \<Rightarrow> ''FromVCSECMessage with NO sub_message''))]
           else if session_info rm \<noteq> [] then
             [''session_info='' @ nat_str (length (session_info rm)) @ ''B (handshake, not state)'']
           else (case signed_message_status rm of
             Some st \<Rightarrow> [''signed_message_status='' @ show_operation pr st]
           | None \<Rightarrow> [''no modelled payload'',
               (if unknown_fields rm \<noteq> [] then ''UNKNOWN_FIELDS('' @ nat_str (length (unknown_fields rm)) @
                  ''B)='' @ hex_encode (unknown_fields rm)
                else ''no unknown fields either; raw='' @ hex_encode frame)]))))"

subsection \<open>The verdict\<close>

record GateState =
  HaveStatus :: bool
  gLocked :: bool
  gPresent :: bool
  ActivityUntil :: time

definition zero_gate :: GateState where
  "zero_gate = \<lparr>HaveStatus = False, gLocked = False, gPresent = False, ActivityUntil = 0\<rparr>"

definition Apply_gate :: "LockSignal \<Rightarrow> time \<Rightarrow> GateState \<Rightarrow> GateState" where
  "Apply_gate sig now g =
     (case Kind sig of
        SignalStatus \<Rightarrow> g\<lparr>HaveStatus := True, gLocked := Locked sig, gPresent := Present sig\<rparr>
      | SignalActivity \<Rightarrow> g\<lparr>ActivityUntil := now + ActivityLease\<rparr>
      | SignalNone \<Rightarrow> g)"

definition APShouldBeUp :: "GateState \<Rightarrow> time \<Rightarrow> bool" where
  "APShouldBeUp g now =
     (if \<not> HaveStatus g then True
      else if now < ActivityUntil g then True
      else \<not> (gLocked g \<and> \<not> gPresent g))"

subsection \<open>The verdict of a history\<close>

text \<open>A history is the list of signals with their times, the oldest first.\<close>

type_synonym history = "(LockSignal \<times> time) list"

definition gate_of :: "history \<Rightarrow> GateState" where
  "gate_of h = fold (\<lambda>(sig, t). Apply_gate sig t) h zero_gate"

fun last_some :: "('a \<Rightarrow> 'b option) \<Rightarrow> 'a list \<Rightarrow> 'b option" where
  "last_some f [] = None"
| "last_some f (x # xs) = (case last_some f xs of None \<Rightarrow> f x | Some y \<Rightarrow> Some y)"

definition status_of :: "LockSignal \<times> time \<Rightarrow> (bool \<times> bool) option" where
  "status_of e = (if Kind (fst e) = SignalStatus then Some (Locked (fst e), Present (fst e)) else None)"

definition activity_of :: "LockSignal \<times> time \<Rightarrow> time option" where
  "activity_of e = (if Kind (fst e) = SignalActivity then Some (snd e) else None)"

lemma last_some_snoc [simp]:
  "last_some f (xs @ [x]) = (case f x of None \<Rightarrow> last_some f xs | Some y \<Rightarrow> Some y)"
  by (induction xs) (auto split: option.splits)

lemma gate_of_snoc [simp]: "gate_of (h @ [e]) = Apply_gate (fst e) (snd e) (gate_of h)"
  by (simp add: gate_of_def split: prod.splits)

lemma gate_of_status:
  "(if HaveStatus (gate_of h) then Some (gLocked (gate_of h), gPresent (gate_of h)) else None) =
     last_some status_of h"
proof (induction h rule: rev_induct)
  case (snoc e h)
  then show ?case
    by (cases "Kind (fst e)") (auto simp: Apply_gate_def status_of_def split: if_splits)
qed (simp add: gate_of_def zero_gate_def)

lemma gate_of_activity:
  "ActivityUntil (gate_of h) = (case last_some activity_of h of None \<Rightarrow> 0 | Some t \<Rightarrow> t + ActivityLease)"
proof (induction h rule: rev_induct)
  case (snoc e h)
  then show ?case by (cases "Kind (fst e)") (auto simp: Apply_gate_def activity_of_def)
qed (simp add: gate_of_def zero_gate_def)

subsection \<open>Properties\<close>

text \<open>
  C11: the access point is down in exactly one situation.  After any history of signals it is
  down at a time if and only if the last status said locked and nobody present, and no activity was
  seen in the lease before that time.
\<close>

theorem ap_down_iff:
  "0 \<le> now \<Longrightarrow> \<not> APShouldBeUp (gate_of h) now \<longleftrightarrow>
     last_some status_of h = Some (True, False) \<and>
     (\<forall>t. last_some activity_of h = Some t \<longrightarrow> t + ActivityLease \<le> now)"
  using gate_of_status [of h] gate_of_activity [of h]
  by (auto simp: APShouldBeUp_def split: if_splits option.splits)

theorem ap_down_iff_witness:
  "\<not> APShouldBeUp (gate_of [(\<lparr>Kind = SignalActivity, Locked = False, Present = False\<rparr>, seconds 10),
       (\<lparr>Kind = SignalStatus, Locked = True, Present = False\<rparr>, seconds 20)]) (seconds 190)"
  using ap_down_iff [of "seconds 190" "[(\<lparr>Kind = SignalActivity, Locked = False, Present = False\<rparr>, seconds 10),
       (\<lparr>Kind = SignalStatus, Locked = True, Present = False\<rparr>, seconds 20)]"]
  by (simp add: seconds_def status_of_def activity_of_def ActivityLease_def)

text \<open>
  Only a readable status the car sent about itself can take the access point down.  Appending
  any frame that is not a decodable status, or a status that does not say both locked and confirmed
  absent, never turns an up verdict at that moment into a down one; and a frame that cannot be read
  changes nothing at all.
\<close>

theorem decode_fails_open:
  assumes "0 \<le> now" "APShouldBeUp g now"
    and "\<not> APShouldBeUp (Apply_gate (DecodeLockSignal dec frame) now g) now"
  shows "\<exists>rm fv vs. unmarshal_rm dec frame = Some rm \<and> from_domain rm = DOMAIN_VEHICLE_SECURITY \<and>
     request_uuid rm = [] \<and> signature_data rm \<noteq> Some True \<and>
     unmarshal_fv dec (protobuf_message_as_bytes rm) = Some fv \<and> vehicle_status fv = Some vs \<and>
     vehicle_lock_state vs = LOCKED \<and> user_presence vs = NOT_PRESENT"
  using assms
  by (auto simp: DecodeLockSignal_def Apply_gate_def inert_def APShouldBeUp_def ActivityLease_def seconds_def
      split: option.splits if_splits)

definition example_dec :: decoders where
  "example_dec = \<lparr>unmarshal_rm = (\<lambda>f. Some \<lparr>from_domain = DOMAIN_VEHICLE_SECURITY, from_routing_address = [],
      to_domain = domain_other 0, request_uuid = [], signature_data = None, protobuf_message_as_bytes = f,
      session_info = [], signed_message_status = None, unknown_fields = []\<rparr>),
    unmarshal_fv = (\<lambda>p. Some \<lparr>vehicle_status = Some \<lparr>vehicle_lock_state = LOCKED,
      user_presence = NOT_PRESENT\<rparr>, sub_message = Some ''vehicleStatus''\<rparr>)\<rparr>"

theorem decode_fails_open_witness:
  "\<exists>vs rm fv. unmarshal_rm example_dec [1] = Some rm \<and> unmarshal_fv example_dec [1] = Some fv \<and>
     vehicle_status fv = Some vs \<and> user_presence vs = NOT_PRESENT"
  using decode_fails_open [of 5 zero_gate example_dec "[1]"]
  by (simp add: APShouldBeUp_def zero_gate_def Apply_gate_def DecodeLockSignal_def example_dec_def)

end
