(* ===== verification/Lock_Watch.thy ===== *)
theory Lock_Watch
  imports Lock_Gate "HOL-Library.Multiset"
begin

text \<open>
  \<^verbatim>\<open>internal/services/lockwatch.go\<close>: the concurrent half.  Every critical section of the code is one
  function on the watcher's state, the exported operations are their compositions, and the step
  relation \<open>watch_step\<close> interleaves the sections of any number of goroutines the way the two mutexes
  allow.  The state carries the calls the actuator received, in order.  An installed enforcer is
  represented by a number, so that replacing one is visible.
\<close>

definition defaultSettleTick :: time where
  "defaultSettleTick = seconds 30"

definition maxRetryBackoff :: time where
  "maxRetryBackoff = seconds (5 * 60)"

definition maxFramesDescribed :: int where
  "maxFramesDescribed = 8"

definition retryDelay :: time where
  "retryDelay = seconds 10"

record LockWatchService =
  lastWanted :: "bool option"
  gate :: GateState
  lastSignal :: time
  sessionID :: string
  enforcer :: "nat option"
  attachedSince :: time
  framesSeen :: int
  framesStatus :: int
  framesActivity :: int
  framesDescribed :: int
  sawStatus :: bool
  calls :: "(nat \<times> bool) list"

definition NewLockWatchService :: LockWatchService where
  "NewLockWatchService = \<lparr>lastWanted = None, gate = zero_gate, lastSignal = 0, sessionID = [], enforcer = None,
     attachedSince = 0, framesSeen = 0, framesStatus = 0, framesActivity = 0, framesDescribed = 0,
     sawStatus = False, calls = []\<rparr>"

subsection \<open>Critical sections\<close>

text \<open>Under \<^verbatim>\<open>mu\<close>.\<close>

definition install :: "nat option \<Rightarrow> LockWatchService \<Rightarrow> LockWatchService" where
  "install fn s = s\<lparr>enforcer := fn\<rparr>"

definition classify :: "LockSignal \<Rightarrow> LockWatchService \<Rightarrow> LockWatchService" where
  "classify sig s =
     (case Kind sig of
        SignalStatus \<Rightarrow> s\<lparr>framesStatus := framesStatus s + 1, sawStatus := True\<rparr>
      | SignalActivity \<Rightarrow> s\<lparr>framesActivity := framesActivity s + 1\<rparr>
      | SignalNone \<Rightarrow> if framesDescribed s < maxFramesDescribed
          then s\<lparr>framesDescribed := framesDescribed s + 1\<rparr> else s)"

definition fold_signal :: "LockSignal \<Rightarrow> time \<Rightarrow> LockWatchService \<Rightarrow> LockWatchService" where
  "fold_signal sig now s = s\<lparr>gate := Apply_gate sig now (gate s), lastSignal := now\<rparr>"

definition reset :: "LockWatchService \<Rightarrow> LockWatchService" where
  "reset s = s\<lparr>gate := zero_gate, sessionID := [], lastSignal := 0, attachedSince := 0, framesSeen := 0,
     framesStatus := 0, framesActivity := 0, framesDescribed := 0\<rparr>"

definition attach :: "string \<Rightarrow> time \<Rightarrow> LockWatchService \<Rightarrow> LockWatchService" where
  "attach i now s = s\<lparr>sessionID := i, attachedSince := now, framesSeen := 0, framesStatus := 0,
     framesActivity := 0, framesDescribed := 0\<rparr>"

definition count_frame :: "LockWatchService \<Rightarrow> LockWatchService" where
  "count_frame s = s\<lparr>framesSeen := framesSeen s + 1\<rparr>"

text \<open>Under \<^verbatim>\<open>applyMu\<close>: the decision reads the gate and the enforcer under \<^verbatim>\<open>mu\<close>, the application acts on it.\<close>

definition clear_wanted :: "LockWatchService \<Rightarrow> LockWatchService" where
  "clear_wanted s = s\<lparr>lastWanted := None\<rparr>"

definition decide :: "time \<Rightarrow> LockWatchService \<Rightarrow> bool \<times> nat option" where
  "decide now s = (APShouldBeUp (gate s) now, enforcer s)"

definition apply_verdict :: "bool \<times> nat option \<Rightarrow> LockWatchService \<Rightarrow> LockWatchService" where
  "apply_verdict v s =
     (if lastWanted s = Some (fst v) then s
      else s\<lparr>lastWanted := Some (fst v),
             calls := calls s @ (case snd v of None \<Rightarrow> [] | Some e \<Rightarrow> [(e, fst v)])\<rparr>)"

subsection \<open>Operations\<close>

definition settle :: "time \<Rightarrow> LockWatchService \<Rightarrow> LockWatchService" where
  "settle now s = apply_verdict (decide now s) s"

definition SetEnforcer :: "nat option \<Rightarrow> time \<Rightarrow> LockWatchService \<Rightarrow> LockWatchService" where
  "SetEnforcer fn now s = settle now (clear_wanted (install fn s))"

record LockWatchStatus =
  st_HaveStatus :: bool
  st_Locked :: bool
  st_Present :: bool
  st_APShouldBeUp :: bool
  st_LastSignal :: time
  st_SessionID :: string
  st_AttachedSince :: time
  st_FramesSeen :: int

definition Status :: "time \<Rightarrow> LockWatchService \<Rightarrow> LockWatchStatus" where
  "Status now s = \<lparr>st_HaveStatus = HaveStatus (gate s), st_Locked = gLocked (gate s),
     st_Present = gPresent (gate s), st_APShouldBeUp = APShouldBeUp (gate s) now,
     st_LastSignal = lastSignal s, st_SessionID = sessionID s, st_AttachedSince = attachedSince s,
     st_FramesSeen = framesSeen s\<rparr>"

definition Ingest :: "decoders \<Rightarrow> bytes \<Rightarrow> time \<Rightarrow> LockWatchService \<Rightarrow> LockWatchService" where
  "Ingest dec frame now s =
     (let sig = DecodeLockSignal dec frame; s = classify sig s in
      if Kind sig = SignalNone then s else settle now (fold_signal sig now s))"

definition ReportExternal :: "bool \<Rightarrow> bool \<Rightarrow> time \<Rightarrow> LockWatchService \<Rightarrow> LockWatchService" where
  "ReportExternal lk pr now s =
     settle now (fold_signal \<lparr>Kind = SignalStatus, Locked = lk, Present = pr\<rparr> now s)"

definition noteSessionLost :: "time \<Rightarrow> LockWatchService \<Rightarrow> LockWatchService" where
  "noteSessionLost now s = settle now (reset s)"

text \<open>\<^verbatim>\<open>resettleLoop\<close>: one settle for each tick of the timer, until the stop channel is closed.\<close>

definition resettleLoop :: "time list \<Rightarrow> LockWatchService \<Rightarrow> LockWatchService" where
  "resettleLoop ticks s = fold settle ticks s"

text \<open>
  What one call of \<^verbatim>\<open>attachAndPump\<close> meets: no live session, a subscription that fails, or a
  subscription that delivers frames until the channel is closed or the watcher is stopped, which
  leave by the same path.  The last time is that of the deferred \<^verbatim>\<open>noteSessionLost\<close>.
\<close>

datatype attach_env =
    NoSession time
  | SubscribeFails string time
  | Attached string time "(bytes \<times> time) list" time

fun attachAndPump :: "decoders \<Rightarrow> attach_env \<Rightarrow> LockWatchService \<Rightarrow> bool \<times> LockWatchService" where
  "attachAndPump dec (NoSession lost) s = (True, noteSessionLost lost s)"
| "attachAndPump dec (SubscribeFails i lost) s = (False, noteSessionLost lost s)"
| "attachAndPump dec (Attached i at frames lost) s =
     (True, noteSessionLost lost
        (fold (\<lambda>(f, t) s. Ingest dec f t (count_frame s)) frames (attach i at s)))"

definition next_delay :: "bool \<Rightarrow> time \<Rightarrow> time" where
  "next_delay ok delay =
     (if ok then retryDelay
      else let delay = delay * 2 in if delay > maxRetryBackoff then maxRetryBackoff else delay)"

text \<open>\<^verbatim>\<open>supervise\<close>: the waits it makes and the state it leaves, for the attempts made before the stop.\<close>

fun supervise :: "decoders \<Rightarrow> time \<Rightarrow> attach_env list \<Rightarrow> LockWatchService \<Rightarrow> time list \<times> LockWatchService" where
  "supervise dec delay [] s = ([], s)"
| "supervise dec delay (e # es) s =
     (case attachAndPump dec e s of (ok, s') \<Rightarrow>
        let delay' = next_delay ok delay;
            (ds, s'') = supervise dec delay' es s' in
        (delay' # ds, s''))"

subsection \<open>Interleaving\<close>

text \<open>
  A configuration is the shared state and where the goroutines are: \<open>pending\<close> holds the signals that
  an \<^verbatim>\<open>Ingest\<close> has counted and not yet folded, \<open>owed\<close> the times at which goroutines are about to call
  \<^verbatim>\<open>settle\<close>, \<open>clearing\<close> the number of \<^verbatim>\<open>SetEnforcer\<close> calls between their two sections, and
  \<open>inflight\<close> the decision of the settle that holds \<^verbatim>\<open>applyMu\<close>.  \<open>decided_at\<close> remembers the time
  argument of the latest decision.
\<close>

record watch_conf =
  svc :: LockWatchService
  pending :: "(LockSignal \<times> time) multiset"
  owed :: "time multiset"
  clearing :: nat
  inflight :: "(bool \<times> nat option) option"
  decided_at :: "time option"

definition initial_conf :: watch_conf where
  "initial_conf = \<lparr>svc = NewLockWatchService, pending = {#}, owed = {#}, clearing = 0, inflight = None,
     decided_at = None\<rparr>"

inductive watch_step :: "watch_conf \<Rightarrow> watch_conf \<Rightarrow> bool" where
  ws_classify: "watch_step c (c\<lparr>svc := classify sig (svc c),
      pending := if Kind sig = SignalNone then pending c else add_mset (sig, now) (pending c)\<rparr>)"
| ws_fold: "(sig, now) \<in># pending c \<Longrightarrow>
    watch_step c (c\<lparr>svc := fold_signal sig now (svc c), pending := pending c - {#(sig, now)#},
      owed := add_mset now (owed c)\<rparr>)"
| ws_report: "Kind sig = SignalStatus \<Longrightarrow>
    watch_step c (c\<lparr>svc := fold_signal sig now (svc c), owed := add_mset now (owed c)\<rparr>)"
| ws_lost: "watch_step c (c\<lparr>svc := reset (svc c), owed := add_mset now (owed c)\<rparr>)"
| ws_attach: "watch_step c (c\<lparr>svc := attach i now (svc c)\<rparr>)"
| ws_frame: "watch_step c (c\<lparr>svc := count_frame (svc c)\<rparr>)"
| ws_tick: "watch_step c (c\<lparr>owed := add_mset now (owed c)\<rparr>)"
| ws_install: "watch_step c (c\<lparr>svc := install fn (svc c), clearing := clearing c + 1\<rparr>)"
| ws_clear: "clearing c > 0 \<Longrightarrow> inflight c = None \<Longrightarrow>
    watch_step c (c\<lparr>svc := clear_wanted (svc c), clearing := clearing c - 1, owed := add_mset now (owed c)\<rparr>)"
| ws_decide: "now \<in># owed c \<Longrightarrow> inflight c = None \<Longrightarrow>
    watch_step c (c\<lparr>inflight := Some (decide now (svc c)), owed := owed c - {#now#}, decided_at := Some now\<rparr>)"
| ws_apply: "inflight c = Some v \<Longrightarrow>
    watch_step c (c\<lparr>svc := apply_verdict v (svc c), inflight := None\<rparr>)"

text \<open>
  The invariant.  With no \<^verbatim>\<open>SetEnforcer\<close> half done, the remembered verdict is the last thing the
  installed enforcer was told and a decision in flight is for that enforcer; with no settle owed,
  the decision in flight or else the remembered verdict is that of the gate as it is now.
\<close>

definition told :: "LockWatchService \<Rightarrow> bool" where
  "told s \<longleftrightarrow> (\<forall>v e. lastWanted s = Some v \<longrightarrow> enforcer s = Some e \<longrightarrow> calls s \<noteq> [] \<and> last (calls s) = (e, v))"

definition watch_inv :: "watch_conf \<Rightarrow> bool" where
  "watch_inv c \<longleftrightarrow>
     (clearing c = 0 \<longrightarrow> told (svc c) \<and> (\<forall>v fn. inflight c = Some (v, fn) \<longrightarrow> fn = enforcer (svc c))) \<and>
     (\<forall>t. owed c = {#} \<longrightarrow> decided_at c = Some t \<longrightarrow>
        (case inflight c of
           Some v \<Rightarrow> fst v = APShouldBeUp (gate (svc c)) t
         | None \<Rightarrow> lastWanted (svc c) = Some (APShouldBeUp (gate (svc c)) t)))"

lemmas section_defs = install_def classify_def fold_signal_def reset_def attach_def count_frame_def
  clear_wanted_def decide_def apply_verdict_def

lemma told_frame:
  "lastWanted s' = lastWanted s \<Longrightarrow> enforcer s' = enforcer s \<Longrightarrow> calls s' = calls s \<Longrightarrow> told s' = told s"
  by (simp add: told_def)

lemma told_simps [simp]:
  "told (classify sig s) = told s" "told (fold_signal sig now s) = told s" "told (reset s) = told s"
  "told (attach i now s) = told s" "told (count_frame s) = told s" "told (clear_wanted s)"
  by (simp_all add: told_def section_defs split: SignalKind.splits)

lemma told_apply: "told s \<Longrightarrow> fn = enforcer s \<Longrightarrow> told (apply_verdict (v, fn) s)"
  by (auto simp: told_def section_defs split: option.splits)

lemma apply_verdict_simps [simp]:
  "gate (apply_verdict v s) = gate s" "lastWanted (apply_verdict v s) = Some (fst v)"
  "enforcer (apply_verdict v s) = enforcer s"
  by (simp_all add: apply_verdict_def)

lemma watch_inv_initial: "watch_inv initial_conf"
  by (simp add: watch_inv_def initial_conf_def told_def NewLockWatchService_def)

lemma watch_inv_step: "watch_step c c' \<Longrightarrow> watch_inv c \<Longrightarrow> watch_inv c'"
proof (induction rule: watch_step.induct)
  case (ws_classify c sig now)
  have "gate (classify sig (svc c)) = gate (svc c)" "lastWanted (classify sig (svc c)) = lastWanted (svc c)"
    "enforcer (classify sig (svc c)) = enforcer (svc c)"
    by (simp_all add: classify_def split: SignalKind.splits)
  with ws_classify show ?case by (cases "inflight c") (auto simp: watch_inv_def)
next
  case (ws_apply c v)
  then show ?case
    by (cases v) (auto simp: watch_inv_def told_apply)
qed (auto simp: watch_inv_def section_defs told_def split: option.splits)

lemma watch_inv_reachable: "watch_step\<^sup>*\<^sup>* initial_conf c \<Longrightarrow> watch_inv c"
  by (induction rule: rtranclp_induct) (auto intro: watch_inv_initial watch_inv_step)

text \<open>
  C12: the actuator never ends up contradicting the gate.  Whatever the interleaving of frames,
  reports, lost sessions, timer ticks and replaced enforcers, once no settle is owed or running and
  no \<^verbatim>\<open>SetEnforcer\<close> is half done, the last call the installed enforcer received is the verdict of
  the gate as it is, at the time of the latest decision.
\<close>

theorem last_call_matches_gate:
  assumes "watch_step\<^sup>*\<^sup>* initial_conf c" "owed c = {#}" "inflight c = None" "clearing c = 0"
    and "decided_at c = Some t"
  shows "lastWanted (svc c) = Some (APShouldBeUp (gate (svc c)) t) \<and>
     (\<forall>e. enforcer (svc c) = Some e \<longrightarrow>
        calls (svc c) \<noteq> [] \<and> last (calls (svc c)) = (e, APShouldBeUp (gate (svc c)) t))"
  using watch_inv_reachable [OF assms(1)] assms(2-) by (auto simp: watch_inv_def told_def)

theorem last_call_matches_gate_witness:
  "\<exists>c. watch_step\<^sup>*\<^sup>* initial_conf c \<and> enforcer (svc c) = Some 1 \<and> last (calls (svc c)) = (1, True)"
proof -
  let ?c1 = "initial_conf\<lparr>svc := install (Some 1) (svc initial_conf), clearing := clearing initial_conf + 1\<rparr>"
  let ?c2 = "?c1\<lparr>svc := clear_wanted (svc ?c1), clearing := clearing ?c1 - 1, owed := add_mset 5 (owed ?c1)\<rparr>"
  let ?c3 = "?c2\<lparr>inflight := Some (decide 5 (svc ?c2)), owed := owed ?c2 - {#5#}, decided_at := Some 5\<rparr>"
  let ?c4 = "?c3\<lparr>svc := apply_verdict (decide 5 (svc ?c2)) (svc ?c3), inflight := None\<rparr>"
  have "watch_step initial_conf ?c1" by (rule ws_install)
  moreover have "watch_step ?c1 ?c2" by (rule ws_clear) (simp_all add: initial_conf_def)
  moreover have "watch_step ?c2 ?c3" by (rule ws_decide) (simp_all add: initial_conf_def)
  moreover have "watch_step ?c3 ?c4" by (rule ws_apply) simp
  ultimately have reach: "watch_step\<^sup>*\<^sup>* initial_conf ?c4" by (meson r_into_rtranclp rtranclp_trans)
  have e: "enforcer (svc ?c4) = Some 1" and g: "gate (svc ?c4) = zero_gate"
    by (simp_all add: section_defs initial_conf_def NewLockWatchService_def)
  have "last (calls (svc ?c4)) = (1, APShouldBeUp (gate (svc ?c4)) 5)"
    using last_call_matches_gate [OF reach, of 5] e by (simp add: initial_conf_def)
  then show ?thesis using reach e g by (intro exI [of _ ?c4]) (simp add: APShouldBeUp_def zero_gate_def)
qed

subsection \<open>The supervisor\<close>

definition failed :: "attach_env \<Rightarrow> bool" where
  "failed e = (case e of SubscribeFails _ _ \<Rightarrow> True | _ \<Rightarrow> False)"

definition failures_in_a_row :: "attach_env list \<Rightarrow> nat" where
  "failures_in_a_row es = length (takeWhile failed (rev es))"

lemma attach_ok: "fst (attachAndPump dec e s) = (\<not> failed e)"
  by (cases e) (auto simp: failed_def)

lemma supervise_snoc:
  "supervise dec delay (es @ [e]) s =
     (let (ds, s1) = supervise dec delay es s; (ok, s2) = attachAndPump dec e s1 in
      (ds @ [next_delay ok (if ds = [] then delay else last ds)], s2))"
proof (induction es arbitrary: delay s)
  case (Cons x es)
  then show ?case by (auto simp: Let_def split: prod.splits)
qed (auto simp: Let_def split: prod.splits)

lemma supervise_length: "length (fst (supervise dec delay es s)) = length es"
  by (induction es arbitrary: delay s) (auto simp: Let_def split: prod.splits, metis fst_conv)

lemma supervise_snoc_fst:
  "fst (supervise dec d (es @ [e]) s) = fst (supervise dec d es s) @
     [next_delay (\<not> failed e) (if es = [] then d else last (fst (supervise dec d es s)))]"
proof -
  obtain ds s1 where ds: "supervise dec d es s = (ds, s1)" by fastforce
  obtain ok s2 where ok: "attachAndPump dec e s1 = (ok, s2)" by fastforce
  have "ds = [] \<longleftrightarrow> es = []" using supervise_length [of dec d es s] ds by auto
  with ds ok attach_ok [of dec e s1] show ?thesis by (simp add: supervise_snoc)
qed

lemma next_delay_min:
  "next_delay False (min (retryDelay * 2 ^ k) maxRetryBackoff) = min (retryDelay * 2 ^ Suc k) maxRetryBackoff"
  by (auto simp: next_delay_def Let_def retryDelay_def maxRetryBackoff_def seconds_def)

lemma retryDelay_small: "min retryDelay maxRetryBackoff = retryDelay"
  by (simp add: retryDelay_def maxRetryBackoff_def seconds_def)

lemma supervise_delays:
  "fst (supervise dec retryDelay es s) =
     map (\<lambda>i. min (retryDelay * 2 ^ failures_in_a_row (take (Suc i) es)) maxRetryBackoff) [0..<length es]"
proof (induction es rule: rev_induct)
  case (snoc e es)
  let ?f = "\<lambda>es i. min (retryDelay * 2 ^ failures_in_a_row (take (Suc i) es)) maxRetryBackoff"
  have old: "map (?f (es @ [e])) [0..<length es] = map (?f es) [0..<length es]"
    by (rule map_cong) auto
  have last: "(if es = [] then retryDelay else last (fst (supervise dec retryDelay es s))) =
      min (retryDelay * 2 ^ failures_in_a_row es) maxRetryBackoff"
  proof (cases "es = []")
    case True
    then show ?thesis by (simp add: failures_in_a_row_def retryDelay_def maxRetryBackoff_def seconds_def)
  next
    case False
    then have "last [0..<length es] = length es - 1" by (simp add: last_upt)
    with False show ?thesis by (simp add: snoc last_map)
  qed
  have "fst (supervise dec retryDelay (es @ [e]) s) =
      fst (supervise dec retryDelay es s) @ [next_delay (\<not> failed e)
        (if es = [] then retryDelay else last (fst (supervise dec retryDelay es s)))]"
    by (rule supervise_snoc_fst)
  also have "next_delay (\<not> failed e)
        (if es = [] then retryDelay else last (fst (supervise dec retryDelay es s))) = ?f (es @ [e]) (length es)"
    unfolding last
    by (cases "failed e") (simp_all add: next_delay_min failures_in_a_row_def retryDelay_small, simp add: next_delay_def)
  also have "fst (supervise dec retryDelay es s) = map (?f es) [0..<length es]" by (rule snoc)
  finally show ?case by (simp add: old)
qed simp

lemma told_settle: "told s \<Longrightarrow> told (settle now s)"
  by (simp add: settle_def decide_def told_apply)

lemma settle_simps [simp]:
  "gate (settle now s) = gate s" "lastWanted (settle now s) = Some (APShouldBeUp (gate s) now)"
  "enforcer (settle now s) = enforcer s"
  by (simp_all add: settle_def decide_def)

lemma noteSessionLost_up:
  "gate (noteSessionLost now s) = zero_gate" "lastWanted (noteSessionLost now s) = Some True"
  "enforcer (noteSessionLost now s) = enforcer s" "told s \<Longrightarrow> told (noteSessionLost now s)"
  by (simp_all add: noteSessionLost_def told_settle) (simp_all add: reset_def APShouldBeUp_def zero_gate_def)

lemma Ingest_told: "told s \<Longrightarrow> told (Ingest dec f t s)"
  and Ingest_enforcer: "enforcer (Ingest dec f t s) = enforcer s"
  by (simp_all add: Ingest_def Let_def told_settle) (simp_all add: classify_def fold_signal_def split: SignalKind.splits)

lemma pump_told:
  "told s \<Longrightarrow> told (fold (\<lambda>(f, t) s. Ingest dec f t (count_frame s)) frames s)"
  "enforcer (fold (\<lambda>(f, t) s. Ingest dec f t (count_frame s)) frames s) = enforcer s"
  by (induction frames arbitrary: s) (auto simp: Ingest_told Ingest_enforcer, simp add: count_frame_def)

lemma attachAndPump_up:
  assumes "attachAndPump dec e s = (ok, s')" "told s"
  shows "gate s' = zero_gate \<and> lastWanted s' = Some True \<and> enforcer s' = enforcer s \<and> told s'"
  using assms by (cases e) (auto simp: noteSessionLost_up pump_told, simp add: attach_def)

lemma supervise_up:
  assumes "told s" "es \<noteq> []"
  shows "let s' = snd (supervise dec d es s) in
    gate s' = zero_gate \<and> lastWanted s' = Some True \<and> enforcer s' = enforcer s \<and> told s'"
  using assms
proof (induction es rule: rev_induct)
  case (snoc e es)
  obtain ds s1 where ds: "supervise dec d es s = (ds, s1)" by fastforce
  obtain ok s2 where ok: "attachAndPump dec e s1 = (ok, s2)" by fastforce
  have "told s1 \<and> enforcer s1 = enforcer s"
    using snoc ds by (cases "es = []") (auto simp: Let_def)
  with attachAndPump_up [OF ok] ds ok show ?case by (simp add: supervise_snoc Let_def)
qed simp

text \<open>
  The supervisor fails open and backs off.  Whatever sessions it met, after its last attempt the
  gate is empty and an installed enforcer was last told to bring the access point up; and the wait
  after each attempt is 10 s doubled for each failure in a row up to then, at most 5 minutes.
\<close>

theorem supervise_fails_open:
  assumes "supervise dec retryDelay es (SetEnforcer (Some e) t NewLockWatchService) = (ds, s')"
  shows "gate s' = zero_gate \<and> last (calls s') = (e, True) \<and>
    ds = map (\<lambda>i. min (seconds 10 * 2 ^ failures_in_a_row (take (Suc i) es)) (seconds 300)) [0..<length es]"
proof -
  let ?s = "SetEnforcer (Some e) t NewLockWatchService"
  have told: "told ?s" by (simp add: SetEnforcer_def told_settle)
  have s: "gate ?s = zero_gate" "lastWanted ?s = Some True" "enforcer ?s = Some e"
    by (simp_all add: SetEnforcer_def)
      (simp_all add: clear_wanted_def install_def NewLockWatchService_def APShouldBeUp_def zero_gate_def)
  have "gate s' = zero_gate \<and> lastWanted s' = Some True \<and> enforcer s' = Some e \<and> told s'"
    using supervise_up [OF told, of es dec retryDelay] assms s told by (cases "es = []") (auto simp: Let_def)
  moreover have "ds = map (\<lambda>i. min (seconds 10 * 2 ^ failures_in_a_row (take (Suc i) es)) (seconds 300)) [0..<length es]"
    using supervise_delays [of dec es ?s] assms by (simp add: retryDelay_def maxRetryBackoff_def)
  ultimately show ?thesis by (simp add: told_def)
qed

theorem supervise_fails_open_witness:
  "fst (supervise example_dec retryDelay [SubscribeFails ''a'' 1, Attached ''b'' 2 [([1], 3)] 4]
      (SetEnforcer (Some 7) 0 NewLockWatchService)) = [seconds 20, seconds 10]"
  using supervise_fails_open [of example_dec "[SubscribeFails ''a'' 1, Attached ''b'' 2 [([1], 3)] 4]" 7 0]
  by (cases "supervise example_dec retryDelay [SubscribeFails ''a'' 1, Attached ''b'' 2 [([1], 3)] 4]
      (SetEnforcer (Some 7) 0 NewLockWatchService)")
    (simp add: failures_in_a_row_def failed_def seconds_def)

subsection \<open>Start and Stop\<close>

text \<open>
  The two once-guards, the two workers, the goroutine that waits for them and the channels.  Closing
  a closed channel panics.
\<close>

record life =
  stop_used :: bool
  stop_closed :: bool
  start_used :: bool
  workers :: nat
  waiter :: bool
  done_closed :: bool
  panicked :: bool

definition new_life :: life where
  "new_life = \<lparr>stop_used = False, stop_closed = False, start_used = False, workers = 0, waiter = False,
     done_closed = False, panicked = False\<rparr>"

definition close_done :: "life \<Rightarrow> life" where
  "close_done l = l\<lparr>done_closed := True, panicked := panicked l \<or> done_closed l\<rparr>"

definition Start :: "life \<Rightarrow> life" where
  "Start l = (if start_used l then l else l\<lparr>start_used := True, workers := 2, waiter := True\<rparr>)"

definition Stop_signal :: "life \<Rightarrow> life" where
  "Stop_signal l = (if stop_used l then l
     else l\<lparr>stop_used := True, stop_closed := True, panicked := panicked l \<or> stop_closed l\<rparr>)"

definition Stop_claim :: "life \<Rightarrow> life" where
  "Stop_claim l = (if start_used l then l else (close_done l)\<lparr>start_used := True\<rparr>)"

inductive life_step :: "life \<Rightarrow> life \<Rightarrow> bool" where
  ls_start: "life_step l (Start l)"
| ls_stop: "life_step l (Stop_signal l)"
| ls_claim: "stop_used l \<Longrightarrow> life_step l (Stop_claim l)"
| ls_exit: "stop_closed l \<Longrightarrow> workers l > 0 \<Longrightarrow> life_step l (l\<lparr>workers := workers l - 1\<rparr>)"
| ls_done: "waiter l \<Longrightarrow> workers l = 0 \<Longrightarrow> life_step l ((close_done l)\<lparr>waiter := False\<rparr>)"

definition life_inv :: "life \<Rightarrow> bool" where
  "life_inv l \<longleftrightarrow> \<not> panicked l \<and> (stop_closed l \<longleftrightarrow> stop_used l) \<and> (waiter l \<longrightarrow> start_used l) \<and>
     (workers l > 0 \<longrightarrow> waiter l) \<and> (start_used l \<longrightarrow> done_closed l \<noteq> waiter l) \<and>
     (done_closed l \<longrightarrow> start_used l)"

lemma life_inv_reachable: "life_step\<^sup>*\<^sup>* new_life l \<Longrightarrow> life_inv l"
proof (induction rule: rtranclp_induct)
  case (step y z)
  from step(2,3) show ?case
    by (induction rule: life_step.induct)
      (auto simp: life_inv_def Start_def Stop_signal_def Stop_claim_def close_done_def)
qed (simp add: life_inv_def new_life_def)

text \<open>
  Any number of \<^verbatim>\<open>Start\<close> and \<^verbatim>\<open>Stop\<close> calls in any order close each channel once and launch the
  workers at most once, and a \<^verbatim>\<open>Stop\<close> that has passed both guards is never stuck: the channel it waits
  on is closed, or a worker is left that the stop signal ends, or the waiter is about to close it.
\<close>

theorem stop_never_stuck:
  assumes "life_step\<^sup>*\<^sup>* new_life l"
  shows "\<not> panicked l \<and> (stop_used l \<and> start_used l \<longrightarrow>
     done_closed l \<or> workers l > 0 \<and> life_step l (l\<lparr>workers := workers l - 1\<rparr>) \<or>
     workers l = 0 \<and> life_step l ((close_done l)\<lparr>waiter := False\<rparr>))"
proof -
  have inv: "life_inv l" using assms by (rule life_inv_reachable)
  show ?thesis
    using inv ls_exit [of l] ls_done [of l] by (cases "workers l = 0") (auto simp: life_inv_def)
qed

theorem stop_never_stuck_witness: "\<not> panicked (Stop_claim (Stop_signal (Start new_life)))"
proof -
  have "life_step\<^sup>*\<^sup>* new_life (Stop_signal (Start new_life))"
    using ls_start [of new_life] ls_stop [of "Start new_life"] by (meson r_into_rtranclp rtranclp_trans)
  moreover have "stop_used (Stop_signal (Start new_life))" by (simp add: Stop_signal_def)
  ultimately have "life_step\<^sup>*\<^sup>* new_life (Stop_claim (Stop_signal (Start new_life)))"
    by (blast intro: rtranclp.rtrancl_into_rtrancl ls_claim)
  from stop_never_stuck [OF this] show ?thesis by simp
qed

end
