(* ===== verification/Proto_Wire.thy ===== *)
theory Proto_Wire
  imports Go_Prelude
begin

text \<open>
  The wire-format walker of \<^verbatim>\<open>internal/services/tesla_session.go\<close>: \<^verbatim>\<open>readVarint\<close>, \<^verbatim>\<open>scanProtoField\<close> and
  the four extractors the frame router uses.  Lengths are 64-bit: \<^verbatim>\<open>int(ln)\<close> reinterprets the varint
  as a signed number and \<^verbatim>\<open>i+m+int(ln)\<close> wraps, so a position can move backwards.  A slice expression
  that is out of range is \<open>Panics\<close>, a loop that never leaves is \<open>None\<close> of the partial function.
\<close>

unbundle bit_operations_syntax

datatype scan_result = NoField | Field bytes | Panics

fun readVarint_loop :: "bytes \<Rightarrow> nat \<Rightarrow> 64 word \<Rightarrow> nat \<Rightarrow> 64 word \<times> nat" where
  "readVarint_loop [] i v shift = (0, 0)"
| "readVarint_loop (b # bs) i v shift =
     (let v = v OR push_bit shift (ucast (b AND 0x7F)) in
      if b AND 0x80 = 0 then (v, i + 1)
      else let shift = shift + 7 in
        if shift \<ge> 64 then (0, 0) else readVarint_loop bs (i + 1) v shift)"

definition readVarint :: "bytes \<Rightarrow> 64 word \<times> nat" where
  "readVarint buf = readVarint_loop buf 0 0 0"

definition wrap :: "int \<Rightarrow> int" where
  "wrap x = sint (word_of_int x :: 64 word)"

partial_function (option) scan_loop :: "bytes \<Rightarrow> int \<Rightarrow> int \<Rightarrow> int \<Rightarrow> scan_result option" where
  "scan_loop buf fieldNumber wireType i =
     (if \<not> i < int (length buf) then Some NoField
      else if i < 0 then Some Panics
      else case readVarint (drop (nat i) buf) of (tag, n) \<Rightarrow>
        if n = 0 then Some NoField
        else let i = i + int n; fn = sint (drop_bit 3 tag); wt = uint (tag AND 0x7) in
          if fn = fieldNumber \<and> wt = wireType \<and> wt = 2 then
            (case readVarint (drop (nat i) buf) of (ln, m) \<Rightarrow>
               let hi = wrap (i + int m + sint ln) in
               if m = 0 \<or> hi > int (length buf) then Some NoField
               else let i = i + int m in
                 if hi < i then Some Panics
                 else Some (Field (take (nat (hi - i)) (drop (nat i) buf))))
          else if wt = 0 then
            (case readVarint (drop (nat i) buf) of (_, m) \<Rightarrow>
               if m = 0 then Some NoField else scan_loop buf fieldNumber wireType (i + int m))
          else if wt = 1 then
            (if i + 8 > int (length buf) then Some NoField else scan_loop buf fieldNumber wireType (i + 8))
          else if wt = 2 then
            (case readVarint (drop (nat i) buf) of (ln, m) \<Rightarrow>
               let next = wrap (i + int m + sint ln) in
               if m = 0 \<or> next > int (length buf) then Some NoField
               else scan_loop buf fieldNumber wireType next)
          else if wt = 5 then
            (if i + 4 > int (length buf) then Some NoField else scan_loop buf fieldNumber wireType (i + 4))
          else Some NoField)"

definition scanProtoField :: "bytes \<Rightarrow> int \<Rightarrow> int \<Rightarrow> scan_result option" where
  "scanProtoField buf fieldNumber wireType = scan_loop buf fieldNumber wireType 0"

definition extractRoutableUUID :: "bytes \<Rightarrow> scan_result option" where
  "extractRoutableUUID buf = scanProtoField buf 51 2"

definition extractRoutableRequestUUID :: "bytes \<Rightarrow> scan_result option" where
  "extractRoutableRequestUUID buf = scanProtoField buf 50 2"

definition sub_field :: "int \<Rightarrow> bytes \<Rightarrow> scan_result option" where
  "sub_field outer buf =
     (case scanProtoField buf outer 2 of
        Some (Field msg) \<Rightarrow> scanProtoField msg 2 2
      | r \<Rightarrow> r)"

definition extractRoutableFromRoutingAddress :: "bytes \<Rightarrow> scan_result option" where
  "extractRoutableFromRoutingAddress buf = sub_field 7 buf"

definition extractRoutableToRoutingAddress :: "bytes \<Rightarrow> scan_result option" where
  "extractRoutableToRoutingAddress buf = sub_field 6 buf"

fun bytesEqual :: "bytes \<Rightarrow> bytes \<Rightarrow> bool" where
  "bytesEqual a b = (if length a \<noteq> length b then False else list_all2 (=) a b)"

lemma bytesEqual_iff [simp]: "bytesEqual a b \<longleftrightarrow> a = b"
  by (auto simp: list.rel_eq)

declare bytesEqual.simps [simp del]

subsection \<open>Encoding\<close>

text \<open>The encoder of the protobuf specification, for stating what the walker finds.\<close>

fun enc_varint :: "nat \<Rightarrow> bytes" where
  "enc_varint n = (if n < 128 then [of_nat n] else of_nat (n mod 128 + 128) # enc_varint (n div 128))"

declare enc_varint.simps [simp del]

datatype wire_value = VarintV nat | Fixed64 bytes | LenV bytes | Fixed32 bytes

fun wire_type :: "wire_value \<Rightarrow> nat" where
  "wire_type (VarintV _) = 0" | "wire_type (Fixed64 _) = 1" | "wire_type (LenV _) = 2" | "wire_type (Fixed32 _) = 5"

fun enc_value :: "wire_value \<Rightarrow> bytes" where
  "enc_value (VarintV n) = enc_varint n"
| "enc_value (Fixed64 bs) = bs"
| "enc_value (LenV bs) = enc_varint (length bs) @ bs"
| "enc_value (Fixed32 bs) = bs"

fun value_ok :: "wire_value \<Rightarrow> bool" where
  "value_ok (VarintV n) = (n < 2 ^ 63)"
| "value_ok (Fixed64 bs) = (length bs = 8)"
| "value_ok (LenV bs) = (length bs < 2 ^ 62)"
| "value_ok (Fixed32 bs) = (length bs = 4)"

type_synonym proto_field = "nat \<times> wire_value"

definition enc_field :: "proto_field \<Rightarrow> bytes" where
  "enc_field f = enc_varint (fst f * 8 + wire_type (snd f)) @ enc_value (snd f)"

definition enc_message :: "proto_field list \<Rightarrow> bytes" where
  "enc_message fs = concat (map enc_field fs)"

definition field_ok :: "proto_field \<Rightarrow> bool" where
  "field_ok f \<longleftrightarrow> 0 < fst f \<and> fst f < 2 ^ 29 \<and> value_ok (snd f)"

fun first_len :: "nat \<Rightarrow> proto_field list \<Rightarrow> scan_result" where
  "first_len k [] = NoField"
| "first_len k ((n, v) # fs) = (case v of LenV bs \<Rightarrow> if n = k then Field bs else first_len k fs | _ \<Rightarrow> first_len k fs)"

subsection \<open>Varints\<close>

lemma low_seven: "(b :: byte) AND 0x7F = take_bit 7 b"
  by (simp add: take_bit_eq_mask mask_eq_exp_minus_1)

lemma top_bit: "(b :: byte) AND 0x80 = 0 \<longleftrightarrow> \<not> bit b 7"
  using and_exp_eq_0_iff_not_bit [of b 7] by simp

lemma byte_low: "ucast ((of_nat n :: byte) AND 0x7F) = (of_nat (n mod 128) :: 64 word)"
proof -
  have "take_bit 7 (of_nat n :: byte) = of_nat (take_bit 7 n)"
    by (rule bit_word_eqI) (auto simp: bit_simps)
  then have "(of_nat n :: byte) AND 0x7F = of_nat (n mod 128)"
    unfolding low_seven by (simp only: take_bit_eq_mod [of 7 n]) simp
  moreover have "take_bit 8 (n mod 128) = n mod 128"
    by (rule take_bit_nat_eq_self) (rule less_trans [of _ 128], simp_all)
  ultimately show ?thesis by (simp add: unsigned_of_nat)
qed

lemma byte_top: "(of_nat n :: byte) AND 0x80 = 0 \<longleftrightarrow> even (n div 128)"
proof -
  have "bit (of_nat n :: byte) 7 = bit n 7" by (simp add: bit_simps)
  also have "\<dots> = odd (n div 128)" by (simp add: bit_iff_odd)
  finally show ?thesis by (simp add: top_bit)
qed

lemma varint_split:
  "push_bit s (of_nat (n mod 128)) OR push_bit (s + 7) (of_nat (n div 128)) = (push_bit s (of_nat n) :: 64 word)"
proof -
  have m: "n mod 128 = take_bit 7 n" "n div 128 = drop_bit 7 n" by (simp_all add: take_bit_eq_mod drop_bit_eq_div)
  show ?thesis
  proof (rule bit_word_eqI)
    fix k assume "k < LENGTH(64)"
    have "bit n (7 + (k - (s + 7))) = bit n (k - s)" if "\<not> k - s < 7"
      using that by (intro arg_cong [where f = "bit n"]) simp
    then show "bit (push_bit s (of_nat (n mod 128)) OR push_bit (s + 7) (of_nat (n div 128)) :: 64 word) k =
        bit (push_bit s (of_nat n) :: 64 word) k"
      by (cases "k - s < 7") (auto simp: m bit_simps)
  qed
qed

lemma enc_varint_not_Nil [simp]: "enc_varint n \<noteq> []"
  by (subst enc_varint.simps) auto

lemma readVarint_loop_enc:
  "shift < 64 \<Longrightarrow> n < 2 ^ (64 - shift) \<Longrightarrow>
     readVarint_loop (enc_varint n @ rest) i v shift =
       (v OR push_bit shift (of_nat n), i + length (enc_varint n))"
proof (induction n arbitrary: i v shift rule: enc_varint.induct)
  case (1 n)
  show ?case
  proof (cases "n < 128")
    case True
    then have "(of_nat n :: byte) AND 0x80 = 0" by (simp add: byte_top)
    with True show ?thesis by (simp add: enc_varint.simps [of n] byte_low)
  next
    case False
    have s: "shift + 7 < 64"
    proof (rule ccontr)
      assume "\<not> shift + 7 < 64"
      then have "(2::nat) ^ (64 - shift) \<le> 2 ^ 7" by (intro power_increasing) auto
      with 1(3) False show False by simp
    qed
    then have "(2::nat) ^ (64 - shift) = 128 * 2 ^ (64 - (shift + 7))"
      using power_add [of "2::nat" 7 "64 - (shift + 7)"] by simp
    with 1(3) have d: "n div 128 < 2 ^ (64 - (shift + 7))" by (simp add: less_mult_imp_div_less mult.commute)
    have t: "(of_nat (n mod 128 + 128) :: byte) AND 0x80 \<noteq> 0"
      unfolding byte_top by (subst div_add_self2) auto
    have l: "ucast ((of_nat (n mod 128 + 128) :: byte) AND 0x7F) = (of_nat (n mod 128) :: 64 word)"
      by (simp add: byte_low del: of_nat_add)
    have e: "enc_varint n = of_nat (n mod 128 + 128) # enc_varint (n div 128)"
      using False by (subst enc_varint.simps) (simp del: of_nat_add)
    show ?thesis
      using 1(1) [OF False s d, of "i + 1" "v OR push_bit shift (of_nat (n mod 128))"] s
      by (simp add: e t l Let_def or.assoc varint_split del: of_nat_add)
  qed
qed

lemma readVarint_enc:
  "n < 2 ^ 64 \<Longrightarrow> readVarint (enc_varint n @ rest) = (of_nat n, length (enc_varint n))"
  by (simp add: readVarint_def readVarint_loop_enc)

subsection \<open>Walking an encoded message\<close>

lemma sint_of_nat: "n < 2 ^ 63 \<Longrightarrow> sint (of_nat n :: 64 word) = int n"
  by (simp add: signed_of_nat signed_take_bit_int_eq_self)

lemma wrap_id: "- (2 ^ 63) \<le> x \<Longrightarrow> x < 2 ^ 63 \<Longrightarrow> wrap x = x"
  by (simp add: wrap_def signed_of_int signed_take_bit_int_eq_self)

lemma tag_number:
  assumes "n < 2 ^ 60" "w < 8"
  shows "sint (drop_bit 3 (of_nat (n * 8 + w) :: 64 word)) = int n"
proof -
  have "n * 8 + w < 2 ^ 64" using assms by simp
  then have "unat (of_nat (n * 8 + w) :: 64 word) = n * 8 + w"
    by (simp only: unat_of_nat) (simp add: take_bit_nat_eq_self)
  then have "unat (drop_bit 3 (of_nat (n * 8 + w) :: 64 word)) = n"
    using assms(2) by (simp only: unat_drop_bit_eq) (simp add: drop_bit_eq_div)
  then have "drop_bit 3 (of_nat (n * 8 + w) :: 64 word) = of_nat n" by (metis of_nat_unat ucast_id)
  moreover have "n < 2 ^ 63" using assms(1) by simp
  ultimately show ?thesis by (simp only: sint_of_nat)
qed

lemma tag_wire: "w < 8 \<Longrightarrow> uint ((of_nat (n * 8 + w) :: 64 word) AND 0x7) = int w"
proof -
  assume w: "w < 8"
  have "(of_nat (n * 8 + w) :: 64 word) AND 0x7 = take_bit 3 (of_nat (n * 8 + w))"
    by (simp add: take_bit_eq_mask mask_eq_exp_minus_1)
  also have "\<dots> = of_nat (take_bit 3 (n * 8 + w))"
    by (rule bit_word_eqI) (auto simp: bit_simps simp del: of_nat_add of_nat_mult)
  also have "take_bit 3 (n * 8 + w) = w" using w by (simp add: take_bit_eq_mod)
  finally show ?thesis using w by (simp add: unsigned_of_nat take_bit_nat_eq_self)
qed

lemma wire_type_less: "wire_type v < 8"
  by (cases v) auto

lemma scan_tag:
  assumes f: "field_ok f" and buf: "buf = pre @ enc_field f @ post"
  shows "readVarint (drop (nat (int (length pre))) buf) =
      (of_nat (fst f * 8 + wire_type (snd f)), length (enc_varint (fst f * 8 + wire_type (snd f))))"
proof -
  have "fst f * 8 + wire_type (snd f) < 2 ^ 64"
    using f wire_type_less [of "snd f"] by (simp add: field_ok_def)
  then show ?thesis unfolding buf enc_field_def by (simp add: readVarint_enc)
qed

definition after_tag :: "bytes \<Rightarrow> int \<Rightarrow> int \<Rightarrow> int \<Rightarrow> int \<Rightarrow> int \<Rightarrow> scan_result option" where
  "after_tag buf k w fn wt j =
     (if fn = k \<and> wt = w \<and> wt = 2 then
        (case readVarint (drop (nat j) buf) of (ln, m) \<Rightarrow>
           if m = 0 \<or> wrap (j + int m + sint ln) > int (length buf) then Some NoField
           else if wrap (j + int m + sint ln) < j + int m then Some Panics
           else Some (Field (take (nat (wrap (j + int m + sint ln) - (j + int m))) (drop (nat (j + int m)) buf))))
      else if wt = 0 then
        (case readVarint (drop (nat j) buf) of (_, m) \<Rightarrow>
           if m = 0 then Some NoField else scan_loop buf k w (j + int m))
      else if wt = 1 then (if j + 8 > int (length buf) then Some NoField else scan_loop buf k w (j + 8))
      else if wt = 2 then
        (case readVarint (drop (nat j) buf) of (ln, m) \<Rightarrow>
           if m = 0 \<or> wrap (j + int m + sint ln) > int (length buf) then Some NoField
           else scan_loop buf k w (wrap (j + int m + sint ln)))
      else if wt = 5 then (if j + 4 > int (length buf) then Some NoField else scan_loop buf k w (j + 4))
      else Some NoField)"

lemma scan_step:
  assumes "0 \<le> i" "i < int (length buf)" "readVarint (drop (nat i) buf) = (tag, n)" "n \<noteq> 0"
  shows "scan_loop buf k w i = after_tag buf k w (sint (drop_bit 3 tag)) (uint (tag AND 0x7)) (i + int n)"
  using assms by (subst scan_loop.simps) (simp add: after_tag_def Let_def split: prod.splits)

lemma scan_field:
  assumes f: "field_ok (n, v)" and buf: "buf = pre @ enc_field (n, v) @ post" and len: "length buf < 2 ^ 62"
  shows "scan_loop buf (int k) 2 (int (length pre)) =
     (case v of LenV bs \<Rightarrow> if n = k then Some (Field bs)
        else scan_loop buf (int k) 2 (int (length (pre @ enc_field (n, v))))
      | _ \<Rightarrow> scan_loop buf (int k) 2 (int (length (pre @ enc_field (n, v)))))"
proof -
  let ?tag = "enc_varint (n * 8 + wire_type v)"
  define j where "j = int (length pre) + int (length ?tag)"
  have n: "n < 2 ^ 60" "value_ok v" using f by (simp_all add: field_ok_def)
  have fn: "sint (drop_bit 3 (of_nat (n * 8 + wire_type v) :: 64 word)) = int n"
    and wt: "uint ((of_nat (n * 8 + wire_type v) :: 64 word) AND 0x7) = int (wire_type v)"
    using tag_number [OF n(1) wire_type_less] tag_wire [OF wire_type_less] by blast+
  have "0 < length ?tag" by (simp only: length_greater_0_conv enc_varint_not_Nil not_False_eq_True)
  then have lt: "int (length pre) < int (length buf)" and ne: "length ?tag \<noteq> 0"
    unfolding buf enc_field_def by (simp_all del: length_greater_0_conv)
  have step: "scan_loop buf (int k) 2 (int (length pre)) = after_tag buf (int k) 2 (int n) (int (wire_type v)) j"
    using scan_step [OF _ lt scan_tag [OF f buf], of "int k" 2] ne fn wt by (simp add: j_def)
  have rest: "drop (nat j) buf = enc_value v @ post" and blen: "int (length buf) = j + int (length (enc_value v @ post))"
    by (simp_all add: buf enc_field_def nat_add_distrib j_def)
  have next_i: "int (length (pre @ enc_field (n, v))) = j + int (length (enc_value v))"
    by (simp add: enc_field_def j_def)
  have j0: "0 \<le> j" by (simp add: j_def)
  show ?thesis
  proof (cases v)
    case (LenV bs)
    let ?m = "length (enc_varint (length bs))"
    have vi: "readVarint (drop (nat j) buf) = (of_nat (length bs), ?m)"
      using n(2) LenV rest by (simp add: readVarint_enc)
    have si: "sint (of_nat (length bs) :: 64 word) = int (length bs)"
      using LenV n(2) by (intro sint_of_nat) simp
    have w: "wrap (j + int ?m + int (length bs)) = j + int ?m + int (length bs)"
      using len LenV blen j0 by (intro wrap_id) simp_all
    have "drop (nat (j + int ?m)) buf = drop ?m (drop (nat j) buf)" using j0 by (simp add: nat_add_distrib add.commute)
    then have tk: "take (length bs) (drop (nat (j + int ?m)) buf) = bs" unfolding rest using LenV by simp
    show ?thesis
      unfolding step next_i using LenV blen vi tk by (simp add: after_tag_def si w [unfolded add.assoc] add.assoc)
  qed (unfold step next_i, use n(2) blen rest in \<open>simp_all add: after_tag_def readVarint_enc\<close>)
qed

lemma scan_fields:
  assumes "list_all field_ok fs" "length buf < 2 ^ 62" "buf = pre @ enc_message fs"
  shows "scan_loop buf (int k) 2 (int (length pre)) = Some (first_len k fs)"
  using assms
proof (induction fs arbitrary: pre)
  case Nil
  then show ?case by (subst scan_loop.simps) (simp add: enc_message_def)
next
  case (Cons f fs)
  obtain n v where f: "f = (n, v)" by fastforce
  have IH: "scan_loop buf (int k) 2 (int (length (pre @ enc_field (n, v)))) = Some (first_len k fs)"
    using Cons by (intro Cons.IH) (simp_all add: enc_message_def f)
  have "scan_loop buf (int k) 2 (int (length pre)) =
     (case v of LenV bs \<Rightarrow> if n = k then Some (Field bs)
        else scan_loop buf (int k) 2 (int (length (pre @ enc_field (n, v))))
      | _ \<Rightarrow> scan_loop buf (int k) 2 (int (length (pre @ enc_field (n, v)))))"
    using Cons.prems f by (intro scan_field [of n v buf pre "enc_message fs"]) (simp_all add: enc_message_def)
  then show ?case unfolding IH by (simp add: f split: wire_value.splits)
qed

subsection \<open>Properties\<close>



definition looping_frame :: bytes where
  "looping_frame = [0x7A, 0xF5, 0xFF, 0xFF, 0xFF, 0xFF, 0xFF, 0xFF, 0xFF, 0xFF, 0x01, 0x00]"

lemma looping_frame_reads:
  "readVarint (drop 0 looping_frame) = (0x7A, 1)" "readVarint (drop 1 looping_frame) = (0xFFFFFFFFFFFFFFF5, 10)"
  by (simp_all add: readVarint_def looping_frame_def)

lemma looping_frame_numbers:
  "sint (drop_bit 3 (0x7A :: 64 word)) = 15" "uint ((0x7A :: 64 word) AND 0x7) = 2"
  "sint (0xFFFFFFFFFFFFFFF5 :: 64 word) = - 11" "wrap 0 = 0"
  by (code_simp+)

lemma looping_frame_hangs:
  assumes "scan_loop buf k w i = Some r"
  shows "buf = looping_frame \<and> w = 2 \<and> i = 0 \<longrightarrow> k = 15"
proof (rule scan_loop.raw_induct [where P = "\<lambda>buf k w i r. buf = looping_frame \<and> w = 2 \<and> i = 0 \<longrightarrow> k = 15",
      OF _ assms], goal_cases)
  case (1 rec buf k w i y)
  have len: "length looping_frame = 12" by (simp add: looping_frame_def)
  show ?case
  proof (rule impI)
    assume eq: "buf = looping_frame \<and> w = 2 \<and> i = 0"
    show "k = 15"
    proof (rule ccontr)
      assume "k \<noteq> 15"
      with 1(2) eq have "rec looping_frame k 2 0 = Some y"
        using looping_frame_reads by (simp add: Let_def len looping_frame_numbers)
      from 1(1) [OF this] \<open>k \<noteq> 15\<close> show False by simp
    qed
  qed
qed

lemma readVarint_loop_bound: "snd (readVarint_loop bs i v s) \<le> i + length bs"
  by (induction bs i v s rule: readVarint_loop.induct) (auto simp: Let_def)

lemma readVarint_bound: "readVarint bs = (x, n) \<Longrightarrow> n \<le> length bs"
  using readVarint_loop_bound [of bs 0 0 0] by (simp add: readVarint_def)

text \<open>
  C14: a length of 64 bits with the top bit set is read as negative, and the walker can move
  backwards with it.  On this 12-byte frame (field 15, length \<open>2^64 - 11\<close>) the position after the field
  is the first one again, so the call never returns, whichever other field is looked for; looking
  for field 15 itself is a slice out of range.
\<close>

theorem scan_can_hang: "scanProtoField looping_frame k 2 = (if k = 15 then Some Panics else None)"
proof (cases "k = 15")
  case True
  have len: "length looping_frame = 12" by (simp add: looping_frame_def)
  have "scan_loop looping_frame 15 2 0 = after_tag looping_frame 15 2 15 2 1"
    using scan_step [of 0 looping_frame "0x7A" 1 15 2] looping_frame_reads(1) len looping_frame_numbers by simp
  also have "\<dots> = Some Panics"
    using looping_frame_reads(2) by (simp add: after_tag_def len looping_frame_numbers)
  finally show ?thesis using True by (simp add: scanProtoField_def)
next
  case False
  then have "scan_loop looping_frame k 2 0 \<noteq> Some r" for r using looping_frame_hangs by blast
  then have "scan_loop looping_frame k 2 0 = None" by (cases "scan_loop looping_frame k 2 0") auto
  then show ?thesis using False by (simp add: scanProtoField_def)
qed

definition small_varints :: "bytes \<Rightarrow> bool" where
  "small_varints buf \<longleftrightarrow> (\<forall>j \<le> length buf. unat (fst (readVarint (drop j buf))) < 2 ^ 62)"

lemma sint_small: "unat (x :: 64 word) < 2 ^ 62 \<Longrightarrow> sint x = int (unat x)"
  using sint_of_nat [of "unat x"] by simp

lemma after_tag_total:
  assumes small: "small_varints buf" and len: "length buf < 2 ^ 62" and j: "0 < j" "j \<le> int (length buf)"
    and rec: "\<And>i. j \<le> i \<Longrightarrow> \<exists>r. scan_loop buf k w i = Some r \<and> r \<noteq> Panics"
  shows "\<exists>r. after_tag buf k w fn wt j = Some r \<and> r \<noteq> Panics"
proof -
  obtain ln m where r: "readVarint (drop (nat j) buf) = (ln, m)" by fastforce
  have ln: "sint ln = int (unat ln)" "unat ln < 2 ^ 62"
    using small r j sint_small [of ln] unfolding small_varints_def by (metis fst_conv nat_le_iff)+
  define u where "u = int (unat ln)"
  have u: "0 \<le> u" "u < 2 ^ 62" using ln(2) by (simp_all add: u_def del: of_nat_unat int_nat_eq flip: of_nat_less_iff)
  have "m \<le> length buf - nat j" using readVarint_bound [OF r] by simp
  then have "j + int m \<le> int (length buf)" using j by simp
  then have w: "wrap (j + int m + u) = j + int m + u" using u len j by (intro wrap_id) simp_all
  show ?thesis
    using rec [of "j + int m"] rec [of "j + 8"] rec [of "j + 4"] rec [of "j + int m + u"] u(1)
    by (auto simp: after_tag_def r ln(1) w simp flip: u_def simp del: of_nat_unat)
qed

lemma scan_loop_total:
  assumes small: "small_varints buf" and len: "length buf < 2 ^ 62"
  shows "0 \<le> i \<Longrightarrow> \<exists>r. scan_loop buf k w i = Some r \<and> r \<noteq> Panics"
proof (induction "nat (int (length buf) - i)" arbitrary: i rule: less_induct)
  case less
  show ?case
  proof (cases "i < int (length buf)")
    case False
    then show ?thesis by (subst scan_loop.simps) simp
  next
    case True
    obtain tag n where r: "readVarint (drop (nat i) buf) = (tag, n)" by fastforce
    show ?thesis
    proof (cases "n = 0")
      case True
      with r \<open>i < int (length buf)\<close> less.prems show ?thesis by (subst scan_loop.simps) simp
    next
      case False
      have "n \<le> length buf - nat i" using readVarint_bound [OF r] by simp
      then have j: "0 < i + int n" "i + int n \<le> int (length buf)" using False less.prems True by auto
      have "\<exists>r. scan_loop buf k w i' = Some r \<and> r \<noteq> Panics" if "i + int n \<le> i'" for i'
        using that False less.prems True by (intro less.hyps) auto
      then show ?thesis
        unfolding scan_step [OF less.prems True r False] by (rule after_tag_total [OF small len j])
    qed
  qed
qed



end
