(* ===== verification/BLE_Session.thy ===== *)
theory BLE_Session
  imports Proto_Wire Models
begin

text \<open>
  \<^verbatim>\<open>internal/services/tesla_session.go\<close>, one open session: the waiters of \<^verbatim>\<open>Exchange\<close> calls, the
  unsolicited subscribers and the pump that routes frames between them.  Channels are cells of a
  store; sending on a closed channel and closing one twice panic, which sets \<open>crashed\<close>.  The identity
  of a waiter (a pointer in the source) is its channel, which is fresh for each.
\<close>

record chan =
  ch_buf :: "bytes list"
  ch_cap :: nat
  ch_open :: bool

record frameWaiter =
  wantAddr :: bytes
  wantUUID :: bytes
  deliver :: nat

record internalSession =
  s_id :: string
  s_vin :: string
  s_owner :: int
  s_createdAt :: time
  s_lastUsed :: time
  s_stop :: bool
  waiters :: "frameWaiter list"
  subs :: "(nat \<times> nat) list"
  subSeq :: nat
  closed :: bool
  chans :: "chan list"
  crashed :: bool

definition newInternalSession :: "string \<Rightarrow> string \<Rightarrow> time \<Rightarrow> internalSession" where
  "newInternalSession i vin now = \<lparr>s_id = i, s_vin = vin, s_owner = 0, s_createdAt = now, s_lastUsed = now,
     s_stop = False, waiters = [], subs = [], subSeq = 0, closed = False, chans = [], crashed = False\<rparr>"

subsection \<open>Channels\<close>

definition new_chan :: "nat \<Rightarrow> internalSession \<Rightarrow> nat \<times> internalSession" where
  "new_chan cap s = (length (chans s), s\<lparr>chans := chans s @ [\<lparr>ch_buf = [], ch_cap = cap, ch_open = True\<rparr>]\<rparr>)"

definition try_send :: "bytes \<Rightarrow> nat \<Rightarrow> internalSession \<Rightarrow> internalSession" where
  "try_send f c s =
     (let ch = chans s ! c in
      if \<not> ch_open ch then s\<lparr>crashed := True\<rparr>
      else if length (ch_buf ch) < ch_cap ch then s\<lparr>chans := (chans s)[c := ch\<lparr>ch_buf := ch_buf ch @ [f]\<rparr>]\<rparr>
      else s)"

definition close_chan :: "nat \<Rightarrow> internalSession \<Rightarrow> internalSession" where
  "close_chan c s =
     (let ch = chans s ! c in
      if \<not> ch_open ch then s\<lparr>crashed := True\<rparr> else s\<lparr>chans := (chans s)[c := ch\<lparr>ch_open := False\<rparr>]\<rparr>)"

subsection \<open>Waiters and subscribers\<close>

definition registerWaiter :: "bytes \<Rightarrow> bytes \<Rightarrow> internalSession \<Rightarrow> frameWaiter option \<times> internalSession" where
  "registerWaiter addr uuid s =
     (if closed s then (None, s)
      else let (c, s) = new_chan 1 s; w = \<lparr>wantAddr = addr, wantUUID = uuid, deliver = c\<rparr> in
        (Some w, s\<lparr>waiters := waiters s @ [w]\<rparr>))"

fun remove_waiter :: "nat \<Rightarrow> frameWaiter list \<Rightarrow> frameWaiter list" where
  "remove_waiter c [] = []"
| "remove_waiter c (w # ws) = (if deliver w = c then ws else w # remove_waiter c ws)"

definition unregisterWaiter :: "nat \<Rightarrow> internalSession \<Rightarrow> internalSession" where
  "unregisterWaiter c s = s\<lparr>waiters := remove_waiter c (waiters s)\<rparr>"

definition subscribe :: "internalSession \<Rightarrow> (nat \<times> nat) \<times> internalSession" where
  "subscribe s =
     (let i = subSeq s; (c, s) = new_chan 8 (s\<lparr>subSeq := subSeq s + 1\<rparr>) in
      if closed s then ((i, c), close_chan c s)
      else ((i, c), s\<lparr>subs := subs s @ [(i, c)]\<rparr>))"

definition unsubscribe :: "nat \<Rightarrow> internalSession \<Rightarrow> internalSession" where
  "unsubscribe i s =
     (case map_of (subs s) i of
        None \<Rightarrow> s
      | Some c \<Rightarrow> close_chan c (s\<lparr>subs := filter (\<lambda>p. fst p \<noteq> i) (subs s)\<rparr>))"

definition stopPump :: "internalSession \<Rightarrow> internalSession" where
  "stopPump s = s\<lparr>s_stop := True\<rparr>"

definition shutdownPump :: "internalSession \<Rightarrow> internalSession" where
  "shutdownPump s =
     (let s1 = fold (\<lambda>w. close_chan (deliver w)) (waiters s) (s\<lparr>closed := True\<rparr>);
          s2 = fold (\<lambda>p. close_chan (snd p)) (subs s) (s1\<lparr>waiters := []\<rparr>) in
      s2\<lparr>subs := []\<rparr>)"

subsection \<open>Routing\<close>

definition wants :: "bytes \<Rightarrow> bytes \<Rightarrow> frameWaiter \<Rightarrow> bool" where
  "wants gotAddr gotUUID w \<longleftrightarrow>
     (length (wantAddr w) \<noteq> 0 \<and> bytesEqual gotAddr (wantAddr w)) \<or>
     (length (wantUUID w) \<noteq> 0 \<and> bytesEqual gotUUID (wantUUID w)) \<or>
     (length (wantAddr w) = 0 \<and> length (wantUUID w) = 0)"

definition route :: "bytes \<Rightarrow> bytes \<Rightarrow> bytes \<Rightarrow> internalSession \<Rightarrow> internalSession" where
  "route gotAddr gotUUID frame s =
     (case find (wants gotAddr gotUUID) (waiters s) of
        None \<Rightarrow> fold (\<lambda>p. try_send frame (snd p)) (subs s) s
      | Some w \<Rightarrow> try_send frame (deliver w) (unregisterWaiter (deliver w) s))"

datatype 'a outcome = Returns 'a | Crashes | Hangs

fun bytes_of :: "scan_result option \<Rightarrow> bytes outcome" where
  "bytes_of None = Hangs"
| "bytes_of (Some Panics) = Crashes"
| "bytes_of (Some NoField) = Returns []"
| "bytes_of (Some (Field b)) = Returns b"

fun bind_outcome :: "'a outcome \<Rightarrow> ('a \<Rightarrow> 'b outcome) \<Rightarrow> 'b outcome" where
  "bind_outcome (Returns x) f = f x"
| "bind_outcome Crashes f = Crashes"
| "bind_outcome Hangs f = Hangs"

definition routeFrame :: "bytes \<Rightarrow> internalSession \<Rightarrow> internalSession outcome" where
  "routeFrame frame s =
     bind_outcome (bytes_of (extractRoutableToRoutingAddress frame)) (\<lambda>gotAddr.
       bind_outcome (bytes_of (extractRoutableRequestUUID frame)) (\<lambda>gotUUID.
         Returns (route gotAddr gotUUID frame s)))"

text \<open>
  What the pump's \<^verbatim>\<open>select\<close> takes next: a frame, the closed receive channel or the closed stop
  channel.  The list ends where the pump is still waiting; the flag says that it returned.
\<close>

datatype pump_event = Receive bytes | ReceiveClosed | StopClosed

fun runPump :: "pump_event list \<Rightarrow> internalSession \<Rightarrow> (internalSession \<times> bool) outcome" where
  "runPump [] s = Returns (s, False)"
| "runPump (Receive f # es) s = bind_outcome (routeFrame f s) (runPump es)"
| "runPump (ReceiveClosed # es) s = Returns (shutdownPump s, True)"
| "runPump (StopClosed # es) s = Returns (shutdownPump s, True)"

subsection \<open>Invariant\<close>

definition session_ok :: "internalSession \<Rightarrow> bool" where
  "session_ok s \<longleftrightarrow>
     \<not> crashed s \<and>
     distinct (map deliver (waiters s) @ map snd (subs s)) \<and>
     (\<forall>w\<in>set (waiters s). deliver w < length (chans s) \<and>
        chans s ! deliver w = \<lparr>ch_buf = [], ch_cap = 1, ch_open = True\<rparr>) \<and>
     (\<forall>p\<in>set (subs s). snd p < length (chans s) \<and> fst p < subSeq s \<and>
        ch_open (chans s ! snd p) \<and> ch_cap (chans s ! snd p) = 8) \<and>
     distinct (map fst (subs s)) \<and>
     (closed s \<longrightarrow> waiters s = [] \<and> subs s = [])"

text \<open>A consumer takes the first frame out of a channel.\<close>

definition take_frame :: "nat \<Rightarrow> internalSession \<Rightarrow> internalSession" where
  "take_frame c s = s\<lparr>chans := (chans s)[c := (chans s ! c)\<lparr>ch_buf := tl (ch_buf (chans s ! c))\<rparr>]\<rparr>"

inductive session_step :: "internalSession \<Rightarrow> internalSession \<Rightarrow> bool" where
  ss_register: "session_step s (snd (registerWaiter a u s))"
| ss_unregister: "session_step s (unregisterWaiter c s)"
| ss_subscribe: "session_step s (snd (subscribe s))"
| ss_unsubscribe: "session_step s (unsubscribe i s)"
| ss_route: "\<not> closed s \<Longrightarrow> routeFrame f s = Returns s' \<Longrightarrow> session_step s s'"
| ss_shutdown: "\<not> closed s \<Longrightarrow> session_step s (shutdownPump s)"
| ss_stop: "session_step s (stopPump s)"
| ss_take: "c < length (chans s) \<Longrightarrow> session_step s (take_frame c s)"

lemma close_all:
  assumes "distinct cs" "\<forall>c\<in>set cs. c < length (chans s) \<and> ch_open (chans s ! c)"
  shows "fold close_chan cs s =
     s\<lparr>chans := map (\<lambda>c. if c \<in> set cs then (chans s ! c)\<lparr>ch_open := False\<rparr> else chans s ! c) [0..<length (chans s)]\<rparr>"
  using assms
proof (induction cs arbitrary: s)
  case Nil
  then show ?case by (simp add: map_nth)
next
  case (Cons c cs)
  let ?s = "close_chan c s"
  have s1: "?s = s\<lparr>chans := (chans s)[c := (chans s ! c)\<lparr>ch_open := False\<rparr>]\<rparr>"
    using Cons.prems by (simp add: close_chan_def Let_def)
  have "\<forall>d\<in>set cs. d < length (chans ?s) \<and> ch_open (chans ?s ! d)"
    using Cons.prems by (auto simp: s1 nth_list_update)
  with Cons.IH [of ?s] Cons.prems have "fold close_chan cs ?s = ?s\<lparr>chans := map (\<lambda>d. if d \<in> set cs
      then (chans ?s ! d)\<lparr>ch_open := False\<rparr> else chans ?s ! d) [0..<length (chans ?s)]\<rparr>" by simp
  then show ?case
    using Cons.prems by (simp add: s1) (auto intro!: internalSession.fold_congs nth_equalityI simp: s1 nth_list_update)
qed

definition offer :: "bytes \<Rightarrow> chan \<Rightarrow> chan" where
  "offer f ch = (if length (ch_buf ch) < ch_cap ch then ch\<lparr>ch_buf := ch_buf ch @ [f]\<rparr> else ch)"

lemma try_send_open:
  "c < length (chans s) \<Longrightarrow> ch_open (chans s ! c) \<Longrightarrow> try_send f c s = s\<lparr>chans := (chans s)[c := offer f (chans s ! c)]\<rparr>"
  by (simp add: try_send_def offer_def Let_def)

lemma offer_simps [simp]: "ch_open (offer f ch) = ch_open ch" "ch_cap (offer f ch) = ch_cap ch"
  by (simp_all add: offer_def)

lemma send_all:
  assumes "distinct cs" "\<forall>c\<in>set cs. c < length (chans s) \<and> ch_open (chans s ! c)"
  shows "fold (try_send f) cs s =
     s\<lparr>chans := map (\<lambda>c. if c \<in> set cs then offer f (chans s ! c) else chans s ! c) [0..<length (chans s)]\<rparr>"
  using assms
proof (induction cs arbitrary: s)
  case Nil
  then show ?case by (simp add: map_nth)
next
  case (Cons c cs)
  let ?s = "try_send f c s"
  have s1: "?s = s\<lparr>chans := (chans s)[c := offer f (chans s ! c)]\<rparr>"
    using Cons.prems by (simp add: try_send_open)
  have "\<forall>d\<in>set cs. d < length (chans ?s) \<and> ch_open (chans ?s ! d)"
    using Cons.prems by (auto simp: s1 nth_list_update)
  with Cons.IH [of ?s] Cons.prems have "fold (try_send f) cs ?s = ?s\<lparr>chans := map (\<lambda>d. if d \<in> set cs
      then offer f (chans ?s ! d) else chans ?s ! d) [0..<length (chans ?s)]\<rparr>" by simp
  then show ?case
    using Cons.prems by (simp add: s1) (auto intro!: internalSession.fold_congs nth_equalityI simp: s1 nth_list_update)
qed

lemma set_remove_waiter: "set (remove_waiter c ws) \<subseteq> set ws"
  by (induction ws) auto

lemma distinct_remove_waiter:
  "distinct (map deliver ws) \<Longrightarrow> distinct (map deliver (remove_waiter c ws)) \<and> c \<notin> deliver ` set (remove_waiter c ws)"
proof (induction ws)
  case (Cons w ws)
  then show ?case using set_remove_waiter [of c ws] by (auto)
qed simp

lemma fold_deliver: "fold (\<lambda>w. close_chan (deliver w)) ws = fold close_chan (map deliver ws)"
  by (simp add: fold_map o_def)

lemma fold_subs:
  "fold (\<lambda>p. close_chan (snd p)) ps = fold close_chan (map snd ps)"
  "fold (\<lambda>p. try_send f (snd p)) ps = fold (try_send f) (map snd ps)"
  by (simp_all add: fold_map o_def)

lemma shutdown_chans:
  assumes "session_ok s"
  shows "shutdownPump s = s\<lparr>closed := True, waiters := [], subs := [], chans := map (\<lambda>c.
      if c \<in> deliver ` set (waiters s) \<union> snd ` set (subs s) then (chans s ! c)\<lparr>ch_open := False\<rparr> else chans s ! c)
      [0..<length (chans s)]\<rparr>"
proof -
  let ?s1 = "fold close_chan (map deliver (waiters s)) (s\<lparr>closed := True\<rparr>)"
  have s1: "?s1 = s\<lparr>closed := True, chans := map (\<lambda>c. if c \<in> deliver ` set (waiters s)
      then (chans s ! c)\<lparr>ch_open := False\<rparr> else chans s ! c) [0..<length (chans s)]\<rparr>"
    using assms by (subst close_all) (auto simp: session_ok_def)
  have s2: "fold close_chan (map snd (subs s)) (?s1\<lparr>waiters := []\<rparr>) = ?s1\<lparr>waiters := [], chans := map (\<lambda>c.
      if c \<in> snd ` set (subs s) then (chans ?s1 ! c)\<lparr>ch_open := False\<rparr> else chans ?s1 ! c)
      [0..<length (chans ?s1)]\<rparr>"
    unfolding s1 using assms by (subst close_all) (auto simp: session_ok_def)
  show ?thesis
    unfolding shutdownPump_def Let_def fold_deliver fold_subs s2 unfolding s1
    by (auto intro!: internalSession.fold_congs)
qed

lemma ok_shutdown: "session_ok s \<Longrightarrow> session_ok (shutdownPump s)"
  by (simp add: shutdown_chans) (simp add: session_ok_def)

lemma ok_register: "session_ok s \<Longrightarrow> session_ok (snd (registerWaiter a u s))"
  by (auto simp: registerWaiter_def new_chan_def session_ok_def Let_def nth_append)

lemma ok_unregister: "session_ok s \<Longrightarrow> session_ok (unregisterWaiter c s)"
  using set_remove_waiter [of c "waiters s"] distinct_remove_waiter [of "waiters s" c]
  by (auto simp: unregisterWaiter_def session_ok_def)

lemma ok_subscribe: "session_ok s \<Longrightarrow> session_ok (snd (subscribe s))"
  by (auto simp: subscribe_def new_chan_def close_chan_def session_ok_def Let_def nth_append less_Suc_eq)

lemma ok_update:
  assumes "session_ok s" "c \<notin> deliver ` set (waiters s)" "c \<notin> snd ` set (subs s)"
  shows "session_ok (s\<lparr>chans := (chans s)[c := x]\<rparr>)"
proof -
  have "(chans s)[c := x] ! deliver w = chans s ! deliver w" if "w \<in> set (waiters s)" for w
    using assms(2) that by (metis image_eqI nth_list_update_neq)
  moreover have "(chans s)[c := x] ! snd p = chans s ! snd p" if "p \<in> set (subs s)" for p
    using assms(3) that by (metis image_eqI nth_list_update_neq)
  ultimately show ?thesis using assms(1) by (simp add: session_ok_def)
qed

lemma ok_unsubscribe: "session_ok s \<Longrightarrow> session_ok (unsubscribe i s)"
proof (cases "map_of (subs s) i")
  case (Some c)
  assume ok: "session_ok s"
  from Some have "(i, c) \<in> set (subs s)" by (rule map_of_SomeD)
  with ok have c: "c < length (chans s)" "ch_open (chans s ! c)" by (auto simp: session_ok_def)
  have inj: "inj_on snd (set (subs s))" using ok by (simp add: session_ok_def distinct_map)
  have "snd p \<noteq> c" if "p \<in> set (subs s)" "fst p \<noteq> i" for p
    using inj_onD [OF inj, of p "(i, c)"] that \<open>(i, c) \<in> set (subs s)\<close> by (cases p) auto
  moreover have "deliver w \<noteq> c" if "w \<in> set (waiters s)" for w
    using ok that \<open>(i, c) \<in> set (subs s)\<close> by (force simp: session_ok_def)
  moreover have "session_ok (s\<lparr>subs := filter (\<lambda>p. fst p \<noteq> i) (subs s)\<rparr>)"
    using ok by (auto simp: session_ok_def distinct_map_filter)
  ultimately have "session_ok (s\<lparr>subs := filter (\<lambda>p. fst p \<noteq> i) (subs s),
      chans := (chans s)[c := (chans s ! c)\<lparr>ch_open := False\<rparr>]\<rparr>)"
    using ok_update [of "s\<lparr>subs := filter (\<lambda>p. fst p \<noteq> i) (subs s)\<rparr>" c] by fastforce
  with Some c show ?thesis by (simp add: unsubscribe_def close_chan_def Let_def)
qed (simp add: unsubscribe_def)

lemma route_miss:
  assumes "session_ok s" "find (wants a u) (waiters s) = None"
  shows "route a u f s = s\<lparr>chans := map (\<lambda>c. if c \<in> snd ` set (subs s) then offer f (chans s ! c) else chans s ! c)
     [0..<length (chans s)]\<rparr>"
  unfolding route_def assms(2) option.case fold_subs
  using assms(1) by (subst send_all) (auto simp: session_ok_def)

lemma route_hit:
  assumes "session_ok s" "find (wants a u) (waiters s) = Some w"
  shows "route a u f s = s\<lparr>waiters := remove_waiter (deliver w) (waiters s),
     chans := (chans s)[deliver w := \<lparr>ch_buf = [f], ch_cap = 1, ch_open = True\<rparr>]\<rparr>"
proof -
  have "w \<in> set (waiters s)" using assms(2) by (auto simp: find_Some_iff)
  with assms show ?thesis
    by (auto simp: route_def session_ok_def try_send_open unregisterWaiter_def offer_def)
qed

lemma ok_route: "session_ok s \<Longrightarrow> session_ok (route a u f s)"
proof (cases "find (wants a u) (waiters s)")
  case None
  assume ok: "session_ok s"
  have "deliver w \<notin> snd ` set (subs s)" if "w \<in> set (waiters s)" for w
    using ok that by (auto simp: session_ok_def)
  with ok show ?thesis by (simp add: route_miss [OF ok None]) (auto simp: session_ok_def)
next
  case (Some w)
  assume ok: "session_ok s"
  have "w \<in> set (waiters s)" using Some by (auto simp: find_Some_iff)
  then have "deliver w \<notin> snd ` set (subs s)" using ok by (auto simp: session_ok_def)
  moreover have "deliver w \<notin> deliver ` set (waiters (unregisterWaiter (deliver w) s))"
    using ok distinct_remove_waiter [of "waiters s" "deliver w"] by (simp add: unregisterWaiter_def session_ok_def)
  ultimately have "session_ok ((unregisterWaiter (deliver w) s)\<lparr>chans :=
      (chans s)[deliver w := \<lparr>ch_buf = [f], ch_cap = 1, ch_open = True\<rparr>]\<rparr>)"
    using ok_update [OF ok_unregister [OF ok]] by (simp add: unregisterWaiter_def)
  then show ?thesis by (simp add: route_hit [OF ok Some] unregisterWaiter_def)
qed

lemma routeFrame_Returns: "routeFrame f s = Returns s' \<Longrightarrow> \<exists>a u. s' = route a u f s"
  by (cases "bytes_of (extractRoutableToRoutingAddress f)"; cases "bytes_of (extractRoutableRequestUUID f)")
    (auto simp: routeFrame_def)

lemma ok_take:
  "session_ok s \<Longrightarrow> c < length (chans s) \<Longrightarrow> session_ok (take_frame c s)"
  by (auto simp: take_frame_def session_ok_def nth_list_update)

lemma ok_step: "session_step s s' \<Longrightarrow> session_ok s \<Longrightarrow> session_ok s'"
  by (induction rule: session_step.induct)
    (auto intro: ok_register ok_unregister ok_subscribe ok_unsubscribe ok_shutdown ok_take ok_route
      dest!: routeFrame_Returns, simp add: stopPump_def session_ok_def)

lemma ok_new: "session_ok (newInternalSession i vin now)"
  by (simp add: session_ok_def newInternalSession_def)

lemma ok_reachable: "session_step\<^sup>*\<^sup>* (newInternalSession i vin now) s \<Longrightarrow> session_ok s"
  by (induction rule: rtranclp_induct) (auto intro: ok_new ok_step)

subsection \<open>Properties of a session\<close>

text \<open>
  C16: no interleaving of exchanges, time-outs, subscriptions, routed frames and shutdown sends on a
  closed channel or closes one twice, and the delivery channel of a registered waiter always has
  room, so that a frame that matches a waiter is never dropped.
\<close>

theorem session_never_panics:
  assumes "session_step\<^sup>*\<^sup>* (newInternalSession i vin now) s"
  shows "\<not> crashed s \<and> (\<forall>w\<in>set (waiters s). ch_open (chans s ! deliver w) \<and>
     length (ch_buf (chans s ! deliver w)) < ch_cap (chans s ! deliver w))"
  using ok_reachable [OF assms] by (auto simp: session_ok_def)

theorem session_never_panics_witness:
  "\<not> crashed (shutdownPump (snd (subscribe (snd (registerWaiter [1] [] (newInternalSession ''a'' ''b'' 0))))))"
proof -
  let ?s0 = "newInternalSession ''a'' ''b'' 0"
  let ?s1 = "snd (registerWaiter [1] [] ?s0)"
  let ?s2 = "snd (subscribe ?s1)"
  have "\<not> closed ?s2"
    by (simp add: subscribe_def registerWaiter_def new_chan_def newInternalSession_def close_chan_def Let_def)
  then have "session_step\<^sup>*\<^sup>* ?s2 (shutdownPump ?s2)" by (intro r_into_rtranclp ss_shutdown)
  with ss_subscribe [of ?s1] have "session_step\<^sup>*\<^sup>* ?s1 (shutdownPump ?s2)" by (rule converse_rtranclp_into_rtranclp)
  with ss_register [of ?s0 "[1]" "[]"] have "session_step\<^sup>*\<^sup>* ?s0 (shutdownPump ?s2)"
    by (rule converse_rtranclp_into_rtranclp)
  from session_never_panics [OF this] show ?thesis by simp
qed

text \<open>
  A frame has one destination.  If a waiter's correlator matches, the first such waiter gets
  the frame, alone, and is unregistered; if none matches, every subscriber whose buffer has room
  gets it and no waiter does.
\<close>

theorem frame_has_one_destination:
  assumes "session_step\<^sup>*\<^sup>* (newInternalSession i vin now) s" "routeFrame f s = Returns s'"
    and "bytes_of (extractRoutableToRoutingAddress f) = Returns a" "bytes_of (extractRoutableRequestUUID f) = Returns u"
  shows "case find (wants a u) (waiters s) of
     Some w \<Rightarrow> ch_buf (chans s' ! deliver w) = [f] \<and> deliver w \<notin> deliver ` set (waiters s') \<and>
       (\<forall>c. c \<noteq> deliver w \<longrightarrow> chans s' ! c = chans s ! c) \<and> subs s' = subs s
   | None \<Rightarrow> waiters s' = waiters s \<and> subs s' = subs s \<and> (\<forall>c < length (chans s).
       chans s' ! c = (if c \<in> snd ` set (subs s) then offer f (chans s ! c) else chans s ! c))"
proof -
  have ok: "session_ok s" using assms(1) by (rule ok_reachable)
  have s': "s' = route a u f s" using assms(2-) by (simp add: routeFrame_def)
  show ?thesis
  proof (cases "find (wants a u) (waiters s)")
    case None
    then show ?thesis by (simp add: s' route_miss [OF ok None])
  next
    case (Some w)
    then have "w \<in> set (waiters s)" by (auto simp: find_Some_iff)
    then have "deliver w < length (chans s)" "distinct (map deliver (waiters s))"
      using ok by (auto simp: session_ok_def)
    then show ?thesis
      using distinct_remove_waiter [of "waiters s" "deliver w"] Some by (simp add: s' route_hit [OF ok Some])
  qed
qed

theorem frame_has_one_destination_witness:
  "ch_buf (chans (route [] [] (enc_message []) (snd (registerWaiter [] [] (newInternalSession ''a'' ''b'' 0)))) ! 0) = [[]]"
proof -
  let ?s = "snd (registerWaiter [] [] (newInternalSession ''a'' ''b'' 0))"
  have reach: "session_step\<^sup>*\<^sup>* (newInternalSession ''a'' ''b'' 0) ?s"
    by (rule r_into_rtranclp) (rule ss_register)
  have n: "scanProtoField [] k 2 = Some NoField" for k
    unfolding scanProtoField_def by (subst scan_loop.simps) simp
  have a: "bytes_of (extractRoutableToRoutingAddress []) = Returns []"
    and u: "bytes_of (extractRoutableRequestUUID []) = Returns []"
    by (simp_all add: extractRoutableToRoutingAddress_def extractRoutableRequestUUID_def sub_field_def n)
  have r: "routeFrame [] ?s = Returns (route [] [] [] ?s)" by (simp add: routeFrame_def a u)
  have "find (wants [] []) (waiters ?s) = Some \<lparr>wantAddr = [], wantUUID = [], deliver = 0\<rparr>"
    by (simp add: registerWaiter_def new_chan_def newInternalSession_def wants_def Let_def)
  with frame_has_one_destination [OF reach r a u] show ?thesis by (simp add: enc_message_def)
qed

text \<open>
  When the pump stops, nobody is left waiting: every registered waiter and every subscriber
  finds its channel closed, later registrations are refused, and a later subscription gets a
  channel that is already closed.
\<close>

theorem shutdown_unblocks_everyone:
  assumes "session_step\<^sup>*\<^sup>* (newInternalSession i vin now) s"
  defines "s' \<equiv> shutdownPump s"
  shows "\<not> crashed s' \<and> waiters s' = [] \<and> subs s' = [] \<and>
     (\<forall>c \<in> deliver ` set (waiters s) \<union> snd ` set (subs s). \<not> ch_open (chans s' ! c)) \<and>
     fst (registerWaiter a u s') = None \<and>
     \<not> ch_open (chans (snd (subscribe s')) ! snd (fst (subscribe s'))) \<and> \<not> crashed (snd (subscribe s'))"
proof -
  have ok: "session_ok s" using assms(1) by (rule ok_reachable)
  then have "\<forall>c \<in> deliver ` set (waiters s) \<union> snd ` set (subs s). c < length (chans s)"
    by (auto simp: session_ok_def)
  then have "\<forall>c \<in> deliver ` set (waiters s) \<union> snd ` set (subs s). \<not> ch_open (chans s' ! c)"
    by (auto simp: s'_def shutdown_chans [OF ok])
  moreover have s': "closed s'" "waiters s' = []" "subs s' = []" "\<not> crashed s'"
    using ok_shutdown [OF ok] by (simp_all add: s'_def shutdown_chans [OF ok] session_ok_def)
  moreover have "\<not> crashed (snd (subscribe s'))"
    using ok_subscribe [OF ok_shutdown [OF ok]] by (simp add: s'_def session_ok_def)
  moreover have "\<not> ch_open (chans (snd (subscribe s')) ! snd (fst (subscribe s')))"
    using s'(1) by (simp add: subscribe_def new_chan_def close_chan_def Let_def)
  ultimately show ?thesis by (simp add: registerWaiter_def)
qed

theorem shutdown_unblocks_everyone_witness:
  "\<not> ch_open (chans (shutdownPump (snd (registerWaiter [1] [] (newInternalSession ''a'' ''b'' 0)))) ! 0)"
proof -
  have reach: "session_step\<^sup>*\<^sup>* (newInternalSession ''a'' ''b'' 0)
      (snd (registerWaiter [1] [] (newInternalSession ''a'' ''b'' 0)))"
    by (rule r_into_rtranclp) (rule ss_register)
  have w: "waiters (snd (registerWaiter [1] [] (newInternalSession ''a'' ''b'' 0))) =
      [\<lparr>wantAddr = [1], wantUUID = [], deliver = 0\<rparr>]"
    by (simp add: registerWaiter_def new_chan_def newInternalSession_def Let_def)
  show ?thesis using shutdown_unblocks_everyone [OF reach, of "[]" "[]"] by (simp add: w)
qed

end
