(* ===== verification/BLE_Service.thy ===== *)
theory BLE_Service
  imports BLE_Session
begin

text \<open>
  \<^verbatim>\<open>BLESessionService\<close> of \<^verbatim>\<open>internal/services/tesla_session.go\<close>: opening, taking over, closing and
  reaping sessions around the one radio.  Each critical section of the service's mutex is a function;
  \<open>ble_step\<close> interleaves the calls.  The radio stands for \<^verbatim>\<open>TeslaService.bleMu\<close>, which an \<^verbatim>\<open>Open\<close> takes
  inside \<^verbatim>\<open>acquire\<close> and the session's release callback gives back.  Sequence numbers are natural
  numbers (the counter has 64 bits and grows by one per call).
\<close>

definition bleSessionTTL :: time where "bleSessionTTL = 5 * 60 * 1000000000"
definition bleSessionDefaultTimeout :: time where "bleSessionDefaultTimeout = 5 * 1000000000"
definition bleSessionMaxTimeout :: time where "bleSessionMaxTimeout = 30 * 1000000000"

datatype ble_error =
    ErrBLESessionNotFound
  | ErrBLESessionTimeout
  | ErrBLEOpenSuperseded
  | ErrBLE string

record BLESessionService =
  sessions :: "(string \<times> internalSession) list"
  openSeq :: nat
  pendingCancel :: "nat option"
  pendingOwner :: int

definition NewBLESessionService :: BLESessionService where
  "NewBLESessionService = \<lparr>sessions = [], openSeq = 0, pendingCancel = None, pendingOwner = 0\<rparr>"

subsection \<open>Critical sections\<close>

definition get_session :: "string \<Rightarrow> BLESessionService \<Rightarrow> ble_error + internalSession" where
  "get_session i b = (case map_of (sessions b) i of None \<Rightarrow> Inl ErrBLESessionNotFound | Some s \<Rightarrow> Inr s)"

definition CurrentSession :: "BLESessionService \<Rightarrow> string option" where
  "CurrentSession b = (case sessions b of [] \<Rightarrow> None | (i, _) # _ \<Rightarrow> Some i)"

definition update_session :: "string \<Rightarrow> (internalSession \<Rightarrow> internalSession) \<Rightarrow> BLESessionService \<Rightarrow> BLESessionService" where
  "update_session i f b = b\<lparr>sessions := map (\<lambda>(j, s). (j, if j = i then f s else s)) (sessions b)\<rparr>"

definition touch :: "string \<Rightarrow> time \<Rightarrow> BLESessionService \<Rightarrow> BLESessionService" where
  "touch i now b = update_session i (\<lambda>s. s\<lparr>s_lastUsed := now\<rparr>) b"

text \<open>The call whose context is cancelled, the number of the new call and the new state.\<close>

definition beginOpen :: "nat \<Rightarrow> int \<Rightarrow> BLESessionService \<Rightarrow> nat option \<times> nat \<times> BLESessionService" where
  "beginOpen call owner b =
     (let n = openSeq b + 1 in
      (pendingCancel b, n, b\<lparr>openSeq := n, pendingCancel := Some call, pendingOwner := owner\<rparr>))"

definition endOpen :: "nat \<Rightarrow> BLESessionService \<Rightarrow> BLESessionService" where
  "endOpen seq b = (if openSeq b = seq then b\<lparr>pendingCancel := None, pendingOwner := 0\<rparr> else b)"

definition register :: "nat \<Rightarrow> internalSession \<Rightarrow> BLESessionService \<Rightarrow> ble_error + BLESessionService" where
  "register seq s b =
     (if openSeq b \<noteq> seq then Inl ErrBLEOpenSuperseded
      else Inr (b\<lparr>sessions := sessions b @ [(s_id s, s)]\<rparr>))"

definition delete_session :: "string \<Rightarrow> BLESessionService \<Rightarrow> BLESessionService" where
  "delete_session i b = b\<lparr>sessions := filter (\<lambda>p. fst p \<noteq> i) (sessions b)\<rparr>"

text \<open>
  The locked part of \<^verbatim>\<open>CloseForToken\<close>: the call it cancels, the sessions it then closes, the state.
\<close>

definition closeForToken_begin :: "int \<Rightarrow> BLESessionService \<Rightarrow> nat option \<times> string list \<times> BLESessionService" where
  "closeForToken_begin owner b =
     (let hit = pendingCancel b \<noteq> None \<and> pendingOwner b = owner in
      (if hit then pendingCancel b else None,
       map fst (filter (\<lambda>p. s_owner (snd p) = owner) (sessions b)),
       if hit then b\<lparr>pendingCancel := None, pendingOwner := 0, openSeq := openSeq b + 1\<rparr> else b))"

datatype reap = Gone | Reap internalSession | Sleep time

definition reaper_check :: "string \<Rightarrow> time \<Rightarrow> BLESessionService \<Rightarrow> reap \<times> BLESessionService" where
  "reaper_check i now b =
     (case map_of (sessions b) i of
        None \<Rightarrow> (Gone, b)
      | Some s \<Rightarrow>
          let idle = now - s_lastUsed s in
          if idle \<ge> bleSessionTTL then (Reap s, delete_session i b)
          else (Sleep (bleSessionTTL - idle + 1000000000), b))"

subsection \<open>Whole calls\<close>

text \<open>
  \<^verbatim>\<open>Close\<close>: the state, the session whose pump is stopped and whose release runs, or the error.
\<close>

definition Close :: "string \<Rightarrow> BLESessionService \<Rightarrow> ble_error + (internalSession \<times> BLESessionService)" where
  "Close i b =
     (case map_of (sessions b) i of
        None \<Rightarrow> Inl ErrBLESessionNotFound
      | Some s \<Rightarrow> Inr (stopPump s, delete_session i b))"

definition close_ids :: "string list \<Rightarrow> BLESessionService \<Rightarrow> nat \<times> BLESessionService" where
  "close_ids is b =
     fold (\<lambda>i (n, b). case Close i b of Inl _ \<Rightarrow> (n, b) | Inr (_, b') \<Rightarrow> (n + 1, b')) is (0, b)"

definition preemptExisting :: "BLESessionService \<Rightarrow> BLESessionService" where
  "preemptExisting b = snd (close_ids (map fst (sessions b)) b)"

definition CloseForToken :: "int \<Rightarrow> BLESessionService \<Rightarrow> nat \<times> BLESessionService" where
  "CloseForToken owner b =
     (if owner = 0 then (0, b)
      else case closeForToken_begin owner b of (_, is, b') \<Rightarrow> close_ids is b')"

definition Subscribe :: "string \<Rightarrow> BLESessionService \<Rightarrow> ble_error + ((nat \<times> nat) \<times> BLESessionService)" where
  "Subscribe i b =
     (case get_session i b of
        Inl e \<Rightarrow> Inl e
      | Inr s \<Rightarrow> Inr (fst (subscribe s), update_session i (\<lambda>s. snd (subscribe s)) b))"

definition Unsubscribe :: "string \<Rightarrow> nat \<Rightarrow> BLESessionService \<Rightarrow> BLESessionService" where
  "Unsubscribe i sub b =
     (case get_session i b of Inl _ \<Rightarrow> b | Inr _ \<Rightarrow> update_session i (unsubscribe sub) b)"

text \<open>
  An \<^verbatim>\<open>Open\<close> that runs alone: the VIN, the sequence number, the take-over, the acquisition (a session
  or an error), the random id, the registration.
\<close>

definition Open ::
  "string option \<Rightarrow> (string \<Rightarrow> bool) \<Rightarrow> string option \<Rightarrow> time \<Rightarrow> nat \<Rightarrow> string \<Rightarrow> int \<Rightarrow> BLESessionService \<Rightarrow>
     (ble_error + string) \<times> BLESessionService" where
  "Open configured acquires rnd now call vin owner b =
     (case (if vin = [] then configured else Some vin) of
        None \<Rightarrow> (Inl (ErrBLE ''vin not configured''), b)
      | Some vin \<Rightarrow>
          (case beginOpen call owner b of (_, seq, b) \<Rightarrow>
            let b = preemptExisting b in
            if \<not> acquires vin then (Inl (ErrBLE ''acquire''), endOpen seq b)
            else (case rnd of
                None \<Rightarrow> (Inl (ErrBLE ''session id''), endOpen seq b)
              | Some i \<Rightarrow>
                  (case register seq ((newInternalSession i vin now)\<lparr>s_owner := owner\<rparr>) b of
                     Inl e \<Rightarrow> (Inl e, endOpen seq b)
                   | Inr b' \<Rightarrow> (Inr i, endOpen seq b')))))"

definition clamp_timeout :: "time \<Rightarrow> time" where
  "clamp_timeout t =
     (let t = (if t \<le> 0 then bleSessionDefaultTimeout else t) in
      if t > bleSessionMaxTimeout then bleSessionMaxTimeout else t)"

text \<open>
  \<^verbatim>\<open>Exchange\<close> up to its \<^verbatim>\<open>select\<close>: the registered waiter and how long it waits; and the three ways the
  wait ends, with what the session looks like by then.
\<close>

definition exchange_begin :: "bool \<Rightarrow> string \<Rightarrow> bytes \<Rightarrow> time \<Rightarrow> BLESessionService \<Rightarrow>
    (ble_error + (frameWaiter \<times> time)) outcome \<times> BLESessionService" where
  "exchange_begin send_ok i payload timeout b =
     (case get_session i b of
        Inl e \<Rightarrow> (Returns (Inl e), b)
      | Inr s \<Rightarrow>
          (case bind_outcome (bytes_of (extractRoutableFromRoutingAddress payload)) (\<lambda>a.
                bind_outcome (bytes_of (extractRoutableUUID payload)) (\<lambda>u. Returns (registerWaiter a u s))) of
             Crashes \<Rightarrow> (Crashes, b)
           | Hangs \<Rightarrow> (Hangs, b)
           | Returns (None, s') \<Rightarrow> (Returns (Inl (ErrBLE ''BLE connection closed before send'')), b)
           | Returns (Some w, s') \<Rightarrow>
               if send_ok then (Returns (Inr (w, clamp_timeout timeout)), update_session i (\<lambda>_. s') b)
               else (Returns (Inl (ErrBLE ''BLE send'')),
                     update_session i (\<lambda>_. unregisterWaiter (deliver w) s') b)))"

datatype wake = Delivery | Deadline | ContextDone

definition exchange_end :: "wake \<Rightarrow> string \<Rightarrow> nat \<Rightarrow> time \<Rightarrow> internalSession \<Rightarrow> BLESessionService \<Rightarrow>
    (ble_error + bytes) \<times> internalSession \<times> BLESessionService" where
  "exchange_end k i c now s b =
     (case k of
        Delivery \<Rightarrow> (case ch_buf (chans s ! c) of
            [] \<Rightarrow> (Inl (ErrBLE ''BLE connection closed''), s, b)
          | f # _ \<Rightarrow> (Inr f, take_frame c s, touch i now b))
      | Deadline \<Rightarrow> (Inl ErrBLESessionTimeout, unregisterWaiter c s, b)
      | ContextDone \<Rightarrow> (Inl (ErrBLE ''context done''), unregisterWaiter c s, b))"

subsection \<open>Interleaving\<close>

text \<open>
  Where the calls are.  \<open>opens\<close> maps each \<^verbatim>\<open>Open\<close> in flight to its number, its owner and its phase;
  \<open>releasing\<close> lists sessions taken out of the map whose release has not run yet; \<open>radio\<close> says who holds
  the adapter; \<open>registered_as\<close> remembers the number under which a session was registered.  An id is
  16 random bytes, taken to be unused.
\<close>

datatype phase = Begun | Preempting "string list" | Acquiring | Holding | Ending
datatype holder = ByOpen nat | BySession string

record open_call =
  oc_seq :: nat
  oc_owner :: int
  oc_phase :: phase

record ble_conf =
  service :: BLESessionService
  radio :: "holder option"
  opens :: "nat \<Rightarrow> open_call option"
  releasing :: "string list"
  registered_as :: "string \<Rightarrow> nat"

definition initial_ble :: ble_conf where
  "initial_ble = \<lparr>service = NewBLESessionService, radio = None, opens = Map.empty, releasing = [],
     registered_as = (\<lambda>_. 0)\<rparr>"

definition ids :: "ble_conf \<Rightarrow> string set" where
  "ids c = fst ` set (sessions (service c))"

definition at_phase :: "ble_conf \<Rightarrow> nat \<Rightarrow> open_call \<Rightarrow> phase \<Rightarrow> ble_conf" where
  "at_phase c k oc ph = c\<lparr>opens := (opens c)(k \<mapsto> oc\<lparr>oc_phase := ph\<rparr>)\<rparr>"

definition take_out :: "string \<Rightarrow> ble_conf \<Rightarrow> ble_conf" where
  "take_out i c = (case Close i (service c) of
     Inl _ \<Rightarrow> c
   | Inr (_, b') \<Rightarrow> c\<lparr>service := b', releasing := i # releasing c\<rparr>)"

inductive ble_step :: "ble_conf \<Rightarrow> ble_conf \<Rightarrow> bool" where
  bs_begin: "opens c k = None \<Longrightarrow> beginOpen k owner (service c) = (old, n, b) \<Longrightarrow>
    ble_step c (c\<lparr>service := b, opens := (opens c)(k \<mapsto> \<lparr>oc_seq = n, oc_owner = owner, oc_phase = Begun\<rparr>)\<rparr>)"
| bs_snapshot: "opens c k = Some oc \<Longrightarrow> oc_phase oc = Begun \<Longrightarrow>
    ble_step c (at_phase c k oc (Preempting (map fst (sessions (service c)))))"
| bs_preempt: "opens c k = Some oc \<Longrightarrow> oc_phase oc = Preempting (i # is) \<Longrightarrow>
    ble_step c (at_phase (take_out i c) k oc (Preempting is))"
| bs_preempted: "opens c k = Some oc \<Longrightarrow> oc_phase oc = Preempting [] \<Longrightarrow> ble_step c (at_phase c k oc Acquiring)"
| bs_acquire: "opens c k = Some oc \<Longrightarrow> oc_phase oc = Acquiring \<Longrightarrow> radio c = None \<Longrightarrow>
    ble_step c ((at_phase c k oc Holding)\<lparr>radio := Some (ByOpen k)\<rparr>)"
| bs_fail: "opens c k = Some oc \<Longrightarrow> oc_phase oc = Acquiring \<Longrightarrow> ble_step c (at_phase c k oc Ending)"
| bs_register: "opens c k = Some oc \<Longrightarrow> oc_phase oc = Holding \<Longrightarrow> s_owner s = oc_owner oc \<Longrightarrow>
    s_id s \<notin> ids c \<Longrightarrow> s_id s \<notin> set (releasing c) \<Longrightarrow> register (oc_seq oc) s (service c) = Inr b \<Longrightarrow>
    ble_step c ((at_phase c k oc Ending)\<lparr>service := b, radio := Some (BySession (s_id s)),
      registered_as := (registered_as c)(s_id s := oc_seq oc)\<rparr>)"
| bs_back_out: "opens c k = Some oc \<Longrightarrow> oc_phase oc = Holding \<Longrightarrow>
    ble_step c ((at_phase c k oc Ending)\<lparr>radio := None\<rparr>)"
| bs_end: "opens c k = Some oc \<Longrightarrow> oc_phase oc = Ending \<Longrightarrow>
    ble_step c (c\<lparr>service := endOpen (oc_seq oc) (service c), opens := (opens c)(k := None)\<rparr>)"
| bs_close: "ble_step c (take_out i c)"
| bs_reap: "reaper_check i now (service c) = (Reap s, b) \<Longrightarrow> ble_step c (take_out i c)"
| bs_release: "i \<in> set (releasing c) \<Longrightarrow>
    ble_step c (c\<lparr>radio := None, releasing := filter (\<lambda>j. j \<noteq> i) (releasing c)\<rparr>)"
| bs_token: "closeForToken_begin owner (service c) = (old, is, b) \<Longrightarrow> ble_step c (c\<lparr>service := b\<rparr>)"
| bs_touch: "ble_step c (c\<lparr>service := touch i now (service c)\<rparr>)"

text \<open>
  The invariant: whoever can use the radio holds it; the latest number belongs to the pending call
  only; and a call past its take-over has nobody older before it.
\<close>

definition radio_ok :: "ble_conf \<Rightarrow> bool" where
  "radio_ok c \<longleftrightarrow>
     distinct (map fst (sessions (service c))) \<and> ids c \<inter> set (releasing c) = {} \<and>
     (\<forall>i. i \<in> ids c \<or> i \<in> set (releasing c) \<longrightarrow> radio c = Some (BySession i)) \<and>
     (\<forall>k oc. opens c k = Some oc \<longrightarrow> oc_phase oc = Holding \<longrightarrow> radio c = Some (ByOpen k))"

definition seq_ok :: "ble_conf \<Rightarrow> bool" where
  "seq_ok c \<longleftrightarrow>
     (\<forall>k oc. opens c k = Some oc \<longrightarrow> oc_seq oc \<le> openSeq (service c) \<and>
        (oc_seq oc = openSeq (service c) \<longrightarrow>
           pendingCancel (service c) = Some k \<and> pendingOwner (service c) = oc_owner oc)) \<and>
     (\<forall>k k' oc oc'. opens c k = Some oc \<longrightarrow> opens c k' = Some oc' \<longrightarrow> oc_seq oc = oc_seq oc' \<longrightarrow> k = k')"

fun older_gone :: "ble_conf \<Rightarrow> open_call \<Rightarrow> bool" where
  "older_gone c oc = (case oc_phase oc of
     Begun \<Rightarrow> True
   | Ending \<Rightarrow> True
   | Preempting is \<Rightarrow> (\<forall>i \<in> ids c. registered_as c i < oc_seq oc \<longrightarrow> i \<in> set is)
   | _ \<Rightarrow> (\<forall>i \<in> ids c. oc_seq oc \<le> registered_as c i))"

definition age_ok :: "ble_conf \<Rightarrow> bool" where
  "age_ok c \<longleftrightarrow> (\<forall>k oc. opens c k = Some oc \<longrightarrow> older_gone c oc)"

lemma take_out_simps [simp]:
  "radio (take_out i c) = radio c" "opens (take_out i c) = opens c" "registered_as (take_out i c) = registered_as c"
  "openSeq (service (take_out i c)) = openSeq (service c)"
  "pendingCancel (service (take_out i c)) = pendingCancel (service c)"
  "pendingOwner (service (take_out i c)) = pendingOwner (service c)"
  by (auto simp: take_out_def Close_def delete_session_def split: option.splits)

lemma take_out_ids: "ids (take_out i c) = ids c - {i}"
  by (auto simp: take_out_def Close_def delete_session_def ids_def map_of_eq_None_iff image_iff split: option.splits)

lemma take_out_releasing: "set (releasing (take_out i c)) = set (releasing c) \<union> (ids c \<inter> {i})"
  by (auto simp: take_out_def Close_def ids_def map_of_eq_None_iff split: option.splits dest: map_of_SomeD)
    (force dest: map_of_SomeD)+

lemma take_out_distinct:
  "distinct (map fst (sessions (service c))) \<Longrightarrow> distinct (map fst (sessions (service (take_out i c))))"
  by (auto simp: take_out_def Close_def delete_session_def distinct_map_filter split: option.splits)

lemma at_phase_simps [simp]:
  "service (at_phase c k oc ph) = service c" "radio (at_phase c k oc ph) = radio c"
  "releasing (at_phase c k oc ph) = releasing c" "registered_as (at_phase c k oc ph) = registered_as c"
  "opens (at_phase c k oc ph) = (opens c)(k \<mapsto> oc\<lparr>oc_phase := ph\<rparr>)" "ids (at_phase c k oc ph) = ids c"
  by (simp_all add: at_phase_def ids_def)

lemma register_Inr: "register n s b = Inr b' \<longleftrightarrow> openSeq b = n \<and> b' = b\<lparr>sessions := sessions b @ [(s_id s, s)]\<rparr>"
  by (auto simp: register_def)

lemma touch_simps [simp]:
  "map fst (sessions (touch i now b)) = map fst (sessions b)" "openSeq (touch i now b) = openSeq b"
  "pendingCancel (touch i now b) = pendingCancel b" "pendingOwner (touch i now b) = pendingOwner b"
  by (simp_all add: touch_def update_session_def o_def case_prod_beta)

lemma token_simps:
  "closeForToken_begin owner b = (old, is, b') \<Longrightarrow> sessions b' = sessions b"
  by (auto simp: closeForToken_begin_def Let_def split: if_splits)

lemma radio_ok_take_out:
  assumes "radio_ok c"
  shows "radio_ok (take_out i c)"
proof -
  have "\<forall>j. j \<in> ids c \<or> j \<in> set (releasing c) \<longrightarrow> radio c = Some (BySession j)"
    "distinct (map fst (sessions (service c)))" "ids c \<inter> set (releasing c) = {}"
    "\<forall>k oc. opens c k = Some oc \<longrightarrow> oc_phase oc = Holding \<longrightarrow> radio c = Some (ByOpen k)"
    using assms unfolding radio_ok_def by blast+
  then show ?thesis
    unfolding radio_ok_def take_out_simps take_out_ids take_out_releasing
    by (intro conjI take_out_distinct) blast+
qed

lemma radio_ok_phase: "radio_ok c \<Longrightarrow> ph \<noteq> Holding \<Longrightarrow> radio_ok (at_phase c k oc ph)"
  by (simp add: radio_ok_def)

lemma radio_ok_service:
  assumes "radio_ok c" "map fst (sessions b) = map fst (sessions (service c))"
  shows "radio_ok (c\<lparr>service := b\<rparr>)"
proof -
  have "ids (c\<lparr>service := b\<rparr>) = ids c" unfolding ids_def using assms(2) by (simp flip: set_map)
  with assms show ?thesis by (simp add: radio_ok_def)
qed

lemma radio_idle:
  assumes "radio_ok c" "radio c = None \<or> radio c = Some (ByOpen k)"
  shows "sessions (service c) = [] \<and> releasing c = []"
proof -
  have all: "\<forall>i. i \<in> ids c \<or> i \<in> set (releasing c) \<longrightarrow> radio c = Some (BySession i)"
    using assms(1) unfolding radio_ok_def by blast
  have "ids c = {}" by (rule equals0I) (use all assms(2) in auto)
  moreover have "set (releasing c) = {}" by (rule equals0I) (use all assms(2) in auto)
  ultimately show ?thesis by (simp add: ids_def)
qed

lemma radio_holding:
  "radio_ok c \<Longrightarrow> opens c k = Some oc \<Longrightarrow> oc_phase oc = Holding \<Longrightarrow> radio c = Some (ByOpen k)"
  unfolding radio_ok_def by blast

lemma radio_okI:
  assumes "sessions (service c) = []" "releasing c = []"
    "\<And>k oc. opens c k = Some oc \<Longrightarrow> oc_phase oc = Holding \<Longrightarrow> radio c = Some (ByOpen k)"
  shows "radio_ok c"
  using assms by (auto simp: radio_ok_def ids_def)

lemma radio_ok_register:
  assumes ok: "radio_ok c" and oc: "opens c k = Some oc" "oc_phase oc = Holding"
    and b: "register (oc_seq oc) s (service c) = Inr b"
  shows "radio_ok ((at_phase c k oc Ending)\<lparr>service := b, radio := Some (BySession (s_id s)), registered_as := r\<rparr>)"
proof -
  have hold: "radio c = Some (ByOpen k)" using ok oc by (rule radio_holding)
  then have empty: "sessions (service c) = []" "releasing c = []" using radio_idle [OF ok] by blast+
  then have "sessions b = [(s_id s, s)]" using b by (auto simp: register_Inr)
  moreover have "oc_phase oc' \<noteq> Holding" if "opens c k' = Some oc'" "k' \<noteq> k" for k' oc'
    using radio_holding [OF ok that(1)] that(2) hold by auto
  ultimately show ?thesis using empty by (auto simp: radio_ok_def ids_def)
qed

lemma radio_ok_release:
  assumes ok: "radio_ok c" and i: "i \<in> set (releasing c)"
  shows "radio_ok (c\<lparr>radio := None, releasing := filter (\<lambda>j. j \<noteq> i) (releasing c)\<rparr>)"
proof (rule radio_okI)
  have all: "j = i" if "j \<in> ids c \<or> j \<in> set (releasing c)" for j
    using ok i that unfolding radio_ok_def by (metis holder.inject(2) option.inject)
  moreover have "i \<notin> ids c" using ok i unfolding radio_ok_def by blast
  ultimately have "ids c = {}" by blast
  then show "sessions (service (c\<lparr>radio := None, releasing := filter (\<lambda>j. j \<noteq> i) (releasing c)\<rparr>)) = []"
    by (simp add: ids_def)
  show "releasing (c\<lparr>radio := None, releasing := filter (\<lambda>j. j \<noteq> i) (releasing c)\<rparr>) = []"
    using all by (simp add: filter_empty_conv)
  fix k oc
  assume "opens (c\<lparr>radio := None, releasing := filter (\<lambda>j. j \<noteq> i) (releasing c)\<rparr>) k = Some oc" "oc_phase oc = Holding"
  then have "radio c = Some (ByOpen k)" using radio_holding [OF ok] by simp
  then show "radio (c\<lparr>radio := None, releasing := filter (\<lambda>j. j \<noteq> i) (releasing c)\<rparr>) = Some (ByOpen k)"
    using radio_idle [OF ok] i by auto
qed

lemma radio_ok_step: "ble_step c c' \<Longrightarrow> radio_ok c \<Longrightarrow> radio_ok c'"
proof (induction rule: ble_step.induct)
  case (bs_begin c k owner old n b)
  then have "sessions b = sessions (service c)" by (auto simp: beginOpen_def Let_def)
  with bs_begin show ?case by (simp add: radio_ok_def ids_def)
next
  case (bs_acquire c k oc)
  then show ?case using radio_idle [of c k] radio_holding [of c] by (intro radio_okI) (auto split: if_splits)
next
  case (bs_register c k oc s b)
  then show ?case by (intro radio_ok_register)
next
  case (bs_back_out c k oc)
  then have "radio c = Some (ByOpen k)" by (intro radio_holding)
  moreover from this have "oc_phase oc' \<noteq> Holding" if "opens c k' = Some oc'" "k' \<noteq> k" for k' oc'
    using radio_holding [OF bs_back_out(3) that(1)] that(2) by auto
  ultimately show ?case
    using radio_idle [OF bs_back_out(3), of k] by (intro radio_okI) (auto split: if_splits)
next
  case (bs_end c k oc)
  have "sessions (endOpen (oc_seq oc) (service c)) = sessions (service c)" by (simp add: endOpen_def)
  with bs_end show ?case by (simp add: radio_ok_def ids_def)
next
  case (bs_release i c)
  then show ?case by (intro radio_ok_release)
next
  case (bs_token owner c old "is" b)
  then show ?case by (intro radio_ok_service) (simp_all add: token_simps)
qed (simp_all add: radio_ok_take_out radio_ok_phase radio_ok_service)

lemma seq_okD:
  "seq_ok c \<Longrightarrow> opens c k = Some oc \<Longrightarrow> oc_seq oc \<le> openSeq (service c)"
  "seq_ok c \<Longrightarrow> opens c k = Some oc \<Longrightarrow> oc_seq oc = openSeq (service c) \<Longrightarrow>
     pendingCancel (service c) = Some k \<and> pendingOwner (service c) = oc_owner oc"
  "seq_ok c \<Longrightarrow> opens c k = Some oc \<Longrightarrow> opens c k' = Some oc' \<Longrightarrow> oc_seq oc = oc_seq oc' \<Longrightarrow> k = k'"
  unfolding seq_ok_def by blast+

lemma seq_okI:
  assumes "\<And>k oc. opens c k = Some oc \<Longrightarrow> oc_seq oc \<le> openSeq (service c)"
    "\<And>k oc. opens c k = Some oc \<Longrightarrow> oc_seq oc = openSeq (service c) \<Longrightarrow>
       pendingCancel (service c) = Some k \<and> pendingOwner (service c) = oc_owner oc"
    "\<And>k k' oc oc'. opens c k = Some oc \<Longrightarrow> opens c k' = Some oc' \<Longrightarrow> oc_seq oc = oc_seq oc' \<Longrightarrow> k = k'"
  shows "seq_ok c"
  using assms unfolding seq_ok_def by blast

lemma seq_ok_same:
  assumes "seq_ok c" "opens c' = opens c" "openSeq (service c') = openSeq (service c)"
    "pendingCancel (service c') = pendingCancel (service c)" "pendingOwner (service c') = pendingOwner (service c)"
  shows "seq_ok c'"
  using assms unfolding seq_ok_def by simp

lemma seq_ok_phase: "seq_ok c \<Longrightarrow> opens c k = Some oc \<Longrightarrow> seq_ok (at_phase c k oc ph)"
  unfolding seq_ok_def at_phase_simps by (auto split: if_splits)

lemma seq_ok_begin:
  assumes ok: "seq_ok c" and b: "beginOpen k owner (service c) = (old, n, b)"
  shows "seq_ok (c\<lparr>service := b, opens := (opens c)(k \<mapsto> \<lparr>oc_seq = n, oc_owner = owner, oc_phase = Begun\<rparr>)\<rparr>)"
proof -
  have n: "n = openSeq (service c) + 1" "openSeq b = n" "pendingCancel b = Some k" "pendingOwner b = owner"
    using b by (auto simp: beginOpen_def Let_def)
  have less: "oc_seq oc < n" if "opens c k' = Some oc" for k' oc
    using seq_okD(1) [OF ok that] n(1) by simp
  show ?thesis
    using seq_okD(3) [OF ok] n less by (auto simp: seq_ok_def less_imp_le dest: less split: if_splits)
qed

lemma seq_ok_end:
  assumes ok: "seq_ok c" and oc: "opens c k = Some oc"
  shows "seq_ok (c\<lparr>service := endOpen (oc_seq oc) (service c), opens := (opens c)(k := None)\<rparr>)"
proof -
  have "oc_seq oc' \<noteq> openSeq (service c)" if "opens c k' = Some oc'" "k' \<noteq> k" "openSeq (service c) = oc_seq oc" for k' oc'
    using seq_okD(3) [OF ok that(1) oc] that by auto
  then show ?thesis
    using seq_okD [OF ok] by (auto simp: seq_ok_def endOpen_def split: if_splits)
qed

lemma seq_ok_token:
  assumes ok: "seq_ok c" and b: "closeForToken_begin owner (service c) = (old, is, b)"
  shows "seq_ok (c\<lparr>service := b\<rparr>)"
proof (cases "pendingCancel (service c) \<noteq> None \<and> pendingOwner (service c) = owner")
  case True
  then have "openSeq b = openSeq (service c) + 1" using b by (auto simp: closeForToken_begin_def Let_def)
  moreover have "oc_seq oc < openSeq (service c) + 1" if "opens c k = Some oc" for k oc
    using seq_okD(1) [OF ok that] by simp
  ultimately show ?thesis
    by (intro seq_okI) (auto simp: less_imp_le dest: seq_okD(1) [OF ok] seq_okD(3) [OF ok])
next
  case False
  then have "b = service c" using b by (auto simp: closeForToken_begin_def Let_def)
  with ok show ?thesis by (simp add: seq_ok_def)
qed

lemma seq_ok_step: "ble_step c c' \<Longrightarrow> seq_ok c \<Longrightarrow> seq_ok c'"
proof (induction rule: ble_step.induct)
  case (bs_register c k oc s b)
  then have "seq_ok (at_phase c k oc Ending)" by (intro seq_ok_phase)
  moreover have "openSeq b = openSeq (service c)" "pendingCancel b = pendingCancel (service c)"
    "pendingOwner b = pendingOwner (service c)" using bs_register(6) by (auto simp: register_Inr)
  ultimately show ?case by (elim seq_ok_same) simp_all
next
  case (bs_preempt c k oc i "is")
  have "seq_ok (take_out i c)" using bs_preempt(3) by (rule seq_ok_same) simp_all
  with bs_preempt show ?case by (intro seq_ok_phase) simp_all
next
  case (bs_acquire c k oc)
  then have "seq_ok (at_phase c k oc Holding)" by (intro seq_ok_phase)
  then show ?case by (rule seq_ok_same) simp_all
next
  case (bs_back_out c k oc)
  then have "seq_ok (at_phase c k oc Ending)" by (intro seq_ok_phase)
  then show ?case by (rule seq_ok_same) simp_all
next
  case (bs_close c i)
  then show ?case by (rule seq_ok_same) simp_all
next
  case (bs_reap i now c s b)
  from bs_reap(2) show ?case by (rule seq_ok_same) simp_all
next
  case (bs_release i c)
  from bs_release(2) show ?case by (rule seq_ok_same) simp_all
next
  case (bs_touch c i now)
  then show ?case by (rule seq_ok_same) simp_all
qed (simp_all add: seq_ok_phase seq_ok_begin seq_ok_end seq_ok_token)

lemma age_okD: "age_ok c \<Longrightarrow> opens c k = Some oc \<Longrightarrow> older_gone c oc"
  by (simp add: age_ok_def)

lemma older_gone_mono:
  "older_gone c oc \<Longrightarrow> ids c' \<subseteq> ids c \<Longrightarrow> registered_as c' = registered_as c \<Longrightarrow> older_gone c' oc"
  by (auto split: phase.splits)

lemma age_ok_mono:
  "age_ok c \<Longrightarrow> opens c' = opens c \<Longrightarrow> ids c' \<subseteq> ids c \<Longrightarrow> registered_as c' = registered_as c \<Longrightarrow> age_ok c'"
  unfolding age_ok_def using older_gone_mono by metis

lemma age_ok_phase:
  assumes "age_ok c" "older_gone c (oc\<lparr>oc_phase := ph\<rparr>)"
  shows "age_ok (at_phase c k oc ph)"
proof -
  have "older_gone (at_phase c k oc ph) x = older_gone c x" for x by (simp split: phase.splits)
  with assms show ?thesis unfolding age_ok_def by (auto simp del: older_gone.simps split: if_splits)
qed

lemma ids_sessions: "sessions b = sessions (service c) \<Longrightarrow> ids (c\<lparr>service := b\<rparr>) = ids c"
  by (simp add: ids_def)

lemma age_ok_register:
  assumes ok: "radio_ok c" "seq_ok c" and oc: "opens c k = Some oc" "oc_phase oc = Holding"
    and b: "register (oc_seq oc) s (service c) = Inr b"
  shows "age_ok ((at_phase c k oc Ending)\<lparr>service := b, radio := Some (BySession (s_id s)),
      registered_as := (registered_as c)(s_id s := oc_seq oc)\<rparr>)" (is "age_ok ?c")
proof -
  have "sessions b = [(s_id s, s)]"
    using b radio_idle [OF ok(1), of k] radio_holding [OF ok(1) oc] by (auto simp: register_Inr)
  then have "ids ?c = {s_id s}" by (simp add: ids_def)
  moreover have "openSeq (service c) = oc_seq oc" using b by (simp add: register_Inr)
  then have "oc_seq oc' \<le> oc_seq oc" if "opens c k' = Some oc'" for k' oc'
    using seq_okD(1) [OF ok(2) that] by simp
  ultimately show ?thesis by (auto simp: age_ok_def dest: leD split: if_splits phase.splits)
qed

lemma age_ok_step: "ble_step c c' \<Longrightarrow> radio_ok c \<Longrightarrow> seq_ok c \<Longrightarrow> age_ok c \<Longrightarrow> age_ok c'"
proof (induction rule: ble_step.induct)
  case (bs_begin c k owner old n b)
  then have "ids (c\<lparr>service := b\<rparr>) = ids c" by (intro ids_sessions) (auto simp: beginOpen_def Let_def)
  then show ?case using bs_begin(5) unfolding age_ok_def by (auto simp: ids_def split: phase.splits)
next
  case (bs_snapshot c k oc)
  then show ?case by (intro age_ok_phase) (auto simp: ids_def)
next
  case (bs_preempt c k oc i "is")
  have "age_ok (take_out i c)" using bs_preempt(5) by (rule age_ok_mono) (auto simp: take_out_ids)
  moreover have "older_gone c oc" using bs_preempt by (intro age_okD)
  ultimately show ?case using bs_preempt(2) by (intro age_ok_phase) (auto simp: take_out_ids)
next
  case (bs_preempted c k oc)
  moreover have "older_gone c oc" using bs_preempted by (intro age_okD)
  ultimately show ?case by (intro age_ok_phase) (auto simp: not_less)
next
  case (bs_acquire c k oc)
  moreover have "older_gone c oc" using bs_acquire by (intro age_okD)
  ultimately have "age_ok (at_phase c k oc Holding)" by (intro age_ok_phase) auto
  then show ?case by (rule age_ok_mono) (auto simp: ids_def)
next
  case (bs_register c k oc s b)
  then show ?case by (intro age_ok_register)
next
  case (bs_back_out c k oc)
  then have "age_ok (at_phase c k oc Ending)" by (intro age_ok_phase) auto
  then show ?case by (rule age_ok_mono) (auto simp: ids_def)
next
  case (bs_end c k oc)
  then show ?case unfolding age_ok_def by (auto simp: ids_def endOpen_def split: phase.splits if_splits)
next
  case (bs_token owner c old "is" b)
  from bs_token(4) show ?case
    by (rule age_ok_mono) (use token_simps [OF bs_token(1)] in \<open>auto simp: ids_def\<close>)
next
  case (bs_touch c i now)
  from bs_touch(3) show ?case
    by (rule age_ok_mono) (use touch_simps(1) [of i now "service c"] in \<open>auto simp: ids_def simp flip: set_map\<close>)
next
  case (bs_close c i)
  from bs_close(3) show ?case by (rule age_ok_mono) (auto simp: take_out_ids)
next
  case (bs_reap i now c s b)
  from bs_reap(4) show ?case by (rule age_ok_mono) (auto simp: take_out_ids)
next
  case (bs_release i c)
  from bs_release(4) show ?case by (rule age_ok_mono) (auto simp: ids_def)
next
  case (bs_fail c k oc)
  then show ?case by (intro age_ok_phase) auto
qed

lemma ble_reachable: "ble_step\<^sup>*\<^sup>* initial_ble c \<Longrightarrow> radio_ok c \<and> seq_ok c \<and> age_ok c"
proof (induction rule: rtranclp_induct)
  case base
  then show ?case
    by (simp add: initial_ble_def NewBLESessionService_def radio_ok_def seq_ok_def age_ok_def ids_def)
next
  case (step y z)
  then show ?case by (blast intro: radio_ok_step seq_ok_step age_ok_step)
qed

text \<open>A run for evaluation: one \<^verbatim>\<open>Open\<close> of owner 7 up to the acquisition.\<close>

definition example_at :: "phase \<Rightarrow> holder option \<Rightarrow> ble_conf" where
  "example_at ph r = initial_ble\<lparr>service := \<lparr>sessions = [], openSeq = 1, pendingCancel = Some 0, pendingOwner = 7\<rparr>,
     radio := r, opens := [0 \<mapsto> \<lparr>oc_seq = 1, oc_owner = 7, oc_phase = ph\<rparr>]\<rparr>"

lemma example_acquiring: "ble_step\<^sup>*\<^sup>* initial_ble (example_at Acquiring None)"
proof -
  have "ble_step initial_ble (example_at Begun None)"
    using bs_begin [of initial_ble 0 7 None 1 "\<lparr>sessions = [], openSeq = 1, pendingCancel = Some 0, pendingOwner = 7\<rparr>"]
    by (simp add: example_at_def initial_ble_def beginOpen_def NewBLESessionService_def)
  moreover have "ble_step (example_at Begun None) (example_at (Preempting []) None)"
    using bs_snapshot [of "example_at Begun None" 0 "\<lparr>oc_seq = 1, oc_owner = 7, oc_phase = Begun\<rparr>"]
    by (simp add: example_at_def at_phase_def initial_ble_def)
  moreover have "ble_step (example_at (Preempting []) None) (example_at Acquiring None)"
    using bs_preempted [of "example_at (Preempting []) None" 0 "\<lparr>oc_seq = 1, oc_owner = 7, oc_phase = Preempting []\<rparr>"]
    by (simp add: example_at_def at_phase_def initial_ble_def)
  ultimately show ?thesis
    by (blast intro: converse_rtranclp_into_rtranclp rtranclp.rtrancl_refl)
qed

subsection \<open>Properties of the service\<close>

text \<open>
  C17: at most one session is alive, and it is the one that holds the radio, whatever opens,
  take-overs, closes, reaps and token removals interleave; an \<^verbatim>\<open>Open\<close> between its acquisition and its
  registration is then the only user of the radio.
\<close>

theorem at_most_one_session:
  assumes "ble_step\<^sup>*\<^sup>* initial_ble c"
  shows "length (sessions (service c)) \<le> 1 \<and>
     (\<forall>i \<in> fst ` set (sessions (service c)). radio c = Some (BySession i)) \<and>
     (\<forall>k oc. opens c k = Some oc \<longrightarrow> oc_phase oc = Holding \<longrightarrow> sessions (service c) = [])"
proof -
  have ok: "radio_ok c" using ble_reachable [OF assms] by blast
  then have ids: "\<forall>i \<in> ids c. radio c = Some (BySession i)" and d: "distinct (map fst (sessions (service c)))"
    unfolding radio_ok_def by blast+
  have "card (ids c) \<le> 1" using ids by (metis card_le_Suc0_iff_eq One_nat_def finite_imageI finite_set holder.inject(2) ids_def option.inject)
  then have "length (sessions (service c)) \<le> 1" using distinct_card [OF d] by (simp add: ids_def)
  moreover have "sessions (service c) = []" if "opens c k = Some oc" "oc_phase oc = Holding" for k oc
    using radio_idle [OF ok] radio_holding [OF ok that] by blast
  ultimately show ?thesis using ids by (auto simp: ids_def)
qed

theorem at_most_one_session_witness: "length (sessions (service (example_at Acquiring None))) \<le> 1"
  using at_most_one_session [OF example_acquiring] by simp

text \<open>
  The newest open wins.  Once an \<^verbatim>\<open>Open\<close> has finished its take-over, no session that an earlier
  \<^verbatim>\<open>Open\<close> registered is alive, and none can be registered any more: only the call with the latest
  number registers.
\<close>

theorem newest_open_wins:
  assumes "ble_step\<^sup>*\<^sup>* initial_ble c" "opens c k = Some oc" "oc_phase oc = Acquiring \<or> oc_phase oc = Holding"
  shows "(\<forall>i \<in> fst ` set (sessions (service c)). oc_seq oc \<le> registered_as c i) \<and>
     (\<forall>k' oc' s. opens c k' = Some oc' \<longrightarrow> oc_seq oc' < oc_seq oc \<longrightarrow>
        register (oc_seq oc') s (service c) = Inl ErrBLEOpenSuperseded)"
proof -
  have ok: "seq_ok c" "age_ok c" using ble_reachable [OF assms(1)] by blast+
  have "older_gone c oc" using ok(2) assms(2) by (rule age_okD)
  moreover have "oc_seq oc \<le> openSeq (service c)" using seq_okD(1) [OF ok(1) assms(2)] .
  ultimately show ?thesis using assms(3) by (fastforce simp: ids_def register_def)
qed

theorem newest_open_wins_witness: "\<exists>oc. opens (example_at Acquiring None) 0 = Some oc \<and>
    (\<forall>i \<in> fst ` set (sessions (service (example_at Acquiring None))). oc_seq oc \<le> registered_as (example_at Acquiring None) i)"
proof -
  have "opens (example_at Acquiring None) 0 = Some \<lparr>oc_seq = 1, oc_owner = 7, oc_phase = Acquiring\<rparr>"
    by (simp add: example_at_def)
  with newest_open_wins [OF example_acquiring this] show ?thesis by simp
qed

lemma openSeq_mono: "ble_step c c' \<Longrightarrow> openSeq (service c) \<le> openSeq (service c')"
  by (induction rule: ble_step.induct)
    (auto simp: beginOpen_def endOpen_def register_Inr closeForToken_begin_def Let_def split: if_splits)

lemma openSeq_mono_steps: "ble_step\<^sup>*\<^sup>* c c' \<Longrightarrow> openSeq (service c) \<le> openSeq (service c')"
  by (induction rule: rtranclp_induct) (auto dest: openSeq_mono intro: order_trans)



text \<open>
  The waits are bounded.  An exchange waits more than nothing and at most 30 s, whatever time-out
  the client sends; and a session that is not used is reaped at the reaper's next look: if it sleeps,
  it sleeps at most five minutes and a second, and the look after that closes the session unless it
  was touched in between.
\<close>

theorem waits_are_bounded:
  assumes "map_of (sessions b) i = Some s" "s_lastUsed s \<le> now" "reaper_check i now b = (Sleep w, b')"
  shows "0 < clamp_timeout t \<and> clamp_timeout t \<le> 30 * 1000000000 \<and> b' = b \<and>
     0 < w \<and> w \<le> 301 * 1000000000 \<and> fst (reaper_check i (now + w) b) = Reap s \<and>
     map_of (sessions (snd (reaper_check i (now + w) b))) i = None"
  using assms
  by (auto simp: clamp_timeout_def bleSessionDefaultTimeout_def bleSessionMaxTimeout_def reaper_check_def
      bleSessionTTL_def delete_session_def Let_def map_of_eq_None_iff split: if_splits)

theorem waits_are_bounded_witness:
  "fst (reaper_check ''a'' (1000000000 + 300000000000)
     (NewBLESessionService\<lparr>sessions := [(''a'', newInternalSession ''a'' ''v'' 0)]\<rparr>)) =
   Reap (newInternalSession ''a'' ''v'' 0)"
  using waits_are_bounded [of "NewBLESessionService\<lparr>sessions := [(''a'', newInternalSession ''a'' ''v'' 0)]\<rparr>" "''a''"
      "newInternalSession ''a'' ''v'' 0" 1000000000 300000000000 _ 0]
  by (simp add: reaper_check_def newInternalSession_def bleSessionTTL_def)

end
