(* ===== verification/Firewall.thy ===== *)
theory Firewall
  imports DNS_Config Go_Net
begin

text \<open>
  \<^verbatim>\<open>internal/services/firewall.go\<close>: the stored rules, the generated nftables configuration and the check
  of the live ruleset.  The resolver is a parameter: \<open>lookup\<close> gives the addresses of a host name as
  byte lists, or nothing when the lookup fails.  What the kernel does with the text is not part of the
  code; the verdict of a chain is stated over the rules the text is printed from.
\<close>

subsection \<open>Stored rules\<close>

definition rule_check :: "FirewallRule \<Rightarrow> bool" where
  "rule_check r \<longleftrightarrow> r_direction r \<in> {''inbound'', ''outbound'', ''forward''} \<and>
     r_protocol r \<in> {''tcp'', ''udp'', ''icmp'', ''all''} \<and> r_action r \<in> {''drop'', ''reject'', ''accept''}"

definition rule_order :: "FirewallRule \<Rightarrow> FirewallRule \<Rightarrow> bool" where
  "rule_order a b \<longleftrightarrow> r_priority a < r_priority b \<or> r_priority a = r_priority b \<and> r_id a \<le> r_id b"

definition ListRules :: "faults \<Rightarrow> db \<Rightarrow> FirewallRule list option" where
  "ListRules fails d = (if fails ''query firewall rules'' then None else Some (sort_by rule_order (firewall_rules d)))"

definition CreateRule :: "faults \<Rightarrow> FirewallRule \<Rightarrow> db \<Rightarrow> (int \<times> db) option" where
  "CreateRule fails r d =
     (let i = rules_seq d + 1 in
      if fails ''insert firewall rule'' \<or> \<not> rule_check r then None
      else Some (i, d\<lparr>rules_seq := i, firewall_rules := firewall_rules d @ [r\<lparr>r_id := i\<rparr>]\<rparr>))"

definition UpdateRule :: "faults \<Rightarrow> int \<Rightarrow> FirewallRule \<Rightarrow> db \<Rightarrow> db option" where
  "UpdateRule fails i r d =
     (if fails ''update firewall rule'' \<or> i \<in> r_id ` set (firewall_rules d) \<and> \<not> rule_check r then None
      else Some (d\<lparr>firewall_rules := map (\<lambda>x. if r_id x = i then r\<lparr>r_id := i\<rparr> else x) (firewall_rules d)\<rparr>))"

definition DeleteRule :: "faults \<Rightarrow> int \<Rightarrow> db \<Rightarrow> db option" where
  "DeleteRule fails i d =
     (if fails ''delete firewall rule'' then None
      else Some (d\<lparr>firewall_rules := filter (\<lambda>x. r_id x \<noteq> i) (firewall_rules d)\<rparr>))"

subsection \<open>Devices and ports\<close>

record deviceSnapshot =
  sn_filtered :: "string list"
  sn_open :: "string list"
  sn_blocked :: "string list"

definition macs_with :: "string \<Rightarrow> db \<Rightarrow> string list" where
  "macs_with st d = filter ValidMAC (map (\<lambda>dev. to_lower (dev_mac dev)) (with_status st d))"

definition loadDeviceSnapshot :: "faults \<Rightarrow> db \<Rightarrow> deviceSnapshot option" where
  "loadDeviceSnapshot fails d =
     (if fails ''query device status'' then None
      else Some \<lparr>sn_filtered = macs_with DeviceStatusFiltered d, sn_open = macs_with DeviceStatusOpen d,
             sn_blocked = macs_with DeviceStatusBlocked d\<rparr>)"

definition enabled_ports :: "port_row list \<Rightarrow> db \<Rightarrow> int list" where
  "enabled_ports rows d =
     filter (\<lambda>p. 1 \<le> p \<and> p \<le> 65535) (sort_by (\<le>) (remdups (map p_port
       (filter (\<lambda>r. list_ex (\<lambda>f. f_id f = p_preset r \<and> f_enabled f) (filters d)) rows))))"

definition filterUDPPorts :: "faults \<Rightarrow> db \<Rightarrow> int list" where
  "filterUDPPorts fails d = (if fails ''filter udp ports'' then [] else enabled_ports (filter_udp_ports d) d)"

definition filterTCPPorts :: "faults \<Rightarrow> db \<Rightarrow> int list" where
  "filterTCPPorts fails d = (if fails ''filter tcp ports'' then [] else enabled_ports (filter_tcp_ports d) d)"

subsection \<open>Lines of a user rule\<close>

definition ip_string :: "nat list \<Rightarrow> string" where
  "ip_string octets = join ''.'' (map nat_str octets)"

definition resolveHostOrIP :: "(string \<Rightarrow> nat list list option) \<Rightarrow> string \<Rightarrow> string list" where
  "resolveHostOrIP lookup inp =
     (let inp = trim_space inp in
      if inp = [] then []
      else if CHR ''/'' \<in> set inp \<and> ParseCIDR inp \<noteq> None then [inp]
      else if ParseIP inp \<noteq> None then [inp]
      else case lookup inp of
        None \<Rightarrow> []
      | Some ips \<Rightarrow> map ip_string (List.map_filter To4 ips))"

definition quoted :: "string \<Rightarrow> string" where
  "quoted s = CHR 0x22 # s @ [CHR 0x22]"

definition unquote :: "string \<Rightarrow> string" where
  "unquote s = map (\<lambda>c. if c = CHR 0x22 then CHR 0x27 else c) s"

definition accept_log :: string where
  "accept_log = ''log prefix '' @ quoted ''[NETFILTER-ACCEPT] ''"

definition rule_parts :: "FirewallRule \<Rightarrow> string \<Rightarrow> string list" where
  "rule_parts r destIP =
     (if r_device_mac r \<noteq> [] then [''ether saddr '' @ to_lower (r_device_mac r)] else []) @
     (if r_protocol r \<noteq> [] \<and> r_protocol r \<noteq> ''all''
      then [if r_protocol r = ''icmp'' then ''meta l4proto icmp'' else r_protocol r] else []) @
     (if r_source_ip r \<noteq> [] then [''ip saddr '' @ r_source_ip r] else []) @
     (if destIP \<noteq> [] then [''ip daddr '' @ destIP] else []) @
     (if r_dest_port r \<noteq> [] \<and> r_protocol r \<noteq> ''icmp'' \<and> r_protocol r \<noteq> ''all''
      then [''dport '' @ r_dest_port r] else []) @
     (if r_action r = ''accept'' then [accept_log] else []) @
     [r_action r] @
     (if r_description r \<noteq> []
      then [''comment '' @ quoted (unquote (if r_dest_ip r \<noteq> [] \<and> r_dest_ip r \<noteq> destIP
              then r_description r @ '' ('' @ r_dest_ip r @ '')'' else r_description r))]
      else [])"

definition buildRuleLines :: "(string \<Rightarrow> nat list list option) \<Rightarrow> FirewallRule \<Rightarrow> string list" where
  "buildRuleLines lookup r =
     (if \<not> ValidProtocol (r_protocol r) then []
      else if r_source_ip r \<noteq> [] \<and> \<not> ValidIPOrCIDR (r_source_ip r) then []
      else if \<not> ValidPortSpec (r_dest_port r) then []
      else if r_device_mac r \<noteq> [] \<and> \<not> ValidMAC (r_device_mac r) then []
      else let destIPs = (if r_dest_ip r = [] then [[]]
                          else filter ValidIPOrCIDR (resolveHostOrIP lookup (r_dest_ip r))) in
        map (\<lambda>ip. join '' '' (rule_parts r ip)) destIPs)"

subsection \<open>The configuration\<close>

abbreviation indent :: string where
  "indent \<equiv> ''        ''"

definition iif :: "string \<Rightarrow> string" where
  "iif name = indent @ ''iifname '' @ quoted name @ '' ''"

definition filtered_nat :: "Config \<Rightarrow> string \<Rightarrow> string list" where
  "filtered_nat cfg mac =
     [iif (LANInterface cfg) @ ''ether saddr '' @ mac @ '' tcp dport 80 dnat to '' @ LANGateway cfg,
      iif (LANInterface cfg) @ ''ether saddr '' @ mac @ '' tcp dport 443 redirect to :'' @ int_str (SNIProxyPort cfg),
      iif (LANInterface cfg) @ ''ether saddr '' @ mac @ '' ip daddr != '' @ LANGateway cfg @
        '' udp dport 53 dnat to '' @ LANGateway cfg @ '':53'',
      iif (LANInterface cfg) @ ''ether saddr '' @ mac @ '' ip daddr != '' @ LANGateway cfg @
        '' tcp dport 53 dnat to '' @ LANGateway cfg @ '':53'']"

definition open_nat :: "Config \<Rightarrow> string \<Rightarrow> string list" where
  "open_nat cfg mac =
     (let upstream = hd (splitUpstreams (DNSUpstream cfg)) in
      [iif (LANInterface cfg) @ ''ether saddr '' @ mac @ '' udp dport 53 dnat to '' @ upstream @ '':53'',
       iif (LANInterface cfg) @ ''ether saddr '' @ mac @ '' tcp dport 53 dnat to '' @ upstream @ '':53''])"

definition prerouting_chain :: "Config \<Rightarrow> deviceSnapshot \<Rightarrow> string list" where
  "prerouting_chain cfg snap =
     [''    chain prerouting {'', indent @ ''type nat hook prerouting priority dstnat; policy accept;''] @
     concat (map (filtered_nat cfg) (sn_filtered snap)) @ concat (map (open_nat cfg) (sn_open snap)) @ [''    }'']"

definition postrouting_chain :: "Config \<Rightarrow> string list" where
  "postrouting_chain cfg =
     [''    chain postrouting {'', indent @ ''type nat hook postrouting priority srcnat; policy accept;'',
      indent @ ''oifname '' @ quoted (WANInterface cfg) @ '' masquerade'', ''    }'']"

definition input_chain :: "Config \<Rightarrow> string list" where
  "input_chain cfg =
     [''    chain input {'', indent @ ''type filter hook input priority filter; policy drop;'',
      indent @ ''ct state established,related accept'', indent @ ''iif lo accept''] @
     map (\<lambda>p. iif (LANInterface cfg) @ p @ '' accept'')
       [''udp dport 53'', ''tcp dport 53'', ''udp dport 67'', ''tcp dport 22'', ''tcp dport 80'', ''tcp dport 443'',
        ''tcp dport 8443'', ''tcp dport '' @ int_str (SNIProxyPort cfg)] @
     [iif ''tailscale0'' @ ''tcp dport 22 accept'', iif ''tailscale0'' @ ''tcp dport 8443 accept'', ''    }'', []]"

definition rules_for :: "(string \<Rightarrow> nat list list option) \<Rightarrow> string \<Rightarrow> FirewallRule list \<Rightarrow> string list" where
  "rules_for lookup dir rules =
     map (\<lambda>l. indent @ l) (concat (map (buildRuleLines lookup)
       (filter (\<lambda>r. r_enabled r \<and> r_direction r = dir) rules)))"

definition port_lines :: "string \<Rightarrow> int list \<Rightarrow> string list \<Rightarrow> string list" where
  "port_lines proto ports macs =
     concat (map (\<lambda>p. map (\<lambda>mac. indent @ ''ether saddr '' @ mac @ '' '' @ proto @ '' dport '' @ int_str p @
        '' ct state new '' @ accept_log @ '' accept'') macs) ports)"

definition forward_chain :: "(string \<Rightarrow> nat list list option) \<Rightarrow> int list \<Rightarrow> int list \<Rightarrow> FirewallRule list \<Rightarrow>
    deviceSnapshot \<Rightarrow> string list" where
  "forward_chain lookup udp tcp rules snap =
     [''    chain forward {'', indent @ ''type filter hook forward priority filter; policy drop;'',
      indent @ ''ct state established,related accept''] @
     map (\<lambda>mac. indent @ ''ether saddr '' @ mac @ '' drop'') (sn_blocked snap) @
     map (\<lambda>mac. indent @ ''ether saddr '' @ mac @ '' accept'') (sn_open snap) @
     rules_for lookup ''forward'' rules @
     port_lines ''udp'' udp (sn_filtered snap) @ port_lines ''tcp'' tcp (sn_filtered snap) @
     [indent @ ''ct state new log prefix '' @ quoted ''[NETFILTER-DROP] '' @ '' drop'', indent @ ''drop'', ''    }'', []]"

definition output_chain :: "(string \<Rightarrow> nat list list option) \<Rightarrow> FirewallRule list \<Rightarrow> string list" where
  "output_chain lookup rules =
     [''    chain output {'', indent @ ''type filter hook output priority filter; policy accept;''] @
     rules_for lookup ''outbound'' rules @ [''    }'']"

definition generateConfig :: "(string \<Rightarrow> nat list list option) \<Rightarrow> faults \<Rightarrow> Config \<Rightarrow> db \<Rightarrow> FirewallRule list \<Rightarrow>
    deviceSnapshot \<Rightarrow> string" where
  "generateConfig lookup fails cfg d rules snap =
     unlines ([''#!/usr/sbin/nft -f'', [], ''flush ruleset'', [], ''table ip nat {''] @
       prerouting_chain cfg snap @ postrouting_chain cfg @ [''}'', [], ''table inet filter {''] @
       input_chain cfg @ forward_chain lookup (filterUDPPorts fails d) (filterTCPPorts fails d) rules snap @
       output_chain lookup rules @ [''}''])"

definition Apply_firewall :: "(string \<Rightarrow> nat list list option) \<Rightarrow> faults \<Rightarrow> shell \<Rightarrow> Config \<Rightarrow> db \<Rightarrow> host \<Rightarrow> err \<times> host" where
  "Apply_firewall lookup fails sh cfg d h =
     (case ListRules fails d of
        None \<Rightarrow> (Some ''list rules for apply'', h)
      | Some rules \<Rightarrow>
          (case loadDeviceSnapshot fails d of
             None \<Rightarrow> (Some ''query device status'', h)
           | Some snap \<Rightarrow>
               (case write_file fails ''/etc/nftables.conf'' (generateConfig lookup fails cfg d rules snap) h of (ok, h1) \<Rightarrow>
                  if \<not> ok \<and> \<not> ex_dry_run (executor h1) then (Some ''write nftables.conf'', h1)
                  else (case Run sh ''nft'' [''-f'', ''/etc/nftables.conf''] h1 of (_, e, h2) \<Rightarrow>
                    ((if e = None then None else Some ''reload nftables''), h2)))))"

subsection \<open>Verification of the live ruleset\<close>

datatype verify_error = ForwardAbsent | NotDefaultDeny | NothingFiltered | EmptyMAC | NoRedirect string

definition redirects :: "Config \<Rightarrow> string \<Rightarrow> string \<Rightarrow> bool" where
  "redirects cfg mac line \<longleftrightarrow>
     (let line = to_lower line in
      contains line mac \<and> contains line ''dport 443'' \<and>
      contains line (''redirect to :'' @ int_str (SNIProxyPort cfg)))"

fun verify_macs :: "Config \<Rightarrow> string list \<Rightarrow> string list \<Rightarrow> verify_error option" where
  "verify_macs cfg lines [] = None"
| "verify_macs cfg lines (m # ms) =
     (let mac = to_lower (trim_space m) in
      if mac = [] then Some EmptyMAC
      else if list_ex (redirects cfg mac) lines then verify_macs cfg lines ms
      else Some (NoRedirect mac))"

definition verifyOutput :: "Config \<Rightarrow> string \<Rightarrow> string \<Rightarrow> string list \<Rightarrow> verify_error option" where
  "verifyOutput cfg prerouting fwd filtered =
     (if trim_space fwd = [] then Some ForwardAbsent
      else if \<not> contains fwd ''policy drop'' then Some NotDefaultDeny
      else if filtered = [] then Some NothingFiltered
      else verify_macs cfg (split_on (CHR 0x0A) prerouting) filtered)"

definition Verify :: "faults \<Rightarrow> shell \<Rightarrow> Config \<Rightarrow> db \<Rightarrow> host \<Rightarrow> (string + verify_error) option \<times> host" where
  "Verify fails sh cfg d h =
     (case loadDeviceSnapshot fails d of
        None \<Rightarrow> (Some (Inl ''load device snapshot for verify''), h)
      | Some snap \<Rightarrow>
          (case Run sh ''nft'' [''-nn'', ''list'', ''chain'', ''ip'', ''nat'', ''prerouting''] h of (nt, e, h1) \<Rightarrow>
             if e \<noteq> None then (Some (Inl ''read nat prerouting''), h1)
             else (case Run sh ''nft'' [''-nn'', ''list'', ''chain'', ''inet'', ''filter'', ''forward''] h1 of (fw, e, h2) \<Rightarrow>
               if e \<noteq> None then (Some (Inl ''read forward chain''), h2)
               else (map_option Inr (verifyOutput cfg (Stdout nt) (Stdout fw) (sn_filtered snap)), h2))))"

subsection \<open>The verdict of the forward chain\<close>

text \<open>
  The rules the forward chain is printed from, with first-match evaluation and the chain's default
  drop, as nftables documents it.  What a user rule matches is left open (\<open>user\<close>).
\<close>

datatype verdict = Accept | Drop

datatype fw_rule =
    Established
  | FromDevice string verdict
  | UserRule string
  | NewPort string string int
  | NewDrop
  | AnyDrop

record packet =
  pk_mac :: string
  pk_established :: bool
  pk_new :: bool
  pk_proto :: string
  pk_dport :: int

fun render :: "fw_rule \<Rightarrow> string" where
  "render Established = indent @ ''ct state established,related accept''"
| "render (FromDevice mac Accept) = indent @ ''ether saddr '' @ mac @ '' accept''"
| "render (FromDevice mac Drop) = indent @ ''ether saddr '' @ mac @ '' drop''"
| "render (UserRule l) = indent @ l"
| "render (NewPort mac proto p) = indent @ ''ether saddr '' @ mac @ '' '' @ proto @ '' dport '' @ int_str p @
     '' ct state new '' @ accept_log @ '' accept''"
| "render NewDrop = indent @ ''ct state new log prefix '' @ quoted ''[NETFILTER-DROP] '' @ '' drop''"
| "render AnyDrop = indent @ ''drop''"

fun rule_verdict :: "(string \<Rightarrow> packet \<Rightarrow> verdict option) \<Rightarrow> packet \<Rightarrow> fw_rule \<Rightarrow> verdict option" where
  "rule_verdict user pk Established = (if pk_established pk then Some Accept else None)"
| "rule_verdict user pk (FromDevice mac v) = (if pk_mac pk = mac then Some v else None)"
| "rule_verdict user pk (UserRule l) = user l pk"
| "rule_verdict user pk (NewPort mac proto p) =
     (if pk_mac pk = mac \<and> pk_proto pk = proto \<and> pk_dport pk = p \<and> pk_new pk then Some Accept else None)"
| "rule_verdict user pk NewDrop = (if pk_new pk then Some Drop else None)"
| "rule_verdict user pk AnyDrop = Some Drop"

fun chain_verdict :: "(string \<Rightarrow> packet \<Rightarrow> verdict option) \<Rightarrow> packet \<Rightarrow> fw_rule list \<Rightarrow> verdict" where
  "chain_verdict user pk [] = Drop"
| "chain_verdict user pk (r # rs) = (case rule_verdict user pk r of None \<Rightarrow> chain_verdict user pk rs | Some v \<Rightarrow> v)"

definition user_lines :: "(string \<Rightarrow> nat list list option) \<Rightarrow> FirewallRule list \<Rightarrow> string list" where
  "user_lines lookup rules = concat (map (buildRuleLines lookup)
     (filter (\<lambda>r. r_enabled r \<and> r_direction r = ''forward'') rules))"

definition port_rules :: "string \<Rightarrow> int list \<Rightarrow> string list \<Rightarrow> fw_rule list" where
  "port_rules proto ports macs = concat (map (\<lambda>p. map (\<lambda>mac. NewPort mac proto p) macs) ports)"

definition forward_rules :: "string list \<Rightarrow> int list \<Rightarrow> int list \<Rightarrow> deviceSnapshot \<Rightarrow> fw_rule list" where
  "forward_rules user_ls udp tcp snap =
     [Established] @ map (\<lambda>m. FromDevice m Drop) (sn_blocked snap) @ map (\<lambda>m. FromDevice m Accept) (sn_open snap) @
     map UserRule user_ls @ port_rules ''udp'' udp (sn_filtered snap) @ port_rules ''tcp'' tcp (sn_filtered snap) @
     [NewDrop, AnyDrop]"

lemma port_lines_render: "port_lines proto ports macs = map render (port_rules proto ports macs)"
  by (simp add: port_lines_def port_rules_def map_concat o_def)

lemma forward_chain_render:
  "forward_chain lookup udp tcp rules snap =
     [''    chain forward {'', indent @ ''type filter hook forward priority filter; policy drop;''] @
     map render (forward_rules (user_lines lookup rules) udp tcp snap) @ [''    }'', []]"
  by (simp add: forward_chain_def forward_rules_def rules_for_def user_lines_def port_lines_render o_def)

fun first_verdict :: "('a \<Rightarrow> verdict option) \<Rightarrow> 'a list \<Rightarrow> verdict option" where
  "first_verdict f [] = None"
| "first_verdict f (x # xs) = (case f x of None \<Rightarrow> first_verdict f xs | Some v \<Rightarrow> Some v)"

lemma first_verdict_append:
  "first_verdict f (as @ bs) = (case first_verdict f as of None \<Rightarrow> first_verdict f bs | Some v \<Rightarrow> Some v)"
  by (induction as) (auto split: option.splits)

lemma chain_verdict_first:
  "chain_verdict user pk rs = (case first_verdict (rule_verdict user pk) rs of None \<Rightarrow> Drop | Some v \<Rightarrow> v)"
  by (induction rs) (auto split: option.splits)

lemma first_device:
  "first_verdict (rule_verdict user pk) (map (\<lambda>m. FromDevice m v) macs) = (if pk_mac pk \<in> set macs then Some v else None)"
  by (induction macs) auto

lemma first_user:
  "first_verdict (rule_verdict user pk) (map UserRule ls) = first_verdict (\<lambda>l. user l pk) ls"
  by (induction ls) (auto split: option.splits)

lemma first_ports:
  "first_verdict (rule_verdict user pk) (port_rules proto ports macs) =
     (if pk_mac pk \<in> set macs \<and> pk_proto pk = proto \<and> pk_dport pk \<in> set ports \<and> pk_new pk then Some Accept else None)"
proof (induction ports)
  case (Cons p ports)
  have "first_verdict (rule_verdict user pk) (map (\<lambda>mac. NewPort mac proto p) macs) =
      (if pk_mac pk \<in> set macs \<and> pk_proto pk = proto \<and> pk_dport pk = p \<and> pk_new pk then Some Accept else None)"
    by (induction macs) auto
  with Cons show ?case by (auto simp: port_rules_def first_verdict_append)
qed (simp add: port_rules_def)

lemma forward_verdict:
  "chain_verdict user pk (forward_rules ls udp tcp snap) =
     (if pk_established pk then Accept
      else if pk_mac pk \<in> set (sn_blocked snap) then Drop
      else if pk_mac pk \<in> set (sn_open snap) then Accept
      else case first_verdict (\<lambda>l. user l pk) ls of
        Some v \<Rightarrow> v
      | None \<Rightarrow>
          if pk_mac pk \<in> set (sn_filtered snap) \<and> pk_new pk \<and>
             (pk_proto pk = ''udp'' \<and> pk_dport pk \<in> set udp \<or> pk_proto pk = ''tcp'' \<and> pk_dport pk \<in> set tcp)
          then Accept else Drop)"
proof -
  let ?F = "first_verdict (rule_verdict user pk)"
  have "?F (port_rules ''udp'' udp (sn_filtered snap) @ port_rules ''tcp'' tcp (sn_filtered snap) @ [NewDrop, AnyDrop]) =
      Some (if pk_mac pk \<in> set (sn_filtered snap) \<and> pk_new pk \<and>
             (pk_proto pk = ''udp'' \<and> pk_dport pk \<in> set udp \<or> pk_proto pk = ''tcp'' \<and> pk_dport pk \<in> set tcp)
          then Accept else Drop)" (is "first_verdict _ ?tail = Some ?t")
    unfolding first_verdict_append first_ports by (cases "pk_new pk") auto
  then have "?F (map UserRule ls @ ?tail) =
      Some (case first_verdict (\<lambda>l. user l pk) ls of Some v \<Rightarrow> v | None \<Rightarrow> ?t)" (is "first_verdict _ ?u = Some ?v")
    unfolding first_verdict_append first_user by (simp split: option.split)
  then have "?F (map (\<lambda>m. FromDevice m Accept) (sn_open snap) @ ?u) =
      Some (if pk_mac pk \<in> set (sn_open snap) then Accept else ?v)" (is "first_verdict _ ?o = Some ?w")
    unfolding first_verdict_append [of _ "map _ (sn_open snap)"] first_device by simp
  then have "?F (map (\<lambda>m. FromDevice m Drop) (sn_blocked snap) @ ?o) =
      Some (if pk_mac pk \<in> set (sn_blocked snap) then Drop else ?w)"
    unfolding first_verdict_append [of _ "map _ (sn_blocked snap)"] first_device by simp
  then show ?thesis
    unfolding chain_verdict_first forward_rules_def append_Cons append_Nil first_verdict.simps
    by (cases "pk_established pk") simp_all
qed

definition one_rule :: "string \<Rightarrow> FirewallRule" where
  "one_rule src = \<lparr>r_id = 1, r_description = [], r_direction = ''forward'', r_protocol = ''tcp'', r_source_ip = src,
    r_dest_ip = [], r_dest_port = ''443'', r_action = ''drop'', r_device_mac = [], r_enabled = True, r_priority = 0\<rparr>"

subsection \<open>Properties\<close>

text \<open>
  C25: the generated forward chain is default-deny.  It is printed from a list of rules whose verdict
  on a packet is: established traffic passes; a blocked device gets nothing and an open one
  everything; then the first user rule that applies decides; and otherwise only a new flow of a
  filtered device to a port that an enabled filter opens is accepted, everything else is dropped.
\<close>

theorem forward_chain_default_deny:
  "\<exists>rs. forward_chain lookup udp tcp rules snap =
      [''    chain forward {'', indent @ ''type filter hook forward priority filter; policy drop;''] @
      map render rs @ [''    }'', []] \<and>
    (\<forall>user pk. chain_verdict user pk rs =
       (if pk_established pk then Accept
        else if pk_mac pk \<in> set (sn_blocked snap) then Drop
        else if pk_mac pk \<in> set (sn_open snap) then Accept
        else case first_verdict (\<lambda>l. user l pk) (user_lines lookup rules) of
          Some v \<Rightarrow> v
        | None \<Rightarrow>
            if pk_mac pk \<in> set (sn_filtered snap) \<and> pk_new pk \<and>
               (pk_proto pk = ''udp'' \<and> pk_dport pk \<in> set udp \<or> pk_proto pk = ''tcp'' \<and> pk_dport pk \<in> set tcp)
            then Accept else Drop))"
  by (intro exI [of _ "forward_rules (user_lines lookup rules) udp tcp snap"] conjI allI)
    (rule forward_chain_render, rule forward_verdict)

subsection \<open>Applying and verifying\<close>

lemma verify_macs_None_iff:
  "verify_macs cfg ls ms = None \<longleftrightarrow>
     (\<forall>m\<in>set ms. to_lower (trim_space m) \<noteq> [] \<and> (\<exists>l\<in>set ls. redirects cfg (to_lower (trim_space m)) l))"
  by (induction ms) (auto simp: Let_def list_ex_iff)

definition redirect_tail :: "Config \<Rightarrow> string \<Rightarrow> string" where
  "redirect_tail cfg mac = ''ether saddr '' @ mac @ '' tcp dport 443 redirect to :'' @ int_str (SNIProxyPort cfg)"

lemma redirect_line:
  assumes mac: "ValidMAC mac"
  shows "redirects cfg (to_lower (trim_space mac)) (w @ redirect_tail cfg mac)"
proof -
  note v = ValidMAC_chars [OF mac]
  have "list_all ascii mac" "list_all ascii (int_str i)" for i
    using v(1) int_str_visible by (auto simp: list_all_iff visible_ascii)
  then have "list_all ascii (redirect_tail cfg mac)"
    by (simp add: redirect_tail_def ascii_def)
  then have "to_lower (w @ redirect_tail cfg mac) = to_lower w @ map lower_char (redirect_tail cfg mac)"
    by (rule to_lower_append_ascii)
  also have "\<dots> = to_lower w @ ''ether saddr '' @ map lower_char mac @ '' tcp '' @ ''dport 443'' @ '' '' @
      ''redirect to :'' @ int_str (SNIProxyPort cfg)"
    by (simp add: redirect_tail_def lower_char_def)
  finally have low: "to_lower (w @ redirect_tail cfg mac) = (to_lower w @ ''ether saddr '') @ map lower_char mac @ '' tcp '' @
      ''dport 443'' @ '' '' @ ''redirect to :'' @ int_str (SNIProxyPort cfg)" by (simp only: append.assoc)
  have "contains (a @ m @ '' tcp '' @ ''dport 443'' @ '' '' @ r) p" if "p = m \<or> p = ''dport 443'' \<or> p = r" for a m r p
    using that by (elim disjE) (simp_all add: contains_iff sublist_append del: append.simps)
  then show ?thesis
    unfolding redirects_def Let_def trim_space_id [OF v(1)] v(2) low by blast
qed

lemma macs_with_valid: "m \<in> set (macs_with st d) \<Longrightarrow> ValidMAC m"
  by (auto simp: macs_with_def)

lemma prerouting_redirect:
  assumes "mac \<in> set (sn_filtered snap)" "ValidMAC mac"
  shows "\<exists>w. w @ redirect_tail cfg mac \<in> set (split_on (CHR 0x0A) (unlines (prerouting_chain cfg snap)))"
proof -
  let ?l = "iif (LANInterface cfg) @ redirect_tail cfg mac"
  have "?l \<in> set (prerouting_chain cfg snap)"
    using assms(1) by (auto simp: prerouting_chain_def filtered_nat_def redirect_tail_def)
  then obtain as bs where "prerouting_chain cfg snap = as @ ?l # bs" by (meson split_list)
  then have "unlines (prerouting_chain cfg snap) =
      (unlines as @ iif (LANInterface cfg)) @ redirect_tail cfg mac @ CHR 0x0A # unlines bs" by simp
  moreover have "list_all visible (int_str (SNIProxyPort cfg))" "list_all visible mac"
    using ValidMAC_chars [OF assms(2)] by (simp_all add: int_str_visible)
  then have "CHR 0x0A \<notin> set (redirect_tail cfg mac)"
    using visible_no_newline by (auto simp: redirect_tail_def)
  ultimately show ?thesis by (metis split_on_suffix)
qed
lemma generated_config_verifies:
  assumes snap: "loadDeviceSnapshot fails d = Some snap" and car: "sn_filtered snap \<noteq> []"
  shows "verifyOutput cfg (unlines (prerouting_chain cfg snap)) (unlines (forward_chain lookup udp tcp rules snap))
    (sn_filtered snap) = None"
proof -
  have valid: "\<And>m. m \<in> set (sn_filtered snap) \<Longrightarrow> ValidMAC m"
    using snap macs_with_valid by (auto simp: loadDeviceSnapshot_def split: if_splits)
  let ?f = "unlines (forward_chain lookup udp tcp rules snap)"
  have "?f = (''    chain forward {'' @ nl @ indent @ ''type filter hook forward priority filter; '') @ ''policy drop'' @ '';'' @ nl @
     unlines (drop 2 (forward_chain lookup udp tcp rules snap))"
    by (simp add: forward_chain_def)
  then have f: "contains ?f ''policy drop''" by (metis contains_append)
  have "CHR ''c'' \<in> set (trim_space ?f)"
    by (rule trim_space_keeps_visible) (simp_all add: visible_def ascii_def space1_def forward_chain_def)
  then have "trim_space ?f \<noteq> []" by auto
  moreover have "to_lower (trim_space m) \<noteq> [] \<and>
      (\<exists>l\<in>set (split_on (CHR 0x0A) (unlines (prerouting_chain cfg snap))). redirects cfg (to_lower (trim_space m)) l)"
    if m: "m \<in> set (sn_filtered snap)" for m
    using prerouting_redirect [OF m valid [OF m], of cfg] redirect_line [OF valid [OF m]]
      ValidMAC_not_Nil [OF valid [OF m]] trim_space_id [OF ValidMAC_chars(1) [OF valid [OF m]]]
    by auto
  ultimately show ?thesis
    using f car by (simp add: verifyOutput_def verify_macs_None_iff)
qed

lemma Apply_firewall_ok:
  assumes "Apply_firewall lookup fails sh cfg d h = (None, h')" "\<not> ex_dry_run (executor h)"
  obtains rules snap where "ListRules fails d = Some rules" "loadDeviceSnapshot fails d = Some snap"
    "files h' ''/etc/nftables.conf'' = Some (generateConfig lookup fails cfg d rules snap)"
    "issued h' = issued h @ [(''nft'', [''-f'', ''/etc/nftables.conf''])]"
proof -
  obtain rules where r: "ListRules fails d = Some rules"
    using assms(1) by (cases "ListRules fails d") (auto simp: Apply_firewall_def)
  obtain snap where s: "loadDeviceSnapshot fails d = Some snap"
    using assms(1) r by (cases "loadDeviceSnapshot fails d") (auto simp: Apply_firewall_def)
  let ?conf = "generateConfig lookup fails cfg d rules snap"
  obtain ok h1 where w: "write_file fails ''/etc/nftables.conf'' ?conf h = (ok, h1)" by fastforce
  obtain x e h2 where n: "Run sh ''nft'' [''-f'', ''/etc/nftables.conf''] h1 = (x, e, h2)" by (metis prod_cases3)
  have h1: "\<not> ex_dry_run (executor h1)" "issued h1 = issued h"
    using w assms(2) by (auto simp: write_file_def split: if_splits)
  then have "ok" "h' = h2" using assms(1) r s w n by (auto simp: Apply_firewall_def split: if_splits)
  with that r s w n h1 Run_frame [OF n] show thesis by (auto simp: write_file_def split: if_splits)
qed


definition car_db :: db where
  "car_db = empty_db\<lparr>devices := [\<lparr>dev_id = 1, dev_mac = ''AA:BB:CC:DD:EE:FF'', dev_ip = ''10.0.0.7'', dev_hostname = [],
     dev_alias = [], dev_last_seen = 0, dev_status = ''filtered'', dev_is_blocked = False, dev_ignore_log = False\<rparr>]\<rparr>"

lemma car_snapshot:
  "loadDeviceSnapshot no_faults car_db = Some \<lparr>sn_filtered = [''aa:bb:cc:dd:ee:ff''], sn_open = [], sn_blocked = []\<rparr>"
  by code_simp

lemma car_apply:
  "fst (Apply_firewall (\<lambda>_. None) no_faults quiet_shell Defaults car_db (new_host False)) = None"
proof -
  obtain snap where "loadDeviceSnapshot (\<lambda>_. False) car_db = Some snap" by (simp add: loadDeviceSnapshot_def)
  then show ?thesis
    by (simp add: Apply_firewall_def ListRules_def no_faults_def write_file_def Run_def quiet_shell_def new_host_def
        New_executor_def record_cmd_def Let_def)
qed


subsection \<open>User rules\<close>

lemma ip_string_no_newline: "one_line (ip_string b)"
  using set_join [of "''.''" "map nat_str b"] visible_no_newline [OF nat_str_visible] by (auto simp: ip_string_def)

lemma resolveHostOrIP_one_line:
  assumes "one_line h" "x \<in> set (resolveHostOrIP lookup h)"
  shows "one_line x"
  using assms set_trim_space [of h] ip_string_no_newline
  by (auto simp: resolveHostOrIP_def Let_def map_filter_def split: if_splits option.splits)

lemma rule_parts_one_line:
  assumes "rule_check r" "r_device_mac r = [] \<or> ValidMAC (r_device_mac r)" "ValidPortSpec (r_dest_port r)"
    and "one_line ip" "one_line (r_source_ip r)" "one_line (r_dest_ip r)" "one_line (r_description r)"
  shows "\<forall>p\<in>set (rule_parts r ip). one_line p"
proof -
  have "one_line (r_protocol r)" "one_line (r_action r)" using assms(1) by (auto simp: rule_check_def)
  moreover have "one_line (to_lower (r_device_mac r))"
    using assms(2) ValidMAC_no_newline by (auto simp: newline_of_to_lower)
  moreover have "one_line (r_dest_port r)" using assms(3) ValidPortSpec_visible visible_no_newline by blast
  ultimately show ?thesis
    using assms(4-) by (auto simp: rule_parts_def accept_log_def quoted_def unquote_def)
qed


text \<open>
  A stored rule prints single lines.  A rule that meets the table's constraint and has no newline
  in its source, destination and description never breaks a line of the configuration, whatever the
  resolver returns; MAC, port and protocol are checked by the code itself.
\<close>

theorem rule_lines_are_single:
  assumes "rule_check r" "one_line (r_source_ip r)" "one_line (r_dest_ip r)" "one_line (r_description r)"
    and "l \<in> set (buildRuleLines lookup r)"
  shows "one_line l"
proof -
  have "\<exists>ip. ValidPortSpec (r_dest_port r) \<and> (r_device_mac r = [] \<or> ValidMAC (r_device_mac r)) \<and>
      (ip = [] \<or> ip \<in> set (resolveHostOrIP lookup (r_dest_ip r))) \<and> l = join '' '' (rule_parts r ip)"
    using assms(5) by (auto simp: buildRuleLines_def Let_def split: if_splits)
  then obtain ip where ok: "ValidPortSpec (r_dest_port r)" "r_device_mac r = [] \<or> ValidMAC (r_device_mac r)"
    and ip: "ip = [] \<or> ip \<in> set (resolveHostOrIP lookup (r_dest_ip r))" and l: "l = join '' '' (rule_parts r ip)"
    by blast
  from ip have "one_line ip" using resolveHostOrIP_one_line [OF assms(3)] by auto
  from rule_parts_one_line [OF assms(1) ok(2,1) this assms(2-4)] set_join [of "'' ''" "rule_parts r ip"]
  show ?thesis unfolding l by auto
qed


lemma one_rule_lines:
  "buildRuleLines (\<lambda>_. None) (one_rule ''1.2.3.4'') = [''tcp ip saddr 1.2.3.4 dport 443 drop'']"
  by code_simp

theorem rule_lines_are_single_witness:
  "buildRuleLines (\<lambda>_. None) (one_rule ''1.2.3.4'') = [''tcp ip saddr 1.2.3.4 dport 443 drop''] \<and>
   one_line ''tcp ip saddr 1.2.3.4 dport 443 drop''"
  using rule_lines_are_single [of "one_rule ''1.2.3.4''" "''tcp ip saddr 1.2.3.4 dport 443 drop''" "\<lambda>_. None"] one_rule_lines
  by (auto simp: one_rule_def rule_check_def)

text \<open>
  The source address is printed as stored although its check trims it first.  A source address
  followed by a newline is accepted and splits the rule over two lines, so the second half reaches
  nftables as a line of its own.
\<close>

theorem trailing_newline_splits_rule:
  "rule_check (one_rule (''1.2.3.4'' @ nl)) \<and>
   buildRuleLines (\<lambda>_. None) (one_rule (''1.2.3.4'' @ nl)) = [''tcp ip saddr 1.2.3.4'' @ nl @ '' dport 443 drop'']"
  by code_simp

subsection \<open>The rule table\<close>

definition rules_ok :: "db \<Rightarrow> bool" where
  "rules_ok d \<longleftrightarrow> distinct (map r_id (firewall_rules d)) \<and> list_all rule_check (firewall_rules d) \<and>
     list_all (\<lambda>r. r_id r \<le> rules_seq d) (firewall_rules d)"

inductive rule_step :: "db \<Rightarrow> db \<Rightarrow> bool" where
  create: "CreateRule fails r d = Some (i, d') \<Longrightarrow> rule_step d d'"
| update: "UpdateRule fails i r d = Some d' \<Longrightarrow> rule_step d d'"
| remove: "DeleteRule fails i d = Some d' \<Longrightarrow> rule_step d d'"

lemma rule_check_id [simp]: "rule_check (r\<lparr>r_id := i\<rparr>) = rule_check r"
  by (simp add: rule_check_def)

lemma rule_step_ok: "rule_step d d' \<Longrightarrow> rules_ok d \<Longrightarrow> rules_ok d' \<and> rules_seq d \<le> rules_seq d'"
proof (induction rule: rule_step.induct)
  case (create fails r d i d')
  then have d': "rule_check r" "d' = d\<lparr>rules_seq := rules_seq d + 1, firewall_rules := firewall_rules d @ [r\<lparr>r_id := rules_seq d + 1\<rparr>]\<rparr>"
    by (auto simp: CreateRule_def Let_def split: if_splits)
  from create.prems show ?case by (fastforce simp: d' rules_ok_def list_all_iff)
next
  case (update fails i r d d')
  let ?g = "\<lambda>x. if r_id x = i then r\<lparr>r_id := i\<rparr> else x"
  have d': "i \<in> r_id ` set (firewall_rules d) \<Longrightarrow> rule_check r" "d' = d\<lparr>firewall_rules := map ?g (firewall_rules d)\<rparr>"
    using update.hyps by (auto simp: UpdateRule_def split: if_splits)
  have "distinct (map r_id (map ?g (firewall_rules d))) = distinct (map r_id (firewall_rules d))"
    by (intro arg_cong [of _ _ distinct]) auto
  with update.prems show ?case unfolding rules_ok_def d'(2) by (auto simp: list_all_iff d'(1) simp del: map_map)
next
  case (remove fails i d d')
  then have d': "d' = d\<lparr>firewall_rules := filter (\<lambda>x. r_id x \<noteq> i) (firewall_rules d)\<rparr>"
    by (auto simp: DeleteRule_def split: if_splits)
  from remove.prems show ?case by (simp add: d' rules_ok_def list_all_iff distinct_map_filter)
qed

lemma rule_steps_ok: "rule_step\<^sup>*\<^sup>* d d' \<Longrightarrow> rules_ok d \<Longrightarrow> rules_ok d' \<and> rules_seq d \<le> rules_seq d'"
  by (induction rule: rtranclp_induct) (auto dest: rule_step_ok)


text \<open>
  C27: the rule table under any sequence of creations, updates and deletions.  Every listing is a
  permutation of the table ordered by priority and then by id, its ids are distinct, every rule meets
  the table's constraint, and a new rule gets an id that no rule of the table has.
\<close>

theorem rule_table_sound:
  assumes "firewall_rules d0 = []" "rule_step\<^sup>*\<^sup>* d0 d" "ListRules fails d = Some rs"
  shows "mset rs = mset (firewall_rules d) \<and> sorted_wrt rule_order rs \<and> distinct (map r_id rs) \<and>
    list_all rule_check rs \<and> (\<forall>f r i d'. CreateRule f r d = Some (i, d') \<longrightarrow> i \<notin> r_id ` set rs)"
proof -
  have ok: "rules_ok d" using rule_steps_ok [OF assms(2)] assms(1) by (simp add: rules_ok_def)
  have rs: "rs = sort_by rule_order (firewall_rules d)" using assms(3) by (simp add: ListRules_def split: if_splits)
  have "mset rs = mset (firewall_rules d)" unfolding rs by (rule mset_sort_by)
  moreover have "sorted_wrt rule_order rs"
    unfolding rs by (rule sorted_sort_by) (auto simp: rule_order_def)
  moreover have "distinct (map r_id rs)"
    using ok mset_eq_imp_distinct_iff [of "map r_id rs" "map r_id (firewall_rules d)"] calculation(1)
    by (simp add: rules_ok_def)
  moreover have "list_all rule_check rs" using ok by (simp add: rs rules_ok_def list_all_iff)
  moreover have "i \<notin> r_id ` set rs" if "CreateRule f r d = Some (i, d')" for f r i d'
    using that ok by (fastforce simp: CreateRule_def Let_def rs rules_ok_def list_all_iff split: if_splits)
  ultimately show ?thesis by blast
qed


theorem rule_table_sound_witness:
  "\<exists>d rs. CreateRule no_faults (one_rule ''1.2.3.4'') empty_db = Some (1, d) \<and> ListRules no_faults d = Some rs \<and>
     sorted_wrt rule_order rs \<and> distinct (map r_id rs)"
proof -
  let ?d = "empty_db\<lparr>rules_seq := 1, firewall_rules := [(one_rule ''1.2.3.4'')\<lparr>r_id := 1\<rparr>]\<rparr>"
  have c: "CreateRule no_faults (one_rule ''1.2.3.4'') empty_db = Some (1, ?d)"
    by (simp add: CreateRule_def Let_def rule_check_def one_rule_def empty_db_def no_faults_def)
  obtain rs where l: "ListRules no_faults ?d = Some rs" by (simp add: ListRules_def no_faults_def)
  have "rule_step\<^sup>*\<^sup>* empty_db ?d" using c by (blast intro: rule_step.create)
  from rule_table_sound [OF _ this l] c l show ?thesis by (auto simp: empty_db_def)
qed

end
