(* ===== verification/Hotspot.thy ===== *)
theory Hotspot
  imports Firewall
begin

text \<open>
  \<^verbatim>\<open>internal/services/hotspot.go\<close>: the generated hostapd configuration and the run state of the access
  point.  The firewall gate is a pair of hooks that \<^verbatim>\<open>services.New\<close> fills with the firewall's check
  and application; a hook runs on the host and may fail.  The promises the gate relies on are the
  locale \<open>ap_gate\<close>, interpreted below on the firewall's own operations.
\<close>

subsection \<open>Settings\<close>

definition ap_keys :: "string list" where
  "ap_keys = [''ap_ssid'', ''ap_password'', ''ap_channel'', ''ap_country'']"

definition ap_defaults :: "string \<rightharpoonup> string" where
  "ap_defaults = [''ap_ssid'' \<mapsto> ''NetFilter'', ''ap_password'' \<mapsto> ''changeme123'', ''ap_channel'' \<mapsto> ''36'',
     ''ap_country'' \<mapsto> ''00'']"

definition getSettings :: "faults \<Rightarrow> db \<Rightarrow> string \<rightharpoonup> string" where
  "getSettings fails d =
     (if fails ''read settings'' then ap_defaults
      else fold (\<lambda>(k, v) m. m(k \<mapsto> v)) (filter (\<lambda>(k, v). k \<in> set ap_keys) (settings d)) ap_defaults)"

definition setting :: "(string \<rightharpoonup> string) \<Rightarrow> string \<Rightarrow> string" where
  "setting m k = (case m k of None \<Rightarrow> [] | Some v \<Rightarrow> v)"

subsection \<open>The configuration\<close>

definition apChannelRe :: regex where
  "apChannelRe = Seq (Cls is_digit) (Upto 2 (Cls is_digit))"

definition bandFor :: "nat \<Rightarrow> (string \<times> bool) option" where
  "bandFor channel =
     (if 1 \<le> channel \<and> channel \<le> 14 then Some (''g'', False)
      else if 36 \<le> channel \<and> channel \<le> 165 then Some (''a'', True)
      else None)"

definition hostapd_note :: string where
  "hostapd_note = ''# Generated by netfilterd '' @ em_dash @ '' do not edit''"

definition hostapd_lines :: "string \<Rightarrow> string \<Rightarrow> string \<Rightarrow> string \<Rightarrow> string \<Rightarrow> bool \<Rightarrow> string list" where
  "hostapd_lines ssid pass channel country hwMode is5GHz =
     [hostapd_note, ''interface=wlan0'', ''driver=nl80211'', ''ssid='' @ ssid, ''hw_mode='' @ hwMode,
      ''channel='' @ channel, ''country_code='' @ country, ''ieee80211d=1'', ''ieee80211n=1''] @
     (if is5GHz then [''ieee80211ac=1'', ''ieee80211h=1''] else []) @
     [''wmm_enabled=1'', ''macaddr_acl=0'', ''auth_algs=1'', ''ignore_broadcast_ssid=0'', ''wpa=2'',
      ''wpa_passphrase='' @ pass, ''wpa_key_mgmt=WPA-PSK'', ''rsn_pairwise=CCMP'']"

datatype hotspot_error =
    PassphraseTooShort
  | InvalidChannel string
  | NoBand nat
  | WriteFailed
  | RunFailed string
  | NoGate
  | Unverified string "string option"

abbreviation hostapd_path :: string where
  "hostapd_path \<equiv> ''/etc/hostapd/hostapd.conf''"

definition Apply_hotspot :: "faults \<Rightarrow> shell \<Rightarrow> db \<Rightarrow> host \<Rightarrow> hotspot_error option \<times> host" where
  "Apply_hotspot fails sh d h =
     (let s = getSettings fails d;
          ssid = SanitizeSingleLine (setting s ''ap_ssid'');
          pass = SanitizeSingleLine (setting s ''ap_password'');
          channel = SanitizeSingleLine (setting s ''ap_channel'');
          country = SanitizeSingleLine (setting s ''ap_country'') in
      if length pass < 8 then (Some PassphraseTooShort, h)
      else if \<not> matches apChannelRe channel then (Some (InvalidChannel channel), h)
      else (case bandFor (dec_val channel) of
         None \<Rightarrow> (Some (NoBand (dec_val channel)), h)
       | Some (hwMode, is5GHz) \<Rightarrow>
           let country = (if country = [] then ''00'' else country);
               conf = unlines (hostapd_lines ssid pass channel country hwMode is5GHz) in
           (case write_file fails hostapd_path conf h of (ok, h1) \<Rightarrow>
              if \<not> ok \<and> \<not> ex_dry_run (executor h1) then (Some WriteFailed, h1)
              else (case Run sh ''systemctl'' [''restart'', ''hostapd''] h1 of (_, e, h2) \<Rightarrow>
                ((if e = None then None else Some (RunFailed ''restart'')), h2)))))"

subsection \<open>The run state\<close>

type_synonym hook = "host \<Rightarrow> err \<times> host"

record HotspotService =
  verifyFirewall :: "hook option"
  applyFirewall :: "hook option"

definition NewHotspotService :: HotspotService where
  "NewHotspotService = \<lparr>verifyFirewall = None, applyFirewall = None\<rparr>"

definition SetFirewallGate :: "hook option \<Rightarrow> hook option \<Rightarrow> HotspotService \<Rightarrow> HotspotService" where
  "SetFirewallGate verify app s = s\<lparr>verifyFirewall := verify, applyFirewall := app\<rparr>"

definition repair :: "hook option \<Rightarrow> hook" where
  "repair app h = (case app of None \<Rightarrow> (Some ''no firewall apply hook installed'', h) | Some f \<Rightarrow> f h)"

definition raise_check :: "HotspotService \<Rightarrow> host \<Rightarrow> hotspot_error option \<times> host" where
  "raise_check s h =
     (case verifyFirewall s of
        None \<Rightarrow> (Some NoGate, h)
      | Some verify \<Rightarrow>
          (case verify h of
             (None, h1) \<Rightarrow> (None, h1)
           | (Some _, h1) \<Rightarrow>
               (case repair (applyFirewall s) h1 of (applyErr, h2) \<Rightarrow>
                  (case verify h2 of
                     (None, h3) \<Rightarrow> (None, h3)
                   | (Some verr, h3) \<Rightarrow> (Some (Unverified verr applyErr), h3)))))"

definition run_state :: "shell \<Rightarrow> string \<Rightarrow> host \<Rightarrow> hotspot_error option \<times> host" where
  "run_state sh act h =
     (case Run sh ''systemctl'' [act, ''hostapd''] h of (_, e, h1) \<Rightarrow>
        ((if e = None then None else Some (RunFailed act)), h1))"

definition SetEnabled_ap :: "shell \<Rightarrow> HotspotService \<Rightarrow> bool \<Rightarrow> host \<Rightarrow> hotspot_error option \<times> host" where
  "SetEnabled_ap sh s up h =
     (if up then (case raise_check s h of
          (Some e, h1) \<Rightarrow> (Some e, h1)
        | (None, h1) \<Rightarrow> run_state sh ''start'' h1)
      else run_state sh ''stop'' h)"

subsection \<open>The gate as an interface\<close>

text \<open>A hook only ever lists or loads the ruleset, and keeps the mode of the executor.\<close>

definition nft_hook :: "hook \<Rightarrow> bool" where
  "nft_hook f \<longleftrightarrow> (\<forall>h e h'. f h = (e, h') \<longrightarrow>
     ex_dry_run (executor h') = ex_dry_run (executor h) \<and>
     (\<exists>cs. issued h' = issued h @ cs \<and> (\<forall>c\<in>set cs. fst c = ''nft'')))"

abbreviation start_ap :: command where "start_ap \<equiv> (''systemctl'', [''start'', ''hostapd''])"
abbreviation stop_ap :: command where "stop_ap \<equiv> (''systemctl'', [''stop'', ''hostapd''])"
abbreviation restart_ap :: command where "restart_ap \<equiv> (''systemctl'', [''restart'', ''hostapd''])"

locale ap_gate =
  fixes verify :: hook and app :: hook
  assumes verify_nft: "nft_hook verify" and app_nft: "nft_hook app"
begin

lemma hook_log:
  assumes "f = verify \<or> f = app" "f h = (e, h')"
  obtains cs where "issued h' = issued h @ cs" "start_ap \<notin> set cs" "ex_dry_run (executor h') = ex_dry_run (executor h)"
proof -
  have "nft_hook f" using assms(1) verify_nft app_nft by blast
  with assms(2) that show thesis unfolding nft_hook_def by fastforce
qed

lemma raise_check_log:
  assumes "raise_check \<lparr>verifyFirewall = Some verify, applyFirewall = Some app\<rparr> h = (e, h')"
  shows "ex_dry_run (executor h') = ex_dry_run (executor h) \<and>
    (\<exists>cs. issued h' = issued h @ cs \<and> start_ap \<notin> set cs) \<and> (e = None \<longrightarrow> (\<exists>hv. verify hv = (None, h') \<and> ex_dry_run (executor hv) = ex_dry_run (executor h)))"
proof -
  obtain e1 h1 where v1: "verify h = (e1, h1)" by fastforce
  obtain c1 where c1: "issued h1 = issued h @ c1" "start_ap \<notin> set c1" "ex_dry_run (executor h1) = ex_dry_run (executor h)"
    using v1 by (auto elim: hook_log [rotated])
  obtain e2 h2 where a: "app h1 = (e2, h2)" by fastforce
  obtain c2 where c2: "issued h2 = issued h1 @ c2" "start_ap \<notin> set c2" "ex_dry_run (executor h2) = ex_dry_run (executor h1)"
    using a by (auto elim: hook_log [rotated])
  obtain e3 h3 where v2: "verify h2 = (e3, h3)" by fastforce
  obtain c3 where c3: "issued h3 = issued h2 @ c3" "start_ap \<notin> set c3" "ex_dry_run (executor h3) = ex_dry_run (executor h2)"
    using v2 by (auto elim: hook_log [rotated])
  show ?thesis
  proof (cases e1)
    case None
    with assms v1 have "e = None" "h' = h1" by (simp_all add: raise_check_def)
    with None v1 c1 show ?thesis by blast
  next
    case (Some x)
    with assms v1 a v2 have r: "h' = h3" "e = None \<longleftrightarrow> e3 = None"
      by (auto simp: raise_check_def repair_def split: option.splits)
    have "issued h3 = issued h @ (c1 @ c2 @ c3)" "start_ap \<notin> set (c1 @ c2 @ c3)" using c1 c2 c3 by simp_all
    with r v2 c1(3) c2(3) c3(3) show ?thesis by metis
  qed
qed

lemma raised_is_verified:
  assumes "SetEnabled_ap sh \<lparr>verifyFirewall = Some verify, applyFirewall = Some app\<rparr> True h = (r, h')"
    and "\<not> ex_dry_run (executor h)" "start_ap \<in> set (drop (length (issued h)) (issued h'))"
  shows "\<exists>hv h1. verify hv = (None, h1) \<and> \<not> ex_dry_run (executor hv) \<and> issued h' = issued h1 @ [start_ap]"
proof -
  obtain e h1 where c: "raise_check \<lparr>verifyFirewall = Some verify, applyFirewall = Some app\<rparr> h = (e, h1)" by fastforce
  note log = raise_check_log [OF c]
  have "e = None"
  proof (rule ccontr)
    assume "e \<noteq> None"
    with assms(1) c have "h' = h1" by (auto simp: SetEnabled_ap_def)
    with log assms(3) show False by auto
  qed
  moreover obtain x y h2 where "Run sh ''systemctl'' [''start'', ''hostapd''] h1 = (x, y, h2)" by (metis prod_cases3)
  ultimately have "issued h' = issued h1 @ [start_ap]"
    using assms(1,2) c log Run_frame [of sh "''systemctl''" "[''start'', ''hostapd'']" h1 x y h2]
    by (auto simp: SetEnabled_ap_def run_state_def)
  with log \<open>e = None\<close> assms(2) show ?thesis by metis
qed

end

subsection \<open>The gate of the appliance\<close>

text \<open>\<^verbatim>\<open>services.New\<close> installs the firewall's own check and application as the gate.\<close>

definition Verify_hook :: "faults \<Rightarrow> shell \<Rightarrow> Config \<Rightarrow> db \<Rightarrow> hook" where
  "Verify_hook fails sh cfg d h =
     (case Verify fails sh cfg d h of (e, h') \<Rightarrow> (map_option (\<lambda>_. ''verify'') e, h'))"

definition wired :: "(string \<Rightarrow> nat list list option) \<Rightarrow> faults \<Rightarrow> shell \<Rightarrow> Config \<Rightarrow> db \<Rightarrow> HotspotService" where
  "wired lookup fails sh cfg d =
     SetFirewallGate (Some (Verify_hook fails sh cfg d)) (Some (Apply_firewall lookup fails sh cfg d)) NewHotspotService"

lemma wired_eq:
  "wired lookup fails sh cfg d =
     \<lparr>verifyFirewall = Some (Verify_hook fails sh cfg d), applyFirewall = Some (Apply_firewall lookup fails sh cfg d)\<rparr>"
  by (simp add: wired_def SetFirewallGate_def NewHotspotService_def)

abbreviation list_nat :: command where
  "list_nat \<equiv> (''nft'', [''-nn'', ''list'', ''chain'', ''ip'', ''nat'', ''prerouting''])"
abbreviation list_forward :: command where
  "list_forward \<equiv> (''nft'', [''-nn'', ''list'', ''chain'', ''inet'', ''filter'', ''forward''])"

lemma Run_ok:
  assumes "Run sh name args h = (r, None, h')" "\<not> ex_dry_run (executor h)"
  shows "\<exists>errs. sh (issued h) (name, args) = (Stdout r, errs, None)"
  using assms
  by (auto simp: Run_def Let_def record_cmd_def split: prod.splits option.splits proc_error.splits if_splits)

lemma Verify_nft: "nft_hook (Verify_hook fails sh cfg d)"
  unfolding nft_hook_def
proof (intro allI impI)
  fix h e h'
  assume v: "Verify_hook fails sh cfg d h = (e, h')"
  obtain r1 e1 h1 where n: "Run sh (fst list_nat) (snd list_nat) h = (r1, e1, h1)" by (metis prod_cases3)
  obtain r2 e2 h2 where f: "Run sh (fst list_forward) (snd list_forward) h1 = (r2, e2, h2)" by (metis prod_cases3)
  have "h' \<in> {h, h1, h2}"
    using v n f by (auto simp: Verify_hook_def Verify_def split: option.splits if_splits)
  then show "ex_dry_run (executor h') = ex_dry_run (executor h) \<and>
      (\<exists>cs. issued h' = issued h @ cs \<and> (\<forall>c\<in>set cs. fst c = ''nft''))"
    using Run_frame [OF n] Run_frame [OF f] by (cases "ex_dry_run (executor h)") auto
qed

lemma Apply_nft: "nft_hook (Apply_firewall lookup fails sh cfg d)"
  unfolding nft_hook_def
proof (intro allI impI)
  fix h e h'
  assume a: "Apply_firewall lookup fails sh cfg d h = (e, h')"
  have "h' = h \<or> (\<exists>conf ok h1 r e2. write_file fails ''/etc/nftables.conf'' conf h = (ok, h1) \<and>
      (h' = h1 \<or> Run sh ''nft'' [''-f'', ''/etc/nftables.conf''] h1 = (r, e2, h')))"
    using a by (auto simp: Apply_firewall_def split: option.splits prod.splits if_splits)
  then show "ex_dry_run (executor h') = ex_dry_run (executor h) \<and>
      (\<exists>cs. issued h' = issued h @ cs \<and> (\<forall>c\<in>set cs. fst c = ''nft''))"
  proof (elim disjE exE conjE)
    fix conf ok h1 r e2
    assume w: "write_file fails ''/etc/nftables.conf'' conf h = (ok, h1)"
      and r: "Run sh ''nft'' [''-f'', ''/etc/nftables.conf''] h1 = (r, e2, h')"
    from w have "executor h1 = executor h" "issued h1 = issued h" by (auto simp: write_file_def split: if_splits)
    with Run_frame [OF r] show ?thesis by (cases "ex_dry_run (executor h)") auto
  qed (auto simp: write_file_def split: if_splits)
qed

interpretation fw: ap_gate "Verify_hook fails sh cfg d" "Apply_firewall lookup fails sh cfg d"
  for fails sh cfg d lookup
  by unfold_locales (rule Verify_nft, rule Apply_nft)

lemma Verify_hook_ok:
  assumes "Verify_hook fails sh cfg d h = (None, h')" "\<not> ex_dry_run (executor h)"
  shows "\<exists>snap n f x y. loadDeviceSnapshot fails d = Some snap \<and> issued h' = issued h @ [list_nat, list_forward] \<and>
     sh (issued h) list_nat = (n, x, None) \<and> sh (issued h @ [list_nat]) list_forward = (f, y, None) \<and>
     verifyOutput cfg n f (sn_filtered snap) = None"
proof -
  obtain r1 e1 h1 where n: "Run sh (fst list_nat) (snd list_nat) h = (r1, e1, h1)" by (metis prod_cases3)
  obtain r2 e2 h2 where f: "Run sh (fst list_forward) (snd list_forward) h1 = (r2, e2, h2)" by (metis prod_cases3)
  obtain snap where s: "loadDeviceSnapshot fails d = Some snap"
    using assms(1) by (cases "loadDeviceSnapshot fails d") (auto simp: Verify_hook_def Verify_def)
  have ok: "e1 = None" "e2 = None" "h' = h2" "verifyOutput cfg (Stdout r1) (Stdout r2) (sn_filtered snap) = None"
    using assms(1) n f s by (auto simp: Verify_hook_def Verify_def split: if_splits)
  have h1: "\<not> ex_dry_run (executor h1)" "issued h1 = issued h @ [list_nat]"
    using Run_frame [OF n] assms(2) by simp_all
  with ok Run_frame [OF f] have "issued h' = issued h @ [list_nat, list_forward]" by simp
  with s ok Run_ok [of sh _ _ h r1 h1] Run_ok [of sh _ _ h1 r2 h2] n f h1 assms(2) show ?thesis by fastforce
qed

subsection \<open>Properties\<close>


definition good_shell :: shell where
  "good_shell log c =
     (if c = list_nat then (redirect_tail Defaults ''aa:bb:cc:dd:ee:ff'', [], None)
      else if c = list_forward then (''policy drop;'', [], None)
      else ([], [], None))"

lemma good_output:
  "verifyOutput Defaults (redirect_tail Defaults ''aa:bb:cc:dd:ee:ff'') ''policy drop;'' [''aa:bb:cc:dd:ee:ff''] = None"
proof -
  have mac: "ValidMAC ''aa:bb:cc:dd:ee:ff''" by code_simp
  have "one_line (int_str (SNIProxyPort Defaults))" by (rule visible_no_newline, rule int_str_visible)
  then have "one_line (redirect_tail Defaults ''aa:bb:cc:dd:ee:ff'')" by (simp add: redirect_tail_def)
  moreover have "trim_space ''policy drop;'' \<noteq> []" "contains ''policy drop;'' ''policy drop''"
    "trim_space ''aa:bb:cc:dd:ee:ff'' = ''aa:bb:cc:dd:ee:ff''" by code_simp+
  ultimately show ?thesis
    using redirect_line [OF mac, of Defaults "[]"] by (simp add: verifyOutput_def Let_def)
qed

lemma good_verify: "Verify_hook no_faults good_shell Defaults car_db (new_host False) =
    (None, (new_host False)\<lparr>issued := [list_nat, list_forward]\<rparr>)"
  using car_snapshot good_output
  by (simp add: Verify_hook_def Verify_def Run_def Let_def record_cmd_def new_host_def New_executor_def good_shell_def)

lemma good_raise: "SetEnabled_ap good_shell (wired (\<lambda>_. None) no_faults good_shell Defaults car_db) True (new_host False) =
    (None, (new_host False)\<lparr>issued := [list_nat, list_forward, start_ap]\<rparr>)"
proof -
  have "run_state good_shell ''start'' ((new_host False)\<lparr>issued := [list_nat, list_forward]\<rparr>) =
      (None, (new_host False)\<lparr>issued := [list_nat, list_forward, start_ap]\<rparr>)"
    by (simp add: run_state_def Run_def Let_def record_cmd_def new_host_def New_executor_def good_shell_def)
  then show ?thesis
    by (simp add: SetEnabled_ap_def raise_check_def wired_eq good_verify)
qed


text \<open>
  Lowering the access point depends on nothing, and raising it without a gate does nothing.
  Whatever the gate holds, lowering issues exactly \<^verbatim>\<open>systemctl stop hostapd\<close>; a service whose gate was
  never installed refuses to raise and leaves the host as it was; and when the firewall cannot be
  verified even after the repair, no command but those of the gate is issued.
\<close>

theorem ap_lowering_is_ungated:
  "issued (snd (SetEnabled_ap sh s False h)) = issued h @ (if ex_dry_run (executor h) then [] else [stop_ap]) \<and>
   SetEnabled_ap sh NewHotspotService True h = (Some NoGate, h) \<and>
   SetEnabled_ap sh (SetFirewallGate (Some (\<lambda>h. (Some e, h))) app s) True h =
     (Some (Unverified e (fst (repair app h))), snd (repair app h))"
proof -
  obtain x y h1 where "Run sh ''systemctl'' [''stop'', ''hostapd''] h = (x, y, h1)" by (metis prod_cases3)
  with Run_frame [OF this] show ?thesis
    by (auto simp: SetEnabled_ap_def run_state_def raise_check_def NewHotspotService_def SetFirewallGate_def
        split: prod.splits)
qed

subsection \<open>The configuration file\<close>

definition directive :: "string \<Rightarrow> string" where
  "directive l = takeWhile (\<lambda>c. c \<noteq> CHR ''='') l"

definition hostapd_directives :: "bool \<Rightarrow> string list" where
  "hostapd_directives is5GHz =
     [''interface'', ''driver'', ''ssid'', ''hw_mode'', ''channel'', ''country_code'', ''ieee80211d'', ''ieee80211n''] @
     (if is5GHz then [''ieee80211ac'', ''ieee80211h''] else []) @
     [''wmm_enabled'', ''macaddr_acl'', ''auth_algs'', ''ignore_broadcast_ssid'', ''wpa'', ''wpa_passphrase'',
      ''wpa_key_mgmt'', ''rsn_pairwise'']"

lemma sanitized_one_line: "one_line (SanitizeSingleLine s)"
  by (auto simp: SanitizeSingleLine_def)

lemma apChannelRe_iff: "matches apChannelRe s \<longleftrightarrow> s \<noteq> [] \<and> length s \<le> 3 \<and> list_all is_digit s"
  by (cases s) (auto simp: matches_lang apChannelRe_def Upto_Cls simp del: Upto.simps)

lemma hostapd_lines_one_line:
  assumes "one_line ssid" "one_line pass" "one_line channel" "one_line country" "one_line hw"
  shows "\<forall>l\<in>set (hostapd_lines ssid pass channel country hw b). one_line l"
  using assms by (cases b) (simp_all add: hostapd_lines_def hostapd_note_def em_dash_def)

lemma hostapd_lines_directives:
  "map directive (tl (hostapd_lines ssid pass channel country hw b)) = hostapd_directives b"
  by (simp add: hostapd_lines_def hostapd_directives_def directive_def)

lemma Apply_hotspot_ok:
  assumes "Apply_hotspot fails sh d h = (None, h')" "\<not> ex_dry_run (executor h)"
  obtains ssid pass channel country hw b where
    "one_line ssid" "one_line pass" "one_line channel" "one_line country" "8 \<le> length pass"
    "matches apChannelRe channel" "bandFor (dec_val channel) = Some (hw, b)"
    "files h' hostapd_path = Some (unlines (hostapd_lines ssid pass channel country hw b))"
    "issued h' = issued h @ [restart_ap]"
proof -
  define s where "s = getSettings fails d"
  define pass where "pass = SanitizeSingleLine (setting s ''ap_password'')"
  define channel where "channel = SanitizeSingleLine (setting s ''ap_channel'')"
  define country where "country = SanitizeSingleLine (setting s ''ap_country'')"
  let ?country = "if country = [] then ''00'' else country"
  note defs = s_def [symmetric] pass_def [symmetric] channel_def [symmetric] country_def [symmetric]
  have p: "\<not> length pass < 8" "matches apChannelRe channel"
    using assms(1) by (auto simp: Apply_hotspot_def defs Let_def split: if_splits)
  then obtain hw b where b: "bandFor (dec_val channel) = Some (hw, b)"
    using assms(1) by (cases "bandFor (dec_val channel)") (auto simp: Apply_hotspot_def defs Let_def)
  let ?conf = "unlines (hostapd_lines (SanitizeSingleLine (setting s ''ap_ssid'')) pass channel ?country hw b)"
  obtain ok h1 where w: "write_file fails hostapd_path ?conf h = (ok, h1)" by fastforce
  obtain x e h2 where r: "Run sh ''systemctl'' [''restart'', ''hostapd''] h1 = (x, e, h2)" by (metis prod_cases3)
  have h1: "\<not> ex_dry_run (executor h1)" "issued h1 = issued h" "ok \<Longrightarrow> files h1 hostapd_path = Some ?conf"
    using w assms(2) by (auto simp: write_file_def split: if_splits)
  have "ok \<and> e = None \<and> h' = h2"
    using assms(1) p b w r h1(1) by (auto simp: Apply_hotspot_def defs Let_def split: if_splits)
  moreover have "one_line pass" "one_line channel" "one_line ?country"
    by (simp_all add: pass_def channel_def country_def sanitized_one_line)
  ultimately show thesis
    using that [of "SanitizeSingleLine (setting s ''ap_ssid'')" pass channel ?country hw b] p b h1 Run_frame [OF r]
    by (simp add: sanitized_one_line)
qed

text \<open>
  The access point's configuration cannot be injected into.  Whatever the settings hold, a
  successful apply writes, after the header, exactly the fixed sequence of directives and nothing
  else; the network is WPA2 with a passphrase of at least eight characters, and the channel lies in
  the band the radio mode names.
\<close>

theorem hostapd_conf_is_closed:
  assumes "Apply_hotspot fails sh d h = (None, h')" "\<not> ex_dry_run (executor h)"
  shows "\<exists>conf ls b pass channel. files h' hostapd_path = Some conf \<and> split_on (CHR 0x0A) conf = hostapd_note # ls @ [[]] \<and>
     map directive ls = hostapd_directives b \<and> ''wpa=2'' \<in> set ls \<and>
     (''wpa_passphrase='' @ pass) \<in> set ls \<and> 8 \<le> length pass \<and>
     (''channel='' @ channel) \<in> set ls \<and> list_all is_digit channel \<and>
     (if b then 36 \<le> dec_val channel \<and> dec_val channel \<le> 165 \<and> ''hw_mode=a'' \<in> set ls
      else 1 \<le> dec_val channel \<and> dec_val channel \<le> 14 \<and> ''hw_mode=g'' \<in> set ls)"
  using assms
proof (rule Apply_hotspot_ok)
  fix ssid pass channel country hw b
  let ?ls = "hostapd_lines ssid pass channel country hw b"
  assume ol: "one_line ssid" "one_line pass" "one_line channel" "one_line country" "8 \<le> length pass"
    and ch: "matches apChannelRe channel" and b: "bandFor (dec_val channel) = Some (hw, b)"
    and f: "files h' hostapd_path = Some (unlines ?ls)"
  have hw: "hw = (if b then ''a'' else ''g'')" using b by (auto simp: bandFor_def split: if_splits)
  have "split_on (CHR 0x0A) (unlines ?ls) = ?ls @ [[]]"
    by (rule split_unlines, rule hostapd_lines_one_line) (use ol hw in auto)
  moreover have "?ls = hostapd_note # tl ?ls" by (simp add: hostapd_lines_def)
  ultimately have sp: "split_on (CHR 0x0A) (unlines ?ls) = hostapd_note # tl ?ls @ [[]]" by simp
  have mem: "''wpa=2'' \<in> set (tl ?ls)" "(''wpa_passphrase='' @ pass) \<in> set (tl ?ls)" "(''channel='' @ channel) \<in> set (tl ?ls)"
    "(''hw_mode='' @ hw) \<in> set (tl ?ls)" by (simp_all add: hostapd_lines_def)
  have band: "if b then 36 \<le> dec_val channel \<and> dec_val channel \<le> 165 \<and> ''hw_mode=a'' \<in> set (tl ?ls)
      else 1 \<le> dec_val channel \<and> dec_val channel \<le> 14 \<and> ''hw_mode=g'' \<in> set (tl ?ls)"
    using b mem(4) hw by (auto simp: bandFor_def split: if_splits)
  show ?thesis
    by (intro exI [of _ "unlines ?ls"] exI [of _ "tl ?ls"] exI [of _ b] exI [of _ pass] exI [of _ channel] conjI)
      (use f sp hostapd_lines_directives mem band ol(5) ch in \<open>auto simp: apChannelRe_iff\<close>)
qed

lemma default_settings_apply:
  assumes "getSettings fails d = ap_defaults" "\<not> fails (''write '' @ hostapd_path)"
  shows "Apply_hotspot fails quiet_shell d (new_host False) =
    (None, (new_host False)\<lparr>files := [hostapd_path \<mapsto> unlines (hostapd_lines ''NetFilter'' ''changeme123'' ''36'' ''00'' ''a'' True)],
       issued := [restart_ap]\<rparr>)"
proof -
  have "SanitizeSingleLine (setting ap_defaults ''ap_ssid'') = ''NetFilter''"
    "SanitizeSingleLine (setting ap_defaults ''ap_password'') = ''changeme123''"
    "SanitizeSingleLine (setting ap_defaults ''ap_channel'') = ''36''"
    "SanitizeSingleLine (setting ap_defaults ''ap_country'') = ''00''"
    "matches apChannelRe ''36''" "bandFor (dec_val ''36'') = Some (''a'', True)"
    by code_simp+
  then show ?thesis
    using assms
    by (simp add: Apply_hotspot_def Let_def write_file_def Run_def quiet_shell_def new_host_def New_executor_def record_cmd_def)
qed

theorem hostapd_conf_is_closed_witness:
  "\<exists>conf ls pass. files (snd (Apply_hotspot no_faults quiet_shell empty_db (new_host False))) hostapd_path = Some conf \<and>
     split_on (CHR 0x0A) conf = hostapd_note # ls @ [[]] \<and> (''wpa_passphrase='' @ pass) \<in> set ls \<and> 8 \<le> length pass"
proof -
  have "getSettings no_faults empty_db = ap_defaults" by (simp add: getSettings_def no_faults_def empty_db_def)
  then obtain h' where h': "Apply_hotspot no_faults quiet_shell empty_db (new_host False) = (None, h')"
    using default_settings_apply [of no_faults empty_db] by (simp add: no_faults_def)
  have "\<not> ex_dry_run (executor (new_host False))" by (simp add: new_host_def New_executor_def)
  from hostapd_conf_is_closed [OF h' this] show ?thesis unfolding h' snd_conv by blast
qed

text \<open>
  When the settings cannot be read, the access point is restarted with the seed passphrase.
  The read failure is not surfaced: the apply succeeds whatever the settings table holds, the file
  carries the default passphrase, and hostapd is restarted without the firewall being looked at.
\<close>

theorem unreadable_settings_use_seed_passphrase:
  "case Apply_hotspot (\<lambda>op. op = ''read settings'') quiet_shell d (new_host False) of (e, h') \<Rightarrow>
     e = None \<and> issued h' = [restart_ap] \<and>
     files h' hostapd_path = Some (unlines (hostapd_lines ''NetFilter'' ''changeme123'' ''36'' ''00'' ''a'' True))"
proof -
  have "getSettings (\<lambda>op. op = ''read settings'') d = ap_defaults" by (simp add: getSettings_def)
  from default_settings_apply [OF this] show ?thesis by simp
qed

end
