(* ===== verification/Network.thy ===== *)
theory Network
  imports SNI_Proxy Runtime
begin

text \<open>
  \<^verbatim>\<open>internal/services/network.go\<close>: the scan of the lease file and the ARP table, and the device rows.  The
  two files are arguments, absent when they cannot be opened; a scanner that meets a line of 64 KiB
  stops there without an error, as \<^verbatim>\<open>bufio.Scanner\<close> does when its error is not read.  A map of found
  devices is the list of its entries, and \<open>now\<close> is SQLite's clock in seconds.
\<close>

subsection \<open>Leases\<close>

record found =
  fd_mac :: string
  fd_ip :: string
  fd_hostname :: string

definition put_found :: "found \<Rightarrow> found list \<Rightarrow> found list" where
  "put_found x ds =
     (if list_ex (\<lambda>y. fd_mac y = fd_mac x) ds then map (\<lambda>y. if fd_mac y = fd_mac x then x else y) ds else ds @ [x])"

definition get_found :: "string \<Rightarrow> found list \<Rightarrow> found option" where
  "get_found mac ds = find (\<lambda>y. fd_mac y = mac) ds"

text \<open>\<^verbatim>\<open>strconv.ParseInt(s, 10, 64)\<close>: a sign, then digits, within 64 bits.\<close>

definition parse_int64 :: "string \<Rightarrow> int option" where
  "parse_int64 s =
     (let neg = (case s of c # _ \<Rightarrow> c = CHR ''-'' | [] \<Rightarrow> False);
          ds = (case s of c # r \<Rightarrow> if c = CHR ''-'' \<or> c = CHR ''+'' then r else s | [] \<Rightarrow> []);
          n = int (dec_val ds) in
      if ds = [] \<or> \<not> list_all is_digit ds then None
      else if neg then (if n \<le> 2 ^ 63 then Some (- n) else None)
      else if n < 2 ^ 63 then Some n else None)"

definition lease_expiry :: "string \<Rightarrow> int" where
  "lease_expiry s = (case parse_int64 s of None \<Rightarrow> 0 | Some e \<Rightarrow> e)"

definition lease_step :: "string \<Rightarrow> found list \<times> (string \<rightharpoonup> int) \<Rightarrow> found list \<times> (string \<rightharpoonup> int)" where
  "lease_step line st = (case st of (ds, newest) \<Rightarrow>
     let fs = Go_Prelude.fields line in
     if length fs < 4 then st
     else let expiry = lease_expiry (fs ! 0); mac = to_upper (fs ! 1); ip = fs ! 2;
              hostname = (if fs ! 3 = ''*'' then [] else fs ! 3) in
       if (case newest mac of None \<Rightarrow> False | Some prev \<Rightarrow> expiry \<le> prev) then st
       else (put_found \<lparr>fd_mac = mac, fd_ip = ip, fd_hostname = hostname\<rparr> ds, newest(mac \<mapsto> expiry)))"

definition mergeLeases :: "found list \<Rightarrow> string \<Rightarrow> found list" where
  "mergeLeases ds r = fst (fold lease_step (fst (scan_lines r)) (ds, Map.empty))"

definition parseDHCPLeases :: "string option \<Rightarrow> found list \<Rightarrow> found list" where
  "parseDHCPLeases file ds = (case file of None \<Rightarrow> ds | Some r \<Rightarrow> mergeLeases ds r)"

fun add_ip :: "string \<Rightarrow> string \<Rightarrow> (string \<times> string list) list \<Rightarrow> (string \<times> string list) list" where
  "add_ip mac ip [] = [(mac, [ip])]"
| "add_ip mac ip ((m, ips) # t) = (if m = mac then (m, ips @ [ip]) # t else (m, ips) # add_ip mac ip t)"

definition leasedIPsByMAC :: "string \<Rightarrow> (string \<times> string list) list" where
  "leasedIPsByMAC r =
     fold (\<lambda>line out. let fs = Go_Prelude.fields line in if length fs < 4 then out else add_ip (to_upper (fs ! 1)) (fs ! 2) out)
       (fst (scan_lines r)) []"

definition currentLeasedIPsByMAC :: "string option \<Rightarrow> (string \<times> string list) list option" where
  "currentLeasedIPsByMAC file = map_option leasedIPsByMAC file"

subsection \<open>The ARP table\<close>

text \<open>A complete entry of the table on the LAN interface: its address and its MAC.\<close>

definition arp_entry :: "string \<Rightarrow> string \<Rightarrow> (string \<times> string) option" where
  "arp_entry lanIface line =
     (let fs = Go_Prelude.fields line in
      if length fs < 6 \<or> fs ! 5 \<noteq> lanIface \<or> fs ! 2 = ''0x0'' then None
      else let mac = to_upper (fs ! 3) in
        if mac = [] \<or> mac = ''00:00:00:00:00:00'' \<or> \<not> ValidMAC (to_lower mac) then None
        else Some (fs ! 0, mac))"

definition arp_entries :: "string \<Rightarrow> string \<Rightarrow> (string \<times> string) list" where
  "arp_entries r lanIface = List.map_filter (arp_entry lanIface) (tl (fst (scan_lines r)))"

definition arpByIP :: "string \<Rightarrow> string \<Rightarrow> (string \<times> string) list" where
  "arpByIP r lanIface = rev (arp_entries r lanIface)"

definition currentARPByIP :: "string \<Rightarrow> string option \<Rightarrow> (string \<times> string) list option" where
  "currentARPByIP lanIface file = map_option (\<lambda>r. arpByIP r lanIface) file"

definition arp_step :: "string \<times> string \<Rightarrow> found list \<times> string list \<Rightarrow> found list \<times> string list" where
  "arp_step e st = (case (e, st) of ((ip, mac), (ds, present)) \<Rightarrow>
     ((case get_found mac ds of
         Some x \<Rightarrow> put_found (x\<lparr>fd_ip := ip\<rparr>) ds
       | None \<Rightarrow> put_found \<lparr>fd_mac = mac, fd_ip = ip, fd_hostname = []\<rparr> ds), mac # present))"

definition mergeARP :: "found list \<Rightarrow> string \<Rightarrow> string \<Rightarrow> found list \<times> string list" where
  "mergeARP ds r lanIface = fold arp_step (arp_entries r lanIface) (ds, [])"

definition parseARP :: "string \<Rightarrow> string option \<Rightarrow> found list \<Rightarrow> found list \<times> string list" where
  "parseARP lanIface file ds = (case file of None \<Rightarrow> (ds, []) | Some r \<Rightarrow> mergeARP ds r lanIface)"

subsection \<open>Device rows\<close>

definition upsertDevice :: "faults \<Rightarrow> time \<Rightarrow> found \<Rightarrow> bool \<Rightarrow> db \<Rightarrow> db" where
  "upsertDevice fails now x present d =
     (if fails ''upsert device'' then d
      else if list_ex (\<lambda>dev. dev_mac dev = fd_mac x) (devices d)
      then d\<lparr>devices := map (\<lambda>dev. if dev_mac dev = fd_mac x
               then dev\<lparr>dev_ip := fd_ip x, dev_hostname := (if fd_hostname x \<noteq> [] then fd_hostname x else dev_hostname dev),
                        dev_last_seen := (if present then now else dev_last_seen dev)\<rparr>
               else dev) (devices d)\<rparr>
      else let i = devices_seq d + 1 in
        d\<lparr>devices_seq := i,
          devices := devices d @ [\<lparr>dev_id = i, dev_mac = fd_mac x, dev_ip = fd_ip x, dev_hostname = fd_hostname x, dev_alias = [],
             dev_last_seen = (if present then now else now - 600), dev_status = DeviceStatusBlocked, dev_is_blocked = False,
             dev_ignore_log = False\<rparr>]\<rparr>)"

definition found_devices :: "string \<Rightarrow> string option \<Rightarrow> string option \<Rightarrow> found list \<times> string list" where
  "found_devices lanIface lf af = parseARP lanIface af (parseDHCPLeases lf [])"

definition scan_network :: "faults \<Rightarrow> Config \<Rightarrow> time \<Rightarrow> string option \<Rightarrow> string option \<Rightarrow> db \<Rightarrow> db" where
  "scan_network fails cfg now lf af d =
     (case found_devices (LANInterface cfg) lf af of (ds, present) \<Rightarrow>
        fold (\<lambda>x. upsertDevice fails now x (fd_mac x \<in> set present)) ds d)"

definition online :: "time \<Rightarrow> Device \<Rightarrow> bool" where
  "online now dev \<longleftrightarrow> dev_last_seen dev > now - 300"

definition ListDevices :: "faults \<Rightarrow> time \<Rightarrow> db \<Rightarrow> (Device \<times> bool) list option" where
  "ListDevices fails now d =
     (if fails ''query devices'' then None
      else Some (map (\<lambda>dev. (dev, online now dev)) (sort_by (\<lambda>a b. dev_last_seen b \<le> dev_last_seen a) (devices d))))"

datatype device_error = InvalidMAC string | InvalidStatus string | DeviceExecFailed | DeviceNotFound string

definition SetStatus :: "faults \<Rightarrow> string \<Rightarrow> string \<Rightarrow> db \<Rightarrow> device_error option \<times> db" where
  "SetStatus fails mac status d =
     (let mac = to_upper (trim_space mac) in
      if \<not> ValidMAC (to_lower mac) then (Some (InvalidMAC mac), d)
      else if status \<notin> {DeviceStatusBlocked, DeviceStatusFiltered, DeviceStatusOpen} then (Some (InvalidStatus status), d)
      else if fails ''set status'' then (Some DeviceExecFailed, d)
      else (None, d\<lparr>devices := map (\<lambda>dev. if dev_mac dev = mac
             then dev\<lparr>dev_status := status, dev_is_blocked := (status = DeviceStatusBlocked)\<rparr> else dev) (devices d)\<rparr>))"

definition Delete_device :: "faults \<Rightarrow> string \<Rightarrow> db \<Rightarrow> device_error option \<times> db" where
  "Delete_device fails mac d =
     (let mac = to_upper (trim_space mac) in
      if \<not> ValidMAC (to_lower mac) then (Some (InvalidMAC mac), d)
      else if fails ''delete device'' then (Some DeviceExecFailed, d)
      else if \<not> list_ex (\<lambda>dev. dev_mac dev = mac) (devices d) then (Some (DeviceNotFound mac), d)
      else (None, d\<lparr>devices := filter (\<lambda>dev. dev_mac dev \<noteq> mac) (devices d)\<rparr>))"

definition DeviceIPByMAC :: "faults \<Rightarrow> string \<Rightarrow> db \<Rightarrow> string" where
  "DeviceIPByMAC fails mac d =
     (if fails ''device ip'' then []
      else case find (\<lambda>dev. dev_mac dev = mac) (devices d) of None \<Rightarrow> [] | Some dev \<Rightarrow> dev_ip dev)"

definition UpdateDevice :: "faults \<Rightarrow> string \<Rightarrow> string \<Rightarrow> bool \<Rightarrow> db \<Rightarrow> device_error option \<times> db" where
  "UpdateDevice fails mac nick ignoreLog d =
     (if fails ''update device'' then (Some DeviceExecFailed, d)
      else (None, d\<lparr>devices := map (\<lambda>dev. if dev_mac dev = mac then dev\<lparr>dev_alias := nick, dev_ignore_log := ignoreLog\<rparr> else dev)
              (devices d)\<rparr>))"

text \<open>The sum over an empty table is NULL, which does not scan into an integer.\<close>

definition GetDeviceCount :: "faults \<Rightarrow> time \<Rightarrow> db \<Rightarrow> (nat \<times> nat) option" where
  "GetDeviceCount fails now d =
     (if fails ''count devices'' \<or> devices d = [] then None
      else Some (length (filter (online now) (devices d)), length (devices d)))"

subsection \<open>The newest lease\<close>

record lease =
  le_mac :: string
  le_expiry :: int
  le_ip :: string
  le_hostname :: string

definition parse_lease :: "string \<Rightarrow> lease option" where
  "parse_lease line =
     (let fs = Go_Prelude.fields line in
      if length fs < 4 then None
      else Some \<lparr>le_mac = to_upper (fs ! 1), le_expiry = lease_expiry (fs ! 0), le_ip = fs ! 2,
             le_hostname = (if fs ! 3 = ''*'' then [] else fs ! 3)\<rparr>)"

definition leases_of :: "string \<Rightarrow> lease list" where
  "leases_of r = List.map_filter parse_lease (fst (scan_lines r))"

definition found_lease :: "lease \<Rightarrow> found" where
  "found_lease l = \<lparr>fd_mac = le_mac l, fd_ip = le_ip l, fd_hostname = le_hostname l\<rparr>"

definition take_lease :: "lease \<Rightarrow> found list \<times> (string \<rightharpoonup> int) \<Rightarrow> found list \<times> (string \<rightharpoonup> int)" where
  "take_lease l st = (case st of (ds, newest) \<Rightarrow>
     if (case newest (le_mac l) of None \<Rightarrow> False | Some prev \<Rightarrow> le_expiry l \<le> prev) then st
     else (put_found (found_lease l) ds, newest(le_mac l \<mapsto> le_expiry l)))"

lemma get_put_found: "get_found mac (put_found x ds) = (if mac = fd_mac x then Some x else get_found mac ds)"
proof (cases "list_ex (\<lambda>y. fd_mac y = fd_mac x) ds")
  case True
  have "find (\<lambda>y. fd_mac y = mac) (map (\<lambda>y. if fd_mac y = fd_mac x then x else y) ds) = find (\<lambda>y. fd_mac y = mac) ds"
    if "mac \<noteq> fd_mac x" using that by (induction ds) auto
  moreover have "find (\<lambda>y. fd_mac y = fd_mac x) (map (\<lambda>y. if fd_mac y = fd_mac x then x else y) ds) = Some x"
    using True by (induction ds) auto
  ultimately show ?thesis using True by (simp add: put_found_def get_found_def)
next
  case False
  have "find P (ds @ [x]) = (case find P ds of None \<Rightarrow> if P x then Some x else None | Some y \<Rightarrow> Some y)" for P
    by (induction ds) auto
  moreover have "find (\<lambda>y. fd_mac y = fd_mac x) ds = None" using False by (simp add: find_None_iff list_ex_iff)
  ultimately show ?thesis using False by (auto simp: put_found_def get_found_def split: option.splits)
qed

lemma mergeLeases_take: "mergeLeases ds r = fst (fold take_lease (leases_of r) (ds, Map.empty))"
proof -
  have "fold lease_step ls st = fold take_lease (List.map_filter parse_lease ls) st" for ls st
  proof (induction ls arbitrary: st)
    case (Cons l ls)
    have "lease_step l st = (case parse_lease l of None \<Rightarrow> st | Some x \<Rightarrow> take_lease x st)"
      by (cases st; cases "snd st (to_upper (Go_Prelude.fields l ! 1))")
        (simp_all add: lease_step_def parse_lease_def take_lease_def found_lease_def Let_def)
    with Cons show ?case by (simp add: List.map_filter_simps split: option.splits)
  qed (simp add: List.map_filter_simps)
  then show ?thesis by (simp add: mergeLeases_def leases_of_def)
qed

text \<open>The first of the leases of a MAC with the latest expiry.\<close>

definition newest_at :: "string \<Rightarrow> lease list \<Rightarrow> nat \<Rightarrow> bool" where
  "newest_at mac ls i \<longleftrightarrow> i < length ls \<and> le_mac (ls ! i) = mac \<and>
     (\<forall>j < length ls. le_mac (ls ! j) = mac \<longrightarrow> le_expiry (ls ! j) \<le> le_expiry (ls ! i) \<and> (j < i \<longrightarrow> le_expiry (ls ! j) < le_expiry (ls ! i)))"

lemma newest_snoc_other: "le_mac l \<noteq> mac \<Longrightarrow> newest_at mac (ls @ [l]) i \<longleftrightarrow> newest_at mac ls i"
  by (auto simp: newest_at_def nth_append less_Suc_eq)

lemma newest_snoc_keep:
  "newest_at mac ls i \<Longrightarrow> le_expiry l \<le> le_expiry (ls ! i) \<Longrightarrow> newest_at mac (ls @ [l]) i"
  by (auto simp: newest_at_def nth_append less_Suc_eq)

lemma newest_snoc_new:
  "le_mac l = mac \<Longrightarrow> (\<forall>j < length ls. le_mac (ls ! j) = mac \<longrightarrow> le_expiry (ls ! j) < le_expiry l) \<Longrightarrow>
     newest_at mac (ls @ [l]) (length ls)"
  by (auto simp: newest_at_def nth_append less_Suc_eq)

lemma take_leases_newest:
  assumes "fold take_lease ls ([], Map.empty) = (ds, newest)"
  shows "(case get_found mac ds of
       None \<Rightarrow> newest mac = None \<and> mac \<notin> le_mac ` set ls
     | Some x \<Rightarrow> \<exists>i. newest_at mac ls i \<and> x = found_lease (ls ! i) \<and> newest mac = Some (le_expiry (ls ! i)))"
  using assms
proof (induction ls arbitrary: ds newest rule: rev_induct)
  case Nil
  then show ?case by (auto simp: get_found_def)
next
  case (snoc l ls)
  obtain ds1 n1 where s: "fold take_lease ls ([], Map.empty) = (ds1, n1)" by fastforce
  note IH = snoc.IH [OF s]
  have st: "take_lease l (ds1, n1) = (ds, newest)" using snoc.prems s by simp
  show ?case
  proof (cases "le_mac l = mac")
    case False
    then have "get_found mac ds = get_found mac ds1" "newest mac = n1 mac"
      using st by (auto simp: take_lease_def get_put_found found_lease_def split: if_splits)
    with IH False show ?thesis
      by (auto simp: newest_snoc_other nth_append newest_at_def split: option.splits)
  next
    case mac: True
    show ?thesis
    proof (cases "get_found mac ds1")
      case None
      with IH have n: "n1 mac = None" "mac \<notin> le_mac ` set ls" by simp_all
      have "le_mac (ls ! j) \<noteq> mac" if "j < length ls" for j using n(2) nth_mem [OF that] by auto
      then have "newest_at mac (ls @ [l]) (length ls)" using mac by (intro newest_snoc_new) auto
      moreover have "get_found mac ds = Some (found_lease l)" "newest mac = Some (le_expiry l)"
        using st n(1) mac by (auto simp: take_lease_def get_put_found found_lease_def)
      ultimately show ?thesis by (auto simp: nth_append intro!: exI [of _ "length ls"])
    next
      case (Some x)
      with IH obtain i where i: "newest_at mac ls i" "x = found_lease (ls ! i)" "n1 mac = Some (le_expiry (ls ! i))" by auto
      then have len: "i < length ls" by (simp add: newest_at_def)
      show ?thesis
      proof (cases "le_expiry l \<le> le_expiry (ls ! i)")
        case True
        then have "ds = ds1" "newest = n1" using st i(3) mac by (auto simp: take_lease_def)
        with Some i len newest_snoc_keep [OF i(1) True] show ?thesis by (auto simp: nth_append)
      next
        case False
        then have "get_found mac ds = Some (found_lease l)" "newest mac = Some (le_expiry l)"
          using st i(3) mac by (auto simp: take_lease_def get_put_found found_lease_def)
        moreover have "newest_at mac (ls @ [l]) (length ls)"
          using mac i(1) False by (intro newest_snoc_new) (fastforce simp: newest_at_def)+
        ultimately show ?thesis by (auto simp: nth_append intro!: exI [of _ "length ls"])
      qed
    qed
  qed
qed

text \<open>
  C22: the scan keeps the newest lease of every device.  Whatever the order of the lines of the lease
  file, a device that has a lease is recorded with the address and the name of the lease that
  expires last, the first such line when several do, and a device without a lease is not recorded.
\<close>

theorem newest_lease_wins:
  "case get_found mac (mergeLeases [] r) of
     None \<Rightarrow> mac \<notin> le_mac ` set (leases_of r)
   | Some x \<Rightarrow> \<exists>i. newest_at mac (leases_of r) i \<and> x = found_lease (leases_of r ! i)"
proof -
  obtain ds newest where "fold take_lease (leases_of r) ([], Map.empty) = (ds, newest)" by fastforce
  from take_leases_newest [OF this, of mac] this show ?thesis
    by (auto simp: mergeLeases_take split: option.splits)
qed

subsection \<open>Who admits a device\<close>

text \<open>
  The operations on the device rows, with whatever statements fail: a scan of any two files, and the
  operator's classification, removal and relabelling.
\<close>

datatype device_op =
    OpScan time "string option" "string option"
  | OpStatus string string
  | OpRemove string
  | OpLabel string string bool

fun device_step :: "Config \<Rightarrow> faults \<times> device_op \<Rightarrow> db \<Rightarrow> db" where
  "device_step cfg (fails, OpScan now lf af) d = scan_network fails cfg now lf af d"
| "device_step cfg (fails, OpStatus mac st) d = snd (SetStatus fails mac st d)"
| "device_step cfg (fails, OpRemove mac) d = snd (Delete_device fails mac d)"
| "device_step cfg (fails, OpLabel mac nick ig) d = snd (UpdateDevice fails mac nick ig d)"

fun admits :: "faults \<times> device_op \<Rightarrow> (string \<times> string) set" where
  "admits (fails, OpStatus mac st) = {(to_upper (trim_space mac), st)}"
| "admits _ = {}"

definition classified :: "db \<Rightarrow> (string \<times> string) set" where
  "classified d = {(dev_mac dev, dev_status dev) | dev. dev \<in> set (devices d) \<and> dev_status dev \<noteq> DeviceStatusBlocked}"

lemma classified_map:
  assumes "\<And>dev. dev \<in> set (devices d) \<Longrightarrow> (dev_mac (f dev), dev_status (f dev)) \<in> A \<union> {(dev_mac dev, dev_status dev)}"
  shows "classified (d\<lparr>devices := map f (devices d)\<rparr>) \<subseteq> A \<union> classified d"
  using assms by (fastforce simp: classified_def)

lemma classified_upsert: "classified (upsertDevice fails now x present d) \<subseteq> classified d"
proof -
  have "classified (upsertDevice fails now x present d) \<subseteq> {} \<union> classified d"
    if "list_ex (\<lambda>dev. dev_mac dev = fd_mac x) (devices d)" "\<not> fails ''upsert device''"
    using that unfolding upsertDevice_def by (simp only: if_True if_False not_False_eq_True) (rule classified_map, simp)
  moreover have "classified (upsertDevice fails now x present d) \<subseteq> classified d"
    if "\<not> list_ex (\<lambda>dev. dev_mac dev = fd_mac x) (devices d)"
    using that by (auto simp: upsertDevice_def classified_def Let_def)
  moreover have "classified (upsertDevice fails now x present d) \<subseteq> classified d" if "fails ''upsert device''"
    using that by (simp add: upsertDevice_def)
  ultimately show ?thesis by blast
qed

lemma classified_scan: "classified (scan_network fails cfg now lf af d) \<subseteq> classified d"
proof -
  have "classified (fold (\<lambda>x. upsertDevice fails now x (p x)) ds d) \<subseteq> classified d" for p ds
    using classified_upsert by (induction ds arbitrary: d) fastforce+
  then show ?thesis by (auto simp: scan_network_def split: prod.splits)
qed

lemma classified_step: "classified (device_step cfg o1 d) \<subseteq> admits o1 \<union> classified d"
proof (cases o1)
  case (Pair fails op)
  show ?thesis
  proof (cases op)
    case (OpScan now lf af)
    with Pair classified_scan show ?thesis by auto
  next
    case (OpStatus mac st)
    let ?mac = "to_upper (trim_space mac)"
    have "classified (d\<lparr>devices := map (\<lambda>dev. if dev_mac dev = ?mac
        then dev\<lparr>dev_status := st, dev_is_blocked := (st = DeviceStatusBlocked)\<rparr> else dev) (devices d)\<rparr>) \<subseteq>
        {(?mac, st)} \<union> classified d"
      by (rule classified_map) simp
    with Pair OpStatus show ?thesis by (auto simp: SetStatus_def Let_def)
  next
    case (OpRemove mac)
    with Pair show ?thesis by (auto simp: Delete_device_def Let_def classified_def)
  next
    case (OpLabel mac nick ig)
    have "classified (d\<lparr>devices := map (\<lambda>dev. if dev_mac dev = mac then dev\<lparr>dev_alias := nick, dev_ignore_log := ig\<rparr> else dev)
        (devices d)\<rparr>) \<subseteq> {} \<union> classified d"
      by (rule classified_map) simp
    with Pair OpLabel show ?thesis by (auto simp: UpdateDevice_def)
  qed
qed

lemma classified_run: "classified (fold (device_step cfg) ops d) \<subseteq> (\<Union>o1\<in>set ops. admits o1) \<union> classified d"
  using classified_step by (induction ops arbitrary: d) fastforce+

text \<open>A scan makes a device online only when the ARP table has it: a lease alone never does.\<close>

definition online_by :: "time \<Rightarrow> string set \<Rightarrow> db \<Rightarrow> db \<Rightarrow> bool" where
  "online_by now present d d' \<longleftrightarrow> (\<forall>dev\<in>set (devices d'). online now dev \<longrightarrow>
     dev_mac dev \<in> present \<or> (\<exists>old\<in>set (devices d). dev_mac old = dev_mac dev \<and> online now old))"

lemma online_by_upsert: "(b \<Longrightarrow> fd_mac x \<in> P) \<Longrightarrow> online_by now P d (upsertDevice fails now x b d)"
  by (auto simp: online_by_def upsertDevice_def online_def Let_def)

lemma online_by_trans: "online_by now P d d1 \<Longrightarrow> online_by now P d1 d2 \<Longrightarrow> online_by now P d d2"
  unfolding online_by_def by metis

theorem scan_online_needs_arp:
  "online_by now (set (snd (found_devices (LANInterface cfg) lf af))) d (scan_network fails cfg now lf af d)"
proof -
  obtain ds present where f: "found_devices (LANInterface cfg) lf af = (ds, present)" by fastforce
  have "online_by now (set present) d (fold (\<lambda>x. upsertDevice fails now x (fd_mac x \<in> set present)) ds d)"
  proof (induction ds arbitrary: d)
    case Nil
    show ?case by (auto simp: online_by_def)
  next
    case (Cons x ds)
    show ?case
      by (simp only: fold.simps o_apply) (rule online_by_trans [OF online_by_upsert Cons.IH], simp)
  qed
  then show ?thesis by (simp add: scan_network_def f)
qed

end
