(* ===== verification/Go_Match.thy ===== *)
theory Go_Match
  imports Go_Prelude
begin

text \<open>
  \<^verbatim>\<open>FindStringSubmatch\<close> of Go's regexp package for the patterns of the log parsers: sequences of literals,
  classes and repetitions of a class, with capture groups.  The matches of a pattern at a position
  are listed in the order of preference (a greedy repetition tries the longest first, a lazy one the
  shortest), and the result is the first match at the leftmost position that has one.  SQLite's
  \<^verbatim>\<open>LIKE\<close> is here too.
\<close>

datatype pitem =
    Lit string
  | One "char \<Rightarrow> bool"
  | Rep bool nat "char \<Rightarrow> bool"
  | Grp "pitem list"

fun item_matches :: "pitem \<Rightarrow> string \<Rightarrow> (string list \<times> string) list"
  and seq_matches :: "pitem list \<Rightarrow> string \<Rightarrow> (string list \<times> string) list" where
  "item_matches (Lit p) s = (if has_prefix s p then [([], drop (length p) s)] else [])"
| "item_matches (One P) s = (case s of [] \<Rightarrow> [] | c # r \<Rightarrow> if P c then [([], r)] else [])"
| "item_matches (Rep greedy n P) s =
     (let ks = [n..<Suc (length (takeWhile P s))] in map (\<lambda>k. ([], drop k s)) (if greedy then rev ks else ks))"
| "item_matches (Grp is) s = map (\<lambda>(cs, r). (take (length s - length r) s # cs, r)) (seq_matches is s)"
| "seq_matches [] s = [([], s)]"
| "seq_matches (i # is) s =
     concat (map (\<lambda>(cs, r). map (\<lambda>(cs', r'). (cs @ cs', r')) (seq_matches is r)) (item_matches i s))"

definition matches_here :: "pitem list list \<Rightarrow> string \<Rightarrow> (string list \<times> string) list" where
  "matches_here alts s = concat (map (\<lambda>a. seq_matches a s) alts)"

fun FindStringSubmatch :: "pitem list list \<Rightarrow> string \<Rightarrow> string list option" where
  "FindStringSubmatch alts [] = (case matches_here alts [] of [] \<Rightarrow> None | (cs, _) # _ \<Rightarrow> Some cs)"
| "FindStringSubmatch alts (c # s) =
     (case matches_here alts (c # s) of [] \<Rightarrow> FindStringSubmatch alts s | (cs, _) # _ \<Rightarrow> Some cs)"

definition not_newline :: "char \<Rightarrow> bool" where
  "not_newline c \<longleftrightarrow> c \<noteq> CHR 0x0A"

definition re_space :: "char \<Rightarrow> bool" where
  "re_space c \<longleftrightarrow> c \<in> {CHR 0x09, CHR 0x0A, CHR 0x0C, CHR 0x0D, CHR 0x20}"

definition not_space :: "char \<Rightarrow> bool" where
  "not_space c \<longleftrightarrow> \<not> re_space c"

text \<open>
  \<^verbatim>\<open>LIKE\<close>: ASCII case is ignored, a percent sign stands for any text and an underscore for one
  character, which is an ASCII byte or a UTF-8 sequence.
\<close>

definition drop_char :: "string \<Rightarrow> string" where
  "drop_char s = dropWhile (\<lambda>c. 128 \<le> ord c \<and> ord c < 192) (tl s)"

fun like_from :: "string \<Rightarrow> string \<Rightarrow> bool" where
  "like_from [] s \<longleftrightarrow> s = []"
| "like_from (p # ps) s \<longleftrightarrow>
     (if p = CHR ''%'' then list_ex (\<lambda>k. like_from ps (drop k s)) [0..<Suc (length s)]
      else if p = CHR ''_'' then s \<noteq> [] \<and> like_from ps (drop_char s)
      else (case s of [] \<Rightarrow> False | c # r \<Rightarrow> c = p \<and> like_from ps r))"

definition like :: "string \<Rightarrow> string \<Rightarrow> bool" where
  "like pat s = like_from (map lower_char pat) (map lower_char s)"

text \<open>Every capture of a match is a part of the text.\<close>

lemma item_matches_parts:
  "(cs, r) \<in> set (item_matches i s) \<Longrightarrow> (\<forall>c\<in>set cs. sublist c s) \<and> suffix r s"
  "(cs, r) \<in> set (seq_matches is s) \<Longrightarrow> (\<forall>c\<in>set cs. sublist c s) \<and> suffix r s"
proof (induction i s and "is" s arbitrary: cs r and cs r rule: item_matches_seq_matches.induct)
  case (4 "is" s)
  then show ?case by (auto intro: sublist_take)
next
  case (6 i "is" s)
  then obtain c1 r1 c2 where m: "(c1, r1) \<in> set (item_matches i s)" "(c2, r) \<in> set (seq_matches is r1)" "cs = c1 @ c2"
    by auto
  have 1: "(\<forall>c\<in>set c1. sublist c s) \<and> suffix r1 s" by (rule "6.IH"(1)) (rule m(1))
  have 2: "(\<forall>c\<in>set c2. sublist c r1) \<and> suffix r r1" by (rule "6.IH"(2) [OF m(1) refl m(2)])
  from 1 have "sublist r1 s" by (blast intro: suffix_imp_sublist)
  then have "sublist c s" if "sublist c r1" for c using that by (rule sublist_order.order_trans [rotated])
  with 1 2 m(3) show ?case by (auto intro: suffix_order.trans)
qed (auto simp: suffix_drop suffix_ConsI Let_def split: list.splits if_splits)

lemma matches_here_parts:
  assumes "matches_here alts s = (cs, r) # ms" "c \<in> set cs"
  shows "sublist c s"
proof -
  have "(cs, r) \<in> set (matches_here alts s)" using assms(1) by simp
  then obtain a where "(cs, r) \<in> set (seq_matches a s)" by (auto simp: matches_here_def)
  from item_matches_parts(2) [OF this] assms(2) show ?thesis by blast
qed

lemma FindStringSubmatch_parts: "FindStringSubmatch alts s = Some cs \<Longrightarrow> c \<in> set cs \<Longrightarrow> sublist c s"
proof (induction alts s rule: FindStringSubmatch.induct)
  case (1 alts)
  show ?case
  proof (cases "matches_here alts []")
    case (Cons m ms)
    with 1 show ?thesis by (cases m) (simp del: sublist_Nil_right, rule matches_here_parts)
  qed (use 1 in simp)
next
  case (2 alts d s)
  show ?case
  proof (cases "matches_here alts (d # s)")
    case Nil
    with 2 have "sublist c s" by simp
    then show ?thesis by (simp add: sublist_Cons_right)
  next
    case (Cons m ms)
    with 2 show ?thesis by (cases m) (auto intro: matches_here_parts)
  qed
qed

end
