(* ===== verification/Traffic_Log.thy ===== *)
theory Traffic_Log
  imports SNI_Proxy Go_Match
begin

text \<open>
  \<^verbatim>\<open>internal/services/trafficlog.go\<close>: what is logged, what is suppressed, and the queries over the log.
  Time stamps are SQLite's texts: \<open>stamp\<close> is the current one, and \<open>clock\<close> gives the text of
  \<^verbatim>\<open>datetime('now', m)\<close> for a modifier, or nothing for a malformed one.  The full-text index is a
  parameter: \<open>fts\<close> says which rows a search phrase finds.  Where the code leaves the order of equal
  rows to SQLite, the model keeps the order of the table.
\<close>

subsection \<open>State\<close>

record TrafficEntry =
  te_id :: int
  te_timestamp :: string
  te_src_ip :: string
  te_dst_ip :: string
  te_dst_port :: string
  te_protocol :: string
  te_action :: string
  te_src_mac :: string
  te_domain :: string
  te_source :: string
  te_policy :: string

record MutedDomain =
  md_id :: int
  md_pattern :: string
  md_match_type :: string
  md_enabled :: bool

record log_tables =
  query_log :: "TrafficEntry list"
  query_log_seq :: int
  muted_domains :: "MutedDomain list"
  muted_seq :: int
  kv_store :: "string \<rightharpoonup> string"

record TrafficLogService =
  dnsCache :: "(string \<times> string) list"
  ignoredMACs :: "string list"
  ignoredIPs :: "string list"
  mutedExact :: "string list"
  mutedSuffix :: "string list"
  allowSuffix :: "string list"

definition NewTrafficLogService :: TrafficLogService where
  "NewTrafficLogService = \<lparr>dnsCache = [], ignoredMACs = [], ignoredIPs = [], mutedExact = [], mutedSuffix = [], allowSuffix = []\<rparr>"

subsection \<open>Caches\<close>

definition RefreshIgnoreCache :: "faults \<Rightarrow> db \<Rightarrow> TrafficLogService \<Rightarrow> TrafficLogService" where
  "RefreshIgnoreCache fails d s =
     (if fails ''refresh ignore cache'' then s
      else let ds = filter dev_ignore_log (devices d) in
        s\<lparr>ignoredMACs := map (\<lambda>x. to_lower (trim_space (dev_mac x))) (filter (\<lambda>x. dev_mac x \<noteq> []) ds),
          ignoredIPs := map (\<lambda>x. trim_space (dev_ip x)) (filter (\<lambda>x. dev_ip x \<noteq> []) ds)\<rparr>)"

definition enabled_mutes :: "MutedDomain list \<Rightarrow> (string \<times> string) list" where
  "enabled_mutes ms =
     filter (\<lambda>(p, _). p \<noteq> []) (map (\<lambda>m. (to_lower (trim_space (md_pattern m)), md_match_type m)) (filter md_enabled ms))"

definition RefreshMuteCache :: "faults \<Rightarrow> log_tables \<Rightarrow> TrafficLogService \<Rightarrow> TrafficLogService" where
  "RefreshMuteCache fails t s =
     (if fails ''refresh mute cache'' then s
      else let ps = enabled_mutes (muted_domains t) in
        s\<lparr>mutedExact := map fst (filter (\<lambda>(_, k). k = ''exact'') ps),
          mutedSuffix := map fst (filter (\<lambda>(_, k). k \<noteq> ''exact'') ps)\<rparr>)"

definition isMuted :: "TrafficLogService \<Rightarrow> string \<Rightarrow> bool" where
  "isMuted s domain =
     (let d = to_lower (trim_space domain) in
      if d = [] then False
      else if d \<in> set (mutedExact s) then True
      else list_ex (\<lambda>p. d = p \<or> has_suffix d (''.'' @ p)) (mutedSuffix s))"

definition RefreshAllowCache :: "faults \<Rightarrow> db \<Rightarrow> TrafficLogService \<Rightarrow> TrafficLogService" where
  "RefreshAllowCache fails d s =
     (if fails ''refresh allow cache'' then s
      else s\<lparr>allowSuffix := filter (\<lambda>x. x \<noteq> []) (map (\<lambda>x. to_lower (trim_space x)) (enabled_domains d))\<rparr>)"

definition dnsResolvable :: "TrafficLogService \<Rightarrow> string \<Rightarrow> bool" where
  "dnsResolvable s domain =
     (let d = to_lower (trim_space domain) in
      if d = [] \<or> isProtectedDenied d then False
      else list_ex (\<lambda>p. d = p \<or> has_suffix d (''.'' @ p)) (allowSuffix s))"

definition isIgnored :: "TrafficLogService \<Rightarrow> string \<Rightarrow> string \<Rightarrow> bool" where
  "isIgnored s mac ip =
     (if mac = [] \<and> ip = [] then False
      else if mac \<noteq> [] \<and> to_lower (trim_space mac) \<in> set (ignoredMACs s) then True
      else ip \<noteq> [] \<and> trim_space ip \<in> set (ignoredIPs s))"

subsection \<open>Mutes\<close>

definition ListMuted :: "faults \<Rightarrow> log_tables \<Rightarrow> MutedDomain list option" where
  "ListMuted fails t =
     (if fails ''query muted domains'' then None
      else Some (sort_by (\<lambda>a b. str_le (md_pattern a) (md_pattern b)) (muted_domains t)))"

definition AddMuted :: "faults \<Rightarrow> string \<Rightarrow> log_tables \<Rightarrow> TrafficLogService \<Rightarrow> int option \<times> log_tables \<times> TrafficLogService" where
  "AddMuted fails domain t s =
     (let pattern = NormalizeDomain domain in
      if pattern = [] \<or> fails ''insert muted domain'' then (None, t, s)
      else case find (\<lambda>m. md_pattern m = pattern) (muted_domains t) of
        Some m \<Rightarrow>
          let t' = t\<lparr>muted_domains := map (\<lambda>x. if md_pattern x = pattern then x\<lparr>md_enabled := True\<rparr> else x) (muted_domains t)\<rparr> in
          (Some (md_id m), t', RefreshMuteCache fails t' s)
      | None \<Rightarrow>
          let i = muted_seq t + 1;
              t' = t\<lparr>muted_seq := i, muted_domains := muted_domains t @
                     [\<lparr>md_id = i, md_pattern = pattern, md_match_type = ''suffix'', md_enabled = True\<rparr>]\<rparr> in
          (Some i, t', RefreshMuteCache fails t' s))"

definition RemoveMuted :: "faults \<Rightarrow> int \<Rightarrow> log_tables \<Rightarrow> TrafficLogService \<Rightarrow> bool \<times> log_tables \<times> TrafficLogService" where
  "RemoveMuted fails i t s =
     (if fails ''delete muted domain'' then (False, t, s)
      else let t' = t\<lparr>muted_domains := filter (\<lambda>m. md_id m \<noteq> i) (muted_domains t)\<rparr> in
        (True, t', RefreshMuteCache fails t' s))"

subsection \<open>Ingest\<close>

definition insertEntry :: "faults \<Rightarrow> string \<Rightarrow> TrafficLogService \<Rightarrow> TrafficEntry \<Rightarrow> log_tables \<Rightarrow> log_tables" where
  "insertEntry fails stamp s e t =
     (let e = (if te_source e = [] then e\<lparr>te_source := ''forward''\<rparr> else e) in
      if isIgnored s (te_src_mac e) (te_src_ip e) then t
      else if te_domain e \<noteq> [] \<and> isMuted s (te_domain e) then t
      else if fails ''insert query log'' then t
      else let i = query_log_seq t + 1 in
        t\<lparr>query_log_seq := i, query_log := query_log t @ [e\<lparr>te_id := i, te_timestamp := stamp\<rparr>]\<rparr>)"

abbreviation "entry0 \<equiv> \<lparr>te_id = 0, te_timestamp = [], te_src_ip = [], te_dst_ip = [], te_dst_port = [], te_protocol = [],
  te_action = [], te_src_mac = [], te_domain = [], te_source = [], te_policy = []\<rparr>"

definition nflogRe :: "pitem list list" where
  "nflogRe = [[Lit ''[NETFILTER'', Rep False 0 not_newline, Lit '']'', Rep True 0 not_newline, Lit ''SRC='',
     Grp [Rep True 1 not_space], One re_space, Rep True 0 not_newline, Lit ''DST='', Grp [Rep True 1 not_space], One re_space,
     Rep True 0 not_newline, Lit ''PROTO='', Grp [Rep True 1 not_space]]]"

definition nflogPortRe :: "pitem list list" where
  "nflogPortRe = [[Lit ''DPT='', Grp [Rep True 1 is_digit]]]"

definition nflogMacRe :: "pitem list list" where
  "nflogMacRe = [[Lit ''MAC='', Grp [Rep True 1 (\<lambda>c. lower_hex c \<or> c = CHR '':'')]]]"

definition upper_letter :: "char \<Rightarrow> bool" where
  "upper_letter c \<longleftrightarrow> 65 \<le> ord c \<and> ord c \<le> 90"

definition nflogPolicyRe :: "pitem list list" where
  "nflogPolicyRe = concat (map (\<lambda>w.
     let tl = [Rep True 1 re_space, Lit ''pol='', Grp [Rep True 1 (\<lambda>c. not_space c \<and> c \<noteq> CHR '']'')], Lit '']''] in
     [[Lit ''[NETFILTER-'', Lit w, Lit ''-'', Rep True 1 upper_letter] @ tl, [Lit ''[NETFILTER-'', Lit w] @ tl])
     [''ACCEPT'', ''DROP''])"

definition dnsQueryRe :: "pitem list list" where
  "dnsQueryRe = [[Lit ''query['', Grp [Rep True 1 not_space], Lit ''] '', Grp [Rep True 1 not_space], Lit '' from '',
     Grp [Rep True 1 not_space]]]"

definition dnsReplyRe :: "pitem list list" where
  "dnsReplyRe = [[Lit ''reply '', Grp [Rep True 1 not_space], Lit '' is '',
     Grp [Rep True 1 is_digit, Lit ''.'', Rep True 1 is_digit, Lit ''.'', Rep True 1 is_digit, Lit ''.'', Rep True 1 is_digit]]]"

definition first_capture :: "pitem list list \<Rightarrow> string \<Rightarrow> string" where
  "first_capture re s = (case FindStringSubmatch re s of Some (c # _) \<Rightarrow> c | _ \<Rightarrow> [])"

definition nf_verdict :: "string \<Rightarrow> string \<times> string" where
  "nf_verdict message =
     (if contains message ''[NETFILTER-DROP-DOH]'' then (''blocked'', ''DoH chokepoint'')
      else if contains message ''[NETFILTER-DROP-DOT]'' then (''blocked'', ''DoT chokepoint'')
      else if contains message ''[NETFILTER-DROP'' then (''blocked'', [])
      else if contains message ''[NETFILTER-ACCEPT'' then (''allowed'', [])
      else (''logged'', []))"

definition nf_entry :: "TrafficLogService \<Rightarrow> string \<Rightarrow> TrafficEntry option" where
  "nf_entry s message =
     (case FindStringSubmatch nflogRe message of
        Some (src # dst # proto # _) \<Rightarrow>
          Some (entry0\<lparr>te_src_ip := src, te_dst_ip := dst, te_protocol := proto, te_source := ''forward'',
            te_dst_port := first_capture nflogPortRe message, te_src_mac := first_capture nflogMacRe message,
            te_action := fst (nf_verdict message),
            te_policy := (if snd (nf_verdict message) \<noteq> [] then snd (nf_verdict message)
              else first_capture nflogPolicyRe message),
            te_domain := (case map_of (dnsCache s) dst of None \<Rightarrow> [] | Some d \<Rightarrow> d)\<rparr>)
      | _ \<Rightarrow> None)"

definition parseNfLine :: "faults \<Rightarrow> string \<Rightarrow> string \<Rightarrow> TrafficLogService \<Rightarrow> log_tables \<Rightarrow> log_tables" where
  "parseNfLine fails stamp message s t =
     (case nf_entry s message of None \<Rightarrow> t | Some e \<Rightarrow> insertEntry fails stamp s e t)"

definition cache_reply :: "string \<Rightarrow> string \<Rightarrow> TrafficLogService \<Rightarrow> TrafficLogService" where
  "cache_reply ip domain s =
     (let c = (ip, domain) # filter (\<lambda>(k, _). k \<noteq> ip) (dnsCache s) in
      s\<lparr>dnsCache := if length c > 10000 then [] else c\<rparr>)"

definition parseDnsLine :: "faults \<Rightarrow> string \<Rightarrow> string \<Rightarrow> TrafficLogService \<Rightarrow> log_tables \<Rightarrow> TrafficLogService \<times> log_tables" where
  "parseDnsLine fails stamp message s t =
     (case FindStringSubmatch dnsQueryRe message of
        Some (_ # domain # clientIP # _) \<Rightarrow>
          if domain = ''localhost'' \<or> has_suffix domain ''.local'' then (s, t)
          else (s, insertEntry fails stamp s (entry0\<lparr>te_protocol := ''DNS'', te_dst_port := ''53'', te_src_ip := clientIP,
                 te_domain := domain, te_action := (if dnsResolvable s domain then ''resolved'' else ''sinkholed''),
                 te_source := ''dns''\<rparr>) t)
      | _ \<Rightarrow>
          (case FindStringSubmatch dnsReplyRe message of
             Some (domain # ip # _) \<Rightarrow> (cache_reply ip domain s, t)
           | _ \<Rightarrow> (s, t)))"

definition LogSNIEvent :: "faults \<Rightarrow> string \<Rightarrow> string \<Rightarrow> string \<Rightarrow> bool \<Rightarrow> TrafficLogService \<Rightarrow> log_tables \<Rightarrow> log_tables" where
  "LogSNIEvent fails stamp clientIP sni allowed s t =
     insertEntry fails stamp s (entry0\<lparr>te_src_ip := clientIP, te_domain := sni, te_dst_port := ''443'', te_protocol := ''TLS'',
       te_action := (if allowed then ''allowed'' else ''blocked''), te_source := ''sniproxy''\<rparr>) t"

subsection \<open>Cursors and removal\<close>

definition getCursor :: "faults \<Rightarrow> string \<Rightarrow> log_tables \<Rightarrow> string" where
  "getCursor fails key t = (if fails ''read cursor'' then [] else case kv_store t key of None \<Rightarrow> [] | Some v \<Rightarrow> v)"

definition setCursor :: "faults \<Rightarrow> string \<Rightarrow> string \<Rightarrow> log_tables \<Rightarrow> log_tables" where
  "setCursor fails key v t = (if fails ''write cursor'' then t else t\<lparr>kv_store := (kv_store t)(key \<mapsto> v)\<rparr>)"

definition str_less :: "string \<Rightarrow> string \<Rightarrow> bool" where
  "str_less a b \<longleftrightarrow> str_le a b \<and> a \<noteq> b"

definition prune_log :: "faults \<Rightarrow> (string \<Rightarrow> string option) \<Rightarrow> db \<Rightarrow> log_tables \<Rightarrow> log_tables" where
  "prune_log fails clock d t =
     (let v = (if fails ''read log_retention_days'' then [] else
                 case map_of (settings d) ''log_retention_days'' of None \<Rightarrow> [] | Some v \<Rightarrow> v);
          days = (if v = [] then ''30'' else v) in
      if fails ''prune old entries'' then t
      else case clock (''-'' @ days @ '' days'') of
        None \<Rightarrow> t
      | Some cutoff \<Rightarrow> t\<lparr>query_log := filter (\<lambda>e. \<not> str_less (te_timestamp e) cutoff) (query_log t)\<rparr>)"

definition WipeForDevice :: "faults \<Rightarrow> string \<Rightarrow> string \<Rightarrow> log_tables \<Rightarrow> nat option \<times> log_tables" where
  "WipeForDevice fails mac ip t =
     (let mac = to_lower (trim_space mac); ip = trim_space ip in
      if mac = [] \<and> ip = [] then (Some 0, t)
      else if fails ''wipe device'' then (None, t)
      else let gone = (\<lambda>e. map lower_char (te_src_mac e) = mac \<or> te_src_ip e = ip) in
        (Some (length (filter gone (query_log t))), t\<lparr>query_log := filter (\<lambda>e. \<not> gone e) (query_log t)\<rparr>))"

definition Clear :: "faults \<Rightarrow> log_tables \<Rightarrow> bool \<times> log_tables" where
  "Clear fails t =
     (if fails ''clear log'' then (False, t)
      else let t1 = t\<lparr>query_log := []\<rparr> in
        if fails ''reset sequence'' then (False, t1) else (True, t1\<lparr>query_log_seq := 0\<rparr>))"

subsection \<open>Queries\<close>

definition newest_first :: "TrafficEntry list \<Rightarrow> TrafficEntry list" where
  "newest_first es = sort_by (\<lambda>a b. te_id b \<le> te_id a) es"

definition CountByActionSince :: "faults \<Rightarrow> string \<Rightarrow> string \<Rightarrow> log_tables \<Rightarrow> nat" where
  "CountByActionSince fails act since t =
     (if fails ''count by action'' then 0
      else length (filter (\<lambda>e. te_action e = act \<and> str_le since (te_timestamp e)) (query_log t)))"

definition RecentEntries :: "faults \<Rightarrow> int \<Rightarrow> log_tables \<Rightarrow> TrafficEntry list" where
  "RecentEntries fails lim t =
     (let lim = (if lim \<le> 0 then 200 else lim) in
      if fails ''recent entries'' then [] else take (nat lim) (newest_first (query_log t)))"

definition like_any :: "string \<Rightarrow> TrafficEntry \<Rightarrow> bool" where
  "like_any q e \<longleftrightarrow> (let pat = ''%'' @ q @ ''%'' in
     like pat (te_domain e) \<or> like pat (te_src_ip e) \<or> like pat (te_dst_ip e) \<or> like pat (te_dst_port e))"

definition Search :: "faults \<Rightarrow> string \<Rightarrow> int \<Rightarrow> log_tables \<Rightarrow> TrafficEntry list" where
  "Search fails q lim t =
     (let lim = (if lim \<le> 0 then 100 else lim) in
      if fails ''search log'' then []
      else map (\<lambda>e. e\<lparr>te_source := [], te_policy := []\<rparr>) (take (nat lim) (newest_first (filter (like_any q) (query_log t)))))"

record TrafficFilter =
  tf_page :: int
  tf_per_page :: int
  tf_action :: string
  tf_query :: string
  tf_from :: string
  tf_to :: string
  tf_source :: string
  tf_protocol :: string

record PagedResult =
  pr_entries :: "TrafficEntry list"
  pr_total :: int
  pr_page :: int
  pr_pages :: int
  pr_per_page :: int

text \<open>The characters of a query are counted on its UTF-8 text: every byte but the continuations.\<close>

definition rune_count :: "string \<Rightarrow> nat" where
  "rune_count s = length (filter (\<lambda>c. \<not> (128 \<le> ord c \<and> ord c < 192)) s)"

definition fts_phrase :: "string \<Rightarrow> string" where
  "fts_phrase q = CHR 0x22 # concat (map (\<lambda>c. if c = CHR 0x22 then [c, c] else [c]) q) @ [CHR 0x22]"

definition log_matches :: "(string \<Rightarrow> TrafficEntry \<Rightarrow> bool) \<Rightarrow> TrafficFilter \<Rightarrow> TrafficEntry \<Rightarrow> bool" where
  "log_matches fts f e \<longleftrightarrow>
     (if tf_action f = ''blocked'' then te_action e \<in> {''blocked'', ''sinkholed''}
      else tf_action f = [] \<or> tf_action f = ''all'' \<or> te_action e = tf_action f) \<and>
     (tf_source f = [] \<or> tf_source f = ''all'' \<or> te_source e = tf_source f) \<and>
     (tf_protocol f = [] \<or> to_lower (tf_protocol f) = ''all'' \<or> map upper_char (te_protocol e) = to_upper (tf_protocol f)) \<and>
     (tf_query f = [] \<or> (if 3 \<le> rune_count (tf_query f) then fts (fts_phrase (tf_query f)) e else like_any (tf_query f) e)) \<and>
     (tf_from f = [] \<or> str_le (tf_from f) (te_timestamp e)) \<and>
     (tf_to f = [] \<or> str_le (te_timestamp e) (tf_to f))"

definition QueryPaginated :: "faults \<Rightarrow> (string \<Rightarrow> TrafficEntry \<Rightarrow> bool) \<Rightarrow> TrafficFilter \<Rightarrow> log_tables \<Rightarrow> PagedResult" where
  "QueryPaginated fails fts f t =
     (let page = (if tf_page f < 1 then 1 else tf_page f);
          per = (if tf_per_page f \<le> 0 \<or> tf_per_page f > 500 then 50 else tf_per_page f);
          ms = newest_first (filter (log_matches fts f) (query_log t));
          total = (if fails ''count page'' then 0 else int (length ms));
          pages = (let n = (total + per - 1) div per in if n < 1 then 1 else n);
          page = (if page > pages then pages else page);
          offset = (page - 1) * per;
          es = (if fails ''query page'' then [] else take (nat per) (drop (nat offset) ms)) in
      \<lparr>pr_entries = es, pr_total = total, pr_page = page, pr_pages = pages, pr_per_page = per\<rparr>)"

subsection \<open>Statistics\<close>

definition timeWhereClause :: "(string \<Rightarrow> string option) \<Rightarrow> string \<Rightarrow> TrafficEntry \<Rightarrow> bool" where
  "timeWhereClause clock rng e =
     (let since = (\<lambda>m. case clock m of None \<Rightarrow> False | Some c \<Rightarrow> str_le c (te_timestamp e)) in
      if rng = ''1h'' then since ''-1 hour''
      else if rng = ''24h'' then since ''-1 day''
      else if rng = ''7d'' then since ''-7 days''
      else if rng = ''30d'' then since ''-30 days''
      else if rng = ''all'' then True
      else since ''-1 day'')"

record StatsSummary =
  ss_total :: nat
  ss_queries :: nat
  ss_allowed :: nat
  ss_blocked :: nat
  ss_domains :: nat
  ss_clients :: nat

definition Summary :: "faults \<Rightarrow> (string \<Rightarrow> string option) \<Rightarrow> string \<Rightarrow> log_tables \<Rightarrow> StatsSummary" where
  "Summary fails clock rng t =
     (let es = (if fails ''summary'' then [] else filter (timeWhereClause clock rng) (query_log t)) in
      \<lparr>ss_total = length es, ss_queries = length (filter (\<lambda>e. te_source e = ''dns'') es),
        ss_allowed = length (filter (\<lambda>e. te_action e = ''allowed'') es),
        ss_blocked = length (filter (\<lambda>e. te_action e = ''blocked'') es),
        ss_domains = card (set (map te_domain es) - {[]}), ss_clients = card (set (map te_src_ip es) - {[]})\<rparr>)"

definition top_counts :: "int \<Rightarrow> string list \<Rightarrow> (string \<times> nat) list" where
  "top_counts lim ks =
     take (nat lim) (sort_by (\<lambda>a b. snd b \<le> snd a) (map (\<lambda>k. (k, count_list ks k)) (remdups ks)))"

definition TopDomains :: "faults \<Rightarrow> (string \<Rightarrow> string option) \<Rightarrow> string \<Rightarrow> string \<Rightarrow> string \<Rightarrow> int \<Rightarrow> log_tables \<Rightarrow>
    (string \<times> nat) list" where
  "TopDomains fails clock act rng q lim t =
     (let lim = (if lim \<le> 0 then 50 else lim);
          es = filter (\<lambda>e. (te_domain e \<noteq> [] \<or> te_dst_ip e \<noteq> []) \<and> timeWhereClause clock rng e \<and>
                 (act = [] \<or> act = ''all'' \<or> te_action e = act) \<and>
                 (q = [] \<or> like (''%'' @ q @ ''%'') (te_domain e) \<or> like (''%'' @ q @ ''%'') (te_dst_ip e))) (query_log t) in
      if fails ''top domains'' then []
      else top_counts lim (map (\<lambda>e. if te_domain e = [] then te_dst_ip e else te_domain e) es))"

definition TopClients :: "faults \<Rightarrow> (string \<Rightarrow> string option) \<Rightarrow> string \<Rightarrow> int \<Rightarrow> log_tables \<Rightarrow> (string \<times> nat) list" where
  "TopClients fails clock rng lim t =
     (let lim = (if lim \<le> 0 then 10 else lim) in
      if fails ''top clients'' then []
      else top_counts lim (map te_src_ip (filter (\<lambda>e. te_src_ip e \<noteq> [] \<and> timeWhereClause clock rng e) (query_log t))))"

subsection \<open>The stored verdict\<close>

lemma dnsResolvable_iff:
  "dnsResolvable s d \<longleftrightarrow> canon d \<noteq> [] \<and> \<not> isProtectedDenied (canon d) \<and> list_ex (subdomain_of (canon d)) (allowSuffix s)"
  by (auto simp: dnsResolvable_def canon_def [symmetric] Let_def list_ex_iff subdomain_of_def)

lemma isMuted_iff:
  "isMuted s d \<longleftrightarrow> canon d \<noteq> [] \<and> (canon d \<in> set (mutedExact s) \<or> list_ex (subdomain_of (canon d)) (mutedSuffix s))"
  by (auto simp: isMuted_def canon_def [symmetric] Let_def list_ex_iff subdomain_of_def)

subsection \<open>What reaches the log\<close>

datatype log_event =
    NfLine string
  | DnsLine string
  | SNIEvent string string bool

fun ingest :: "faults \<times> string \<times> log_event \<Rightarrow> TrafficLogService \<times> log_tables \<Rightarrow> TrafficLogService \<times> log_tables" where
  "ingest (fails, stamp, NfLine m) (s, t) = (s, parseNfLine fails stamp m s t)"
| "ingest (fails, stamp, DnsLine m) (s, t) = parseDnsLine fails stamp m s t"
| "ingest (fails, stamp, SNIEvent ip sni ok) (s, t) = (s, LogSNIEvent fails stamp ip sni ok s t)"

definition suppressed :: "TrafficLogService \<Rightarrow> TrafficEntry \<Rightarrow> bool" where
  "suppressed s e \<longleftrightarrow> isIgnored s (te_src_mac e) (te_src_ip e) \<or> te_domain e \<noteq> [] \<and> isMuted s (te_domain e)"

definition same_rules :: "TrafficLogService \<Rightarrow> TrafficLogService \<Rightarrow> bool" where
  "same_rules s s' \<longleftrightarrow> s' = s\<lparr>dnsCache := dnsCache s'\<rparr>"

definition verdicts :: "string list" where
  "verdicts = [''blocked'', ''allowed'', ''logged'', ''resolved'', ''sinkholed'']"

definition row_ok :: "TrafficLogService \<Rightarrow> TrafficEntry \<Rightarrow> bool" where
  "row_ok s e \<longleftrightarrow> \<not> suppressed s e \<and> te_action e \<in> set verdicts"

definition appended :: "TrafficLogService \<Rightarrow> log_tables \<Rightarrow> log_tables \<Rightarrow> bool" where
  "appended s t t' \<longleftrightarrow> (\<exists>es. query_log t' = query_log t @ es \<and> query_log_seq t' = query_log_seq t + int (length es) \<and>
     map te_id es = [query_log_seq t + 1 .. query_log_seq t'] \<and> list_all (row_ok s) es)"

lemma same_rules_ok: "same_rules s s' \<Longrightarrow> row_ok s' = row_ok s"
proof -
  have "isIgnored (s\<lparr>dnsCache := c\<rparr>) m i = isIgnored s m i" "isMuted (s\<lparr>dnsCache := c\<rparr>) d = isMuted s d" for c m i d
    by (simp_all add: isIgnored_def isMuted_def)
  then have "row_ok (s\<lparr>dnsCache := c\<rparr>) = row_ok s" for c unfolding row_ok_def suppressed_def by simp
  then show "same_rules s s' \<Longrightarrow> ?thesis" unfolding same_rules_def by metis
qed

lemma insertEntry_appended:
  assumes "te_source e \<noteq> []" "te_action e \<in> set verdicts"
  shows "appended s t (insertEntry fails stamp s e t)"
proof -
  let ?e = "e\<lparr>te_id := query_log_seq t + 1, te_timestamp := stamp\<rparr>"
  have "row_ok s ?e \<longleftrightarrow> \<not> suppressed s e" using assms(2) by (simp add: row_ok_def suppressed_def)
  moreover have "insertEntry fails stamp s e t = t \<or> \<not> suppressed s e \<and> insertEntry fails stamp s e t =
      t\<lparr>query_log_seq := query_log_seq t + 1, query_log := query_log t @ [?e]\<rparr>"
    using assms(1) by (simp add: insertEntry_def suppressed_def Let_def)
  ultimately show ?thesis unfolding appended_def by fastforce
qed

lemma appended_refl: "appended s t t"
  by (auto simp: appended_def intro: exI [of _ "[]"])

lemma appended_trans:
  assumes "appended s t t1" "appended s t1 t2"
  shows "appended s t t2"
proof -
  obtain es1 where 1: "query_log t1 = query_log t @ es1" "query_log_seq t1 = query_log_seq t + int (length es1)"
    "map te_id es1 = [query_log_seq t + 1 .. query_log_seq t1]" "list_all (row_ok s) es1"
    using assms(1) unfolding appended_def by blast
  obtain es2 where 2: "query_log t2 = query_log t1 @ es2" "query_log_seq t2 = query_log_seq t1 + int (length es2)"
    "map te_id es2 = [query_log_seq t1 + 1 .. query_log_seq t2]" "list_all (row_ok s) es2"
    using assms(2) unfolding appended_def by blast
  have "[query_log_seq t + 1 .. query_log_seq t2] = [query_log_seq t + 1 .. query_log_seq t1] @ [query_log_seq t1 + 1 .. query_log_seq t2]"
    using 1(2) 2(2) upto_split2 [of "query_log_seq t + 1" "query_log_seq t1" "query_log_seq t2"]
    by (cases "es1 = []") (simp_all add: Suc_le_eq)
  with 1 2 show ?thesis unfolding appended_def by (intro exI [of _ "es1 @ es2"]) simp
qed

lemma nf_entry_fields:
  "nf_entry s m = Some x \<Longrightarrow> te_source x = ''forward'' \<and> te_action x = fst (nf_verdict m)"
  by (auto simp: nf_entry_def simp del: append.simps split: option.splits list.splits)

lemma parseNf_appended: "appended s t (parseNfLine fails stamp m s t)"
proof (cases "nf_entry s m")
  case None
  then show ?thesis by (simp add: parseNfLine_def appended_refl)
next
  case (Some x)
  have "fst (nf_verdict m) \<in> set verdicts" by (simp add: nf_verdict_def verdicts_def)
  with nf_entry_fields [OF Some] have "te_source x \<noteq> []" "te_action x \<in> set verdicts" by simp_all
  then show ?thesis using Some insertEntry_appended by (simp add: parseNfLine_def)
qed

lemma parseDns_appended:
  assumes "parseDnsLine fails stamp m s t = (s', t')"
  shows "same_rules s s' \<and> appended s t t'"
proof (cases "\<exists>q dom ip r. FindStringSubmatch dnsQueryRe m = Some (q # dom # ip # r)")
  case True
  then obtain q dom ip r where q: "FindStringSubmatch dnsQueryRe m = Some (q # dom # ip # r)" by blast
  let ?e = "entry0\<lparr>te_protocol := ''DNS'', te_dst_port := ''53'', te_src_ip := ip, te_domain := dom,
      te_action := (if dnsResolvable s dom then ''resolved'' else ''sinkholed''), te_source := ''dns''\<rparr>"
  have "s' = s" "t' = t \<or> t' = insertEntry fails stamp s ?e t"
    using assms q unfolding parseDnsLine_def by (auto simp del: TrafficEntry.update_convs split: if_split_asm)
  moreover have "appended s t (insertEntry fails stamp s ?e t)"
    by (rule insertEntry_appended) (simp_all add: verdicts_def)
  ultimately show ?thesis by (auto simp: same_rules_def appended_refl)
next
  case False
  with assms have "t' = t \<and> (s' = s \<or> (\<exists>d ip. s' = cache_reply ip d s))"
    by (auto simp: parseDnsLine_def split: option.splits list.splits)
  then show ?thesis by (auto simp: same_rules_def cache_reply_def Let_def appended_refl)
qed

lemma logSNI_appended: "appended s t (LogSNIEvent fails stamp ip sni ok s t)"
  unfolding LogSNIEvent_def by (rule insertEntry_appended) (simp_all add: verdicts_def)

lemma ingest_ok:
  assumes "ingest ev (s, t) = (s', t')"
  shows "same_rules s s' \<and> appended s t t'"
proof -
  obtain fails stamp e where ev: "ev = (fails, stamp, e)" by (metis prod_cases3)
  show ?thesis
    using assms ev parseNf_appended parseDns_appended logSNI_appended
    by (cases e) (auto simp: same_rules_def)
qed

lemma ingest_all_ok:
  "fold ingest evs (s, t) = (s', t') \<Longrightarrow> same_rules s s' \<and> appended s t t'"
proof (induction evs arbitrary: s t)
  case Nil
  then show ?case by (auto simp: same_rules_def appended_refl)
next
  case (Cons ev evs)
  obtain s1 t1 where 1: "ingest ev (s, t) = (s1, t1)" by fastforce
  from ingest_ok [OF 1] have a: "same_rules s s1" "appended s t t1" by blast+
  have "same_rules s1 s' \<and> appended s1 t1 t'" using Cons.IH [of s1 t1] Cons.prems 1 by simp
  then have b: "same_rules s1 s'" "appended s1 t1 t'" by blast+
  have "appended s t1 t'" using b(2) same_rules_ok [OF a(1)] by (simp add: appended_def)
  with a(2) have "appended s t t'" by (rule appended_trans)
  moreover have "same_rules s s'" using a(1) b(1) unfolding same_rules_def by (metis TrafficLogService.surjective TrafficLogService.update_convs(1))
  ultimately show ?case by blast
qed


definition no_log :: log_tables where
  "no_log = \<lparr>query_log = [], query_log_seq = 0, muted_domains = [], muted_seq = 0, kv_store = Map.empty\<rparr>"


subsection \<open>Paging\<close>

lemma concat_chunks: "concat (map (\<lambda>k. take p (drop (k * p) xs)) [0..<n]) = take (n * p) xs"
proof (induction n)
  case (Suc n)
  have "take (n * p) xs @ take p (drop (n * p) xs) = take (n * p + p) xs" by (simp add: take_add)
  with Suc show ?case by (simp add: add.commute)
qed simp

lemma ceil_covers: "0 < p \<Longrightarrow> 0 \<le> n \<Longrightarrow> n \<le> (n + p - 1) div p * (p :: int)"
proof -
  assume p: "0 < p" "0 \<le> n"
  have "n + p - 1 = (n + p - 1) div p * p + (n + p - 1) mod p" by simp
  moreover have "(n + p - 1) mod p < p" using p by simp
  ultimately show ?thesis by linarith
qed

lemma log_matches_page [simp]: "log_matches fts (f\<lparr>tf_page := k\<rparr>) = log_matches fts f"
  by (simp add: log_matches_def fun_eq_iff)

definition page_size :: "TrafficFilter \<Rightarrow> int" where
  "page_size f = (if tf_per_page f \<le> 0 \<or> tf_per_page f > 500 then 50 else tf_per_page f)"

definition page_count :: "(string \<Rightarrow> TrafficEntry \<Rightarrow> bool) \<Rightarrow> TrafficFilter \<Rightarrow> log_tables \<Rightarrow> int" where
  "page_count fts f t = max 1 ((int (length (filter (log_matches fts f) (query_log t))) + page_size f - 1) div page_size f)"

lemma QueryPaginated_eq:
  "QueryPaginated no_faults fts f t =
     (let p = min (max 1 (tf_page f)) (page_count fts f t) in
      \<lparr>pr_entries = take (nat (page_size f)) (drop (nat ((p - 1) * page_size f)) (newest_first (filter (log_matches fts f) (query_log t)))),
        pr_total = int (length (filter (log_matches fts f) (query_log t))), pr_page = p, pr_pages = page_count fts f t,
        pr_per_page = page_size f\<rparr>)"
proof -
  have len: "length (newest_first es) = length es" for es by (simp add: newest_first_def)
  have mx: "max 1 a = (if a < 1 then 1 else a)" "min a b = (if b < a then b else a)" for a b :: int by (simp_all add: max_def min_def)
  show ?thesis unfolding QueryPaginated_def page_count_def Let_def no_faults_def len page_size_def [symmetric] mx by simp
qed

text \<open>
  Paging neither loses nor repeats an entry.  Whatever the filter and the requested page, the
  page served lies between the first and the last and holds at most the page size, which is between
  one and 500; and the pages from the first to the last, one after the other, are exactly the
  matching rows, newest first.
\<close>

theorem pages_partition_log:
  "let r = QueryPaginated no_faults fts f t in
     1 \<le> pr_per_page r \<and> pr_per_page r \<le> 500 \<and> 1 \<le> pr_page r \<and> pr_page r \<le> pr_pages r \<and>
     int (length (pr_entries r)) \<le> pr_per_page r \<and>
     concat (map (\<lambda>k. pr_entries (QueryPaginated no_faults fts (f\<lparr>tf_page := int k + 1\<rparr>) t)) [0..<nat (pr_pages r)]) =
       newest_first (filter (log_matches fts f) (query_log t))"
proof -
  let ?ms = "newest_first (filter (log_matches fts f) (query_log t))"
  let ?p = "page_size f" and ?n = "page_count fts f t"
  have p: "1 \<le> ?p" "?p \<le> 500" by (simp_all add: page_size_def)
  have n: "1 \<le> ?n" by (simp add: page_count_def)
  have [simp]: "page_count fts (f\<lparr>tf_page := k\<rparr>) t = ?n" "page_size (f\<lparr>tf_page := k\<rparr>) = ?p" for k
    by (simp_all add: page_count_def page_size_def)
  have pg: "pr_entries (QueryPaginated no_faults fts (f\<lparr>tf_page := int k + 1\<rparr>) t) = take (nat ?p) (drop (k * nat ?p) ?ms)"
    if "k < nat ?n" for k
  proof -
    have "nat (int k * ?p) = k * nat ?p" using p by (simp add: nat_mult_distrib)
    with that show ?thesis by (simp add: QueryPaginated_eq Let_def min_def max_def)
  qed
  have "concat (map (\<lambda>k. pr_entries (QueryPaginated no_faults fts (f\<lparr>tf_page := int k + 1\<rparr>) t)) [0..<nat ?n]) =
      concat (map (\<lambda>k. take (nat ?p) (drop (k * nat ?p) ?ms)) [0..<nat ?n])"
    by (intro arg_cong [of _ _ concat] map_cong refl) (simp add: pg)
  also have "\<dots> = take (nat ?n * nat ?p) ?ms" by (rule concat_chunks)
  also have "\<dots> = ?ms"
  proof (rule take_all)
    have "int (length ?ms) \<le> (int (length ?ms) + ?p - 1) div ?p * ?p" using p by (intro ceil_covers) auto
    also have "\<dots> \<le> ?n * ?p" using p by (intro mult_right_mono) (auto simp: page_count_def newest_first_def)
    finally show "length ?ms \<le> nat ?n * nat ?p" using n p by (simp add: nat_mult_distrib [symmetric] le_nat_iff)
  qed
  finally have all: "concat (map (\<lambda>k. pr_entries (QueryPaginated no_faults fts (f\<lparr>tf_page := int k + 1\<rparr>) t)) [0..<nat ?n]) = ?ms" .
  show ?thesis using p n all by (simp add: QueryPaginated_eq Let_def)
qed

subsection \<open>The verdict of a query\<close>

text \<open>The allow decision of the log is the gate of the SNI proxy over the same list.\<close>

theorem stored_verdict_is_sni_verdict:
  assumes "ValidDomain (canon q)"
  shows "dnsResolvable (RefreshAllowCache no_faults d s) q \<longleftrightarrow> sniAllowed q (sp_suffixes (RefreshCache no_faults d proxy))"
proof -
  have "canon (canon q) = canon q" by (rule canon_ValidDomain) (rule assms)
  then have "isProtectedDenied (canon q) \<longleftrightarrow> isProtectedDenied q" by (simp add: isProtectedDenied_iff)
  moreover have "allowSuffix (RefreshAllowCache no_faults d s) = sp_suffixes (RefreshCache no_faults d proxy)"
    by (simp add: RefreshAllowCache_def RefreshCache_def lookup_domains_def no_faults_def)
  moreover have "\<forall>p\<in>set (sp_suffixes (RefreshCache no_faults d proxy)). p \<noteq> []"
    by (simp add: RefreshCache_def lookup_domains_def no_faults_def)
  ultimately show ?thesis by (auto simp: dnsResolvable_iff sni.gate_iff list_ex_iff)
qed

end
