(* ===== verification/Go_Crypto.thy ===== *)
theory Go_Crypto
  imports Go_Prelude
begin

text \<open>
  What the sources use of Go's encodings and hashes: \<^verbatim>\<open>encoding/hex\<close>, \<^verbatim>\<open>base64.RawURLEncoding\<close> and
  \<^verbatim>\<open>crypto/sha256\<close>, the last as FIPS 180-4 gives it on 32-bit words.  A token's text is its seed in
  the URL alphabet, so trimming white space leaves it as it is.
\<close>

unbundle bit_operations_syntax

definition b64_digit :: "nat \<Rightarrow> char" where
  "b64_digit d =
     (if d < 26 then char_of (65 + d) else if d < 52 then char_of (71 + d) else if d < 62 then char_of (d - 4)
      else if d = 62 then CHR ''-'' else CHR ''_'')"

fun raw_url_encode :: "byte list \<Rightarrow> string" where
  "raw_url_encode (a # b # c # bs) =
     map b64_digit [unat a div 4, unat a mod 4 * 16 + unat b div 16, unat b mod 16 * 4 + unat c div 64, unat c mod 64] @
     raw_url_encode bs"
| "raw_url_encode [a, b] = map b64_digit [unat a div 4, unat a mod 4 * 16 + unat b div 16, unat b mod 16 * 4]"
| "raw_url_encode [a] = map b64_digit [unat a div 4, unat a mod 4 * 16]"
| "raw_url_encode [] = []"

type_synonym w32 = "32 word"

text \<open>
  The constants are the first 32 bits of the fractional parts of the cube roots of the first 64
  primes, and the initial state those of the square roots of the first eight.
\<close>

definition root_floor :: "nat \<Rightarrow> int \<Rightarrow> int" where
  "root_floor k n = fold (\<lambda>i r. if (r + 2 ^ i) ^ k \<le> n then r + 2 ^ i else r) (rev [0..<40]) 0"

definition small_primes :: "int list" where
  "small_primes = filter (\<lambda>n. list_all (\<lambda>d. n mod d \<noteq> 0) [2..n - 1]) [2..311]"

definition sha_k :: "w32 list" where
  "sha_k = map (\<lambda>p. word_of_int (root_floor 3 (p * 2 ^ 96))) small_primes"

definition sha_init :: "w32 list" where
  "sha_init = map (\<lambda>p. word_of_int (root_floor 2 (p * 2 ^ 64))) (take 8 small_primes)"

definition rotr :: "nat \<Rightarrow> w32 \<Rightarrow> w32" where
  "rotr n x = drop_bit n x OR push_bit (32 - n) x"

definition sha_round :: "w32 \<times> w32 \<Rightarrow> w32 list \<Rightarrow> w32 list" where
  "sha_round kw s = (case (kw, s) of ((k, w), [a, b, c, d, e, f, g, h]) \<Rightarrow>
     let t1 = h + (rotr 6 e XOR rotr 11 e XOR rotr 25 e) + ((e AND f) XOR (NOT e AND g)) + k + w;
         t2 = (rotr 2 a XOR rotr 13 a XOR rotr 22 a) + ((a AND b) XOR (a AND c) XOR (b AND c)) in
     [t1 + t2, a, b, c, d + t1, e, f, g] | _ \<Rightarrow> s)"

text \<open>The message schedule, from the last sixteen words, oldest first.\<close>

fun schedule :: "nat \<Rightarrow> w32 list \<Rightarrow> w32 list" where
  "schedule 0 ws = []"
| "schedule (Suc n) ws =
     (let w1 = ws ! 1; w14 = ws ! 14;
          w = (rotr 17 w14 XOR rotr 19 w14 XOR drop_bit 10 w14) + ws ! 9 +
              (rotr 7 w1 XOR rotr 18 w1 XOR drop_bit 3 w1) + ws ! 0 in
      w # schedule n (tl ws @ [w]))"

fun be32 :: "byte list \<Rightarrow> w32 list" where
  "be32 (a # b # c # d # bs) = word_of_nat (((unat a * 256 + unat b) * 256 + unat c) * 256 + unat d) # be32 bs"
| "be32 _ = []"

definition sha_block :: "byte list \<Rightarrow> w32 list \<Rightarrow> w32 list" where
  "sha_block b s = (let ws = be32 b in map2 (+) s (fold sha_round (zip sha_k (ws @ schedule 48 ws)) s))"

fun sha_blocks :: "nat \<Rightarrow> byte list \<Rightarrow> w32 list \<Rightarrow> w32 list" where
  "sha_blocks 0 bs s = s"
| "sha_blocks (Suc n) bs s = sha_blocks n (drop 64 bs) (sha_block (take 64 bs) s)"

definition be_bytes :: "nat \<Rightarrow> nat \<Rightarrow> byte list" where
  "be_bytes n v = map (\<lambda>i. word_of_nat (v div 256 ^ (n - 1 - i))) [0..<n]"

definition sha_pad :: "byte list \<Rightarrow> byte list" where
  "sha_pad bs = bs @ 0x80 # replicate ((119 - length bs mod 64) mod 64) 0 @ be_bytes 8 (8 * length bs)"

definition sha256 :: "byte list \<Rightarrow> byte list" where
  "sha256 bs = (let p = sha_pad bs in
     concat (map (\<lambda>w. be_bytes 4 (unat w)) (sha_blocks (length p div 64) p sha_init)))"

definition sha256_hex :: "string \<Rightarrow> string" where
  "sha256_hex s = hex_encode (sha256 (str_bytes s))"

lemma b64_digit_visible: "visible (b64_digit d)"
  by (auto simp: b64_digit_def visible_def ascii_def space1_def)

lemma raw_url_encode_visible: "list_all visible (raw_url_encode bs)"
  by (induction bs rule: raw_url_encode.induct) (simp_all add: b64_digit_visible)

lemma raw_url_encode_Nil_iff [simp]: "raw_url_encode bs = [] \<longleftrightarrow> bs = []"
  by (cases bs rule: raw_url_encode.cases) simp_all

lemma trim_raw_url_encode [simp]: "trim_space (raw_url_encode bs) = raw_url_encode bs"
  by (rule trim_space_id) (rule raw_url_encode_visible)

end
