(* ===== verification/Tesla_Token.thy ===== *)
theory Tesla_Token
  imports Models Go_Crypto
begin

text \<open>
  \<^verbatim>\<open>internal/services/tesla_token.go\<close>: the bearer tokens of the command API.  The table is a list of rows
  with its AUTOINCREMENT counter; \<open>now\<close> is the clock in nanoseconds, and the stored time stamps are
  whole seconds, which SQLite compares as text in the order of the numbers.  The random seed is an
  argument.  The abstract view of the table is a life cycle per hash, and every operation refines it.
\<close>

definition teslaTokenBytes :: nat where
  "teslaTokenBytes = 32"

record TeslaClientToken =
  ct_id :: int
  ct_name :: string
  ct_created :: time
  ct_last_used :: "time option"
  ct_revoked :: "time option"
  ct_plain :: string
  ct_expires :: "time option"

record TeslaTokenIssue =
  ti_token :: TeslaClientToken
  ti_plain :: string

record token_row =
  tk_id :: int
  tk_name :: string
  tk_hash :: string
  tk_plain :: string
  tk_created :: time
  tk_last_used :: "time option"
  tk_revoked :: "time option"
  tk_expires :: "time option"

record token_table =
  tokens :: "token_row list"
  tokens_seq :: int

datatype token_error =
    NameEmpty | NameTooLong | TTLNotPositive | SeedFailed | InsertFailed | GetFailed | TokenQueryFailed
  | ErrTeslaTokenNotFound | ErrTeslaTokenInvalid

abbreviation secs :: "time \<Rightarrow> time" where
  "secs t \<equiv> t div 1000000000"

definition hashTeslaToken :: "string \<Rightarrow> string" where
  "hashTeslaToken plain = sha256_hex plain"

definition get_token :: "faults \<Rightarrow> int \<Rightarrow> token_table \<Rightarrow> token_error + TeslaClientToken" where
  "get_token fails i t =
     (if fails ''get token'' then Inl GetFailed
      else case find (\<lambda>r. tk_id r = i) (tokens t) of
        None \<Rightarrow> Inl GetFailed
      | Some r \<Rightarrow> Inr \<lparr>ct_id = tk_id r, ct_name = tk_name r, ct_created = tk_created r, ct_last_used = tk_last_used r,
          ct_revoked = tk_revoked r, ct_plain = [], ct_expires = None\<rparr>)"

text \<open>The insert that \<^verbatim>\<open>Issue\<close> and \<^verbatim>\<open>IssueEphemeral\<close> share, refused when the hash is already in the table.\<close>

definition insert_token :: "faults \<Rightarrow> string \<Rightarrow> string \<Rightarrow> time option \<Rightarrow> time \<Rightarrow> token_table \<Rightarrow>
    (token_error + TeslaTokenIssue) \<times> token_table" where
  "insert_token fails name plain ex now t =
     (let hash = hashTeslaToken plain; i = tokens_seq t + 1 in
      if fails ''insert token'' \<or> hash \<in> tk_hash ` set (tokens t) then (Inl InsertFailed, t)
      else let t' = t\<lparr>tokens := tokens t @ [\<lparr>tk_id = i, tk_name = name, tk_hash = hash, tk_plain = plain, tk_created = secs now,
                        tk_last_used = None, tk_revoked = None, tk_expires = ex\<rparr>], tokens_seq := i\<rparr> in
        (case get_token fails i t' of
           Inl e \<Rightarrow> (Inl e, t')
         | Inr row \<Rightarrow> (Inr \<lparr>ti_token = row, ti_plain = plain\<rparr>, t')))"

definition Issue :: "faults \<Rightarrow> bytes \<Rightarrow> time \<Rightarrow> string \<Rightarrow> token_table \<Rightarrow> (token_error + TeslaTokenIssue) \<times> token_table" where
  "Issue fails seed now name t =
     (let name = trim_space name in
      if name = [] then (Inl NameEmpty, t)
      else if length name > 80 then (Inl NameTooLong, t)
      else if fails ''seed bearer'' then (Inl SeedFailed, t)
      else insert_token fails name (raw_url_encode seed) None now t)"

definition prune :: "time \<Rightarrow> token_row list \<Rightarrow> token_row list" where
  "prune now rs = filter (\<lambda>r. \<not> (case tk_expires r of None \<Rightarrow> False | Some e \<Rightarrow> e \<le> secs now)) rs"

definition IssueEphemeral :: "faults \<Rightarrow> bytes \<Rightarrow> time \<Rightarrow> string \<Rightarrow> time \<Rightarrow> token_table \<Rightarrow>
    (token_error + TeslaTokenIssue) \<times> token_table" where
  "IssueEphemeral fails seed now name ttl t =
     (let name = trim_space name in
      if name = [] then (Inl NameEmpty, t)
      else if length name > 80 then (Inl NameTooLong, t)
      else if ttl \<le> 0 then (Inl TTLNotPositive, t)
      else if fails ''seed bearer'' then (Inl SeedFailed, t)
      else insert_token fails name (raw_url_encode seed) (Some (secs (now + ttl))) now
        (if fails ''prune tokens'' then t else t\<lparr>tokens := prune now (tokens t)\<rparr>))"

definition List_tokens :: "faults \<Rightarrow> token_table \<Rightarrow> token_error + TeslaClientToken list" where
  "List_tokens fails t =
     (if fails ''list tokens'' then Inl TokenQueryFailed
      else Inr (map (\<lambda>r. \<lparr>ct_id = tk_id r, ct_name = tk_name r, ct_created = tk_created r, ct_last_used = tk_last_used r,
            ct_revoked = tk_revoked r, ct_plain = tk_plain r, ct_expires = None\<rparr>)
          (sort_by (\<lambda>a b. tk_created b \<le> tk_created a) (filter (\<lambda>r. tk_revoked r = None) (tokens t)))))"

definition Revoke :: "faults \<Rightarrow> time \<Rightarrow> int \<Rightarrow> token_table \<Rightarrow> token_error option \<times> token_table" where
  "Revoke fails now i t =
     (if fails ''revoke token'' then (Some TokenQueryFailed, t)
      else if list_ex (\<lambda>r. tk_id r = i \<and> tk_revoked r = None) (tokens t)
      then (None, t\<lparr>tokens := map (\<lambda>r. if tk_id r = i \<and> tk_revoked r = None then r\<lparr>tk_revoked := Some (secs now)\<rparr> else r) (tokens t)\<rparr>)
      else if list_ex (\<lambda>r. tk_id r = i) (tokens t) \<and> \<not> fails ''count tokens'' then (None, t)
      else (Some ErrTeslaTokenNotFound, t))"

definition Delete_token :: "faults \<Rightarrow> int \<Rightarrow> token_table \<Rightarrow> token_error option \<times> token_table" where
  "Delete_token fails i t =
     (if fails ''delete token'' then (Some TokenQueryFailed, t)
      else if list_ex (\<lambda>r. tk_id r = i) (tokens t)
      then (None, t\<lparr>tokens := filter (\<lambda>r. tk_id r \<noteq> i) (tokens t)\<rparr>)
      else (Some ErrTeslaTokenNotFound, t))"

definition set_row :: "int \<Rightarrow> (token_row \<Rightarrow> token_row) \<Rightarrow> token_table \<Rightarrow> token_table" where
  "set_row i f t = t\<lparr>tokens := map (\<lambda>r. if tk_id r = i then f r else r) (tokens t)\<rparr>"

definition accepts :: "time \<Rightarrow> string \<Rightarrow> token_row \<Rightarrow> bool" where
  "accepts now hash r \<longleftrightarrow> tk_hash r = hash \<and> tk_revoked r = None \<and>
     (case tk_expires r of None \<Rightarrow> True | Some e \<Rightarrow> secs now < e)"

definition Validate_token :: "faults \<Rightarrow> time \<Rightarrow> string \<Rightarrow> token_table \<Rightarrow> (token_error + TeslaClientToken) \<times> token_table" where
  "Validate_token fails now plain t =
     (let plain = trim_space plain in
      if plain = [] then (Inl ErrTeslaTokenInvalid, t)
      else if fails ''validate token'' then (Inl TokenQueryFailed, t)
      else case find (accepts now (hashTeslaToken plain)) (tokens t) of
        None \<Rightarrow> (Inl ErrTeslaTokenInvalid, t)
      | Some r \<Rightarrow>
          let t1 = (if tk_expires r \<noteq> None \<and> \<not> fails ''claim token'' then set_row (tk_id r) (\<lambda>r. r\<lparr>tk_expires := None\<rparr>) t else t);
              t2 = (if fails ''touch token'' then t1 else set_row (tk_id r) (\<lambda>r. r\<lparr>tk_last_used := Some (secs now)\<rparr>) t1) in
          (Inr \<lparr>ct_id = tk_id r, ct_name = tk_name r, ct_created = tk_created r, ct_last_used = tk_last_used r,
             ct_revoked = tk_revoked r, ct_plain = [], ct_expires = None\<rparr>, t2))"

subsection \<open>The life cycle of a bearer\<close>

text \<open>
  What the table promises, hash by hash: a bearer is absent, or has an id, may be revoked, and may
  have a claim window that closes at a given second.
\<close>

type_synonym bearer = "int \<times> bool \<times> time option"
type_synonym lifecycle = "int \<times> (string \<rightharpoonup> bearer)"

datatype token_op =
    OpIssue bytes string
  | OpEphemeral bytes string time
  | OpRevoke int
  | OpDelete int
  | OpValidate string

definition named :: "string \<Rightarrow> bool" where
  "named name \<longleftrightarrow> trim_space name \<noteq> [] \<and> length (trim_space name) \<le> 80"

definition in_window :: "time \<Rightarrow> time option \<Rightarrow> bool" where
  "in_window now w = (case w of None \<Rightarrow> True | Some e \<Rightarrow> secs now < e)"

definition lapse :: "time \<Rightarrow> (string \<rightharpoonup> bearer) \<Rightarrow> string \<rightharpoonup> bearer" where
  "lapse now v h = (case v h of Some (i, r, w) \<Rightarrow> if in_window now w then Some (i, r, w) else None | None \<Rightarrow> None)"

fun spec_step :: "time \<Rightarrow> token_op \<Rightarrow> lifecycle \<Rightarrow> bool \<times> lifecycle" where
  "spec_step now (OpIssue seed name) (n, v) =
     (let h = hashTeslaToken (raw_url_encode seed) in
      if named name \<and> v h = None then (True, n + 1, v(h \<mapsto> (n + 1, False, None))) else (False, n, v))"
| "spec_step now (OpEphemeral seed name ttl) (n, v) =
     (let h = hashTeslaToken (raw_url_encode seed); v' = lapse now v in
      if \<not> named name \<or> ttl \<le> 0 then (False, n, v)
      else if v' h = None then (True, n + 1, v'(h \<mapsto> (n + 1, False, Some (secs (now + ttl))))) else (False, n, v'))"
| "spec_step now (OpRevoke i) (n, v) =
     ((\<exists>h r w. v h = Some (i, r, w)), n, \<lambda>h. map_option (\<lambda>(j, r, w). (j, r \<or> j = i, w)) (v h))"
| "spec_step now (OpDelete i) (n, v) =
     ((\<exists>h r w. v h = Some (i, r, w)), n, \<lambda>h. case v h of Some b \<Rightarrow> if fst b = i then None else Some b | None \<Rightarrow> None)"
| "spec_step now (OpValidate plain) (n, v) =
     (let h = hashTeslaToken (trim_space plain) in
      case v h of
        Some (i, False, w) \<Rightarrow>
          if trim_space plain \<noteq> [] \<and> in_window now w then (True, n, v(h \<mapsto> (i, False, None))) else (False, n, v)
      | _ \<Rightarrow> (False, n, v))"

definition succeeded :: "'e + 'a \<Rightarrow> bool" where
  "succeeded x \<longleftrightarrow> \<not> isl x"

fun token_step :: "time \<Rightarrow> token_op \<Rightarrow> token_table \<Rightarrow> bool \<times> token_table" where
  "token_step now (OpIssue seed name) t = apfst succeeded (Issue no_faults seed now name t)"
| "token_step now (OpEphemeral seed name ttl) t = apfst succeeded (IssueEphemeral no_faults seed now name ttl t)"
| "token_step now (OpRevoke i) t = apfst (\<lambda>e. e = None) (Revoke no_faults now i t)"
| "token_step now (OpDelete i) t = apfst (\<lambda>e. e = None) (Delete_token no_faults i t)"
| "token_step now (OpValidate plain) t = apfst succeeded (Validate_token no_faults now plain t)"

fun run_steps :: "(time \<Rightarrow> token_op \<Rightarrow> 's \<Rightarrow> bool \<times> 's) \<Rightarrow> (time \<times> token_op) list \<Rightarrow> 's \<Rightarrow> bool list \<times> 's" where
  "run_steps f [] s = ([], s)"
| "run_steps f ((now, op) # ops) s = (case f now op s of (b, s1) \<Rightarrow> case run_steps f ops s1 of (bs, s2) \<Rightarrow> (b # bs, s2))"

definition entry :: "token_row \<Rightarrow> string \<times> bearer" where
  "entry r = (tk_hash r, tk_id r, tk_revoked r \<noteq> None, tk_expires r)"

definition view :: "token_row list \<Rightarrow> string \<rightharpoonup> bearer" where
  "view rs = map_of (map entry rs)"

definition lifecycle_of :: "token_table \<Rightarrow> lifecycle" where
  "lifecycle_of t = (tokens_seq t, view (tokens t))"

definition tokens_ok :: "token_table \<Rightarrow> bool" where
  "tokens_ok t \<longleftrightarrow> distinct (map tk_id (tokens t)) \<and> distinct (map tk_hash (tokens t)) \<and>
     (\<forall>r\<in>set (tokens t). tk_id r \<le> tokens_seq t)"

lemma view_None_iff: "view rs h = None \<longleftrightarrow> h \<notin> tk_hash ` set rs"
  by (auto simp: view_def map_of_eq_None_iff entry_def image_image)

lemma view_row: "distinct (map tk_hash rs) \<Longrightarrow> r \<in> set rs \<Longrightarrow> view rs (tk_hash r) = Some (snd (entry r))"
  unfolding view_def by (rule map_of_is_SomeI) (auto simp: entry_def o_def)

lemma view_SomeE:
  assumes "view rs h = Some b"
  obtains r where "r \<in> set rs" "tk_hash r = h" "snd (entry r) = b"
  using assms by (auto simp: view_def entry_def dest!: map_of_SomeD)

lemma view_snoc: "tk_hash r \<notin> tk_hash ` set rs \<Longrightarrow> view (rs @ [r]) = (view rs)(tk_hash r \<mapsto> snd (entry r))"
  by (induction rs) (auto simp: view_def entry_def)

lemma view_filter:
  assumes "distinct (map tk_hash rs)" "\<And>r. P r \<longleftrightarrow> Q (snd (entry r))"
  shows "view (filter P rs) = (\<lambda>h. case view rs h of Some b \<Rightarrow> if Q b then Some b else None | None \<Rightarrow> None)"
proof
  fix h
  show "view (filter P rs) h = (case view rs h of Some b \<Rightarrow> if Q b then Some b else None | None \<Rightarrow> None)"
    using assms(1)
  proof (induction rs)
    case (Cons r rs)
    then have "tk_hash r \<notin> tk_hash ` set (filter P rs)" by auto
    then have "view (filter P rs) (tk_hash r) = None" by (simp add: view_None_iff)
    with Cons assms(2) [of r] show ?case by (auto simp: view_def entry_def)
  qed (simp add: view_def)
qed

lemma view_map:
  assumes "\<And>r. tk_hash (f r) = tk_hash r" "\<And>r. snd (entry (f r)) = g (snd (entry r))"
  shows "view (map f rs) = (\<lambda>h. map_option g (view rs h))"
proof
  fix h
  show "view (map f rs) h = map_option g (view rs h)"
    using assms by (induction rs) (auto simp: view_def entry_def)
qed

lemma find_snoc: "find P xs = None \<Longrightarrow> find P (xs @ [y]) = (if P y then Some y else None)"
  by (induction xs) (auto split: if_splits)

lemma insert_token_refines:
  assumes ok: "tokens_ok t" and ins: "insert_token no_faults name plain ex now t = (x, t')"
  shows "tokens_ok t' \<and> (succeeded x \<longleftrightarrow> view (tokens t) (hashTeslaToken plain) = None) \<and>
     lifecycle_of t' = (if succeeded x
        then (tokens_seq t + 1, (view (tokens t))(hashTeslaToken plain \<mapsto> (tokens_seq t + 1, False, ex)))
        else lifecycle_of t)"
proof (cases "hashTeslaToken plain \<in> tk_hash ` set (tokens t)")
  case True
  with ins have "x = Inl InsertFailed" "t' = t" by (simp_all add: insert_token_def no_faults_def Let_def)
  with True ok show ?thesis by (simp add: succeeded_def view_None_iff)
next
  case False
  let ?r = "\<lparr>tk_id = tokens_seq t + 1, tk_name = name, tk_hash = hashTeslaToken plain, tk_plain = plain, tk_created = secs now,
                        tk_last_used = None, tk_revoked = None, tk_expires = ex\<rparr>"
  have fresh: "tk_id r \<noteq> tokens_seq t + 1" if "r \<in> set (tokens t)" for r using ok that by (auto simp: tokens_ok_def)
  then have "find (\<lambda>r. tk_id r = tokens_seq t + 1) (tokens t) = None" by (simp add: find_None_iff)
  then have "find (\<lambda>r. tk_id r = tokens_seq t + 1) (tokens t @ [?r]) = Some ?r" by (simp add: find_snoc)
  with ins False have t': "\<not> isl x" "t' = t\<lparr>tokens := tokens t @ [?r], tokens_seq := tokens_seq t + 1\<rparr>"
    by (auto simp: insert_token_def no_faults_def Let_def get_token_def)
  have "view (tokens t @ [?r]) = (view (tokens t))(hashTeslaToken plain \<mapsto> (tokens_seq t + 1, False, ex))"
    using False view_snoc [of ?r "tokens t"] by (simp add: entry_def)
  moreover have "tokens_ok t'" using ok False fresh by (fastforce simp: tokens_ok_def t'(2))
  ultimately show ?thesis using False t' by (simp add: lifecycle_of_def succeeded_def view_None_iff)
qed

lemma lapse_view: "distinct (map tk_hash rs) \<Longrightarrow> view (prune now rs) = lapse now (view rs)"
  unfolding prune_def
  by (subst view_filter [where Q = "\<lambda>(i, r, w). in_window now w"])
    (auto simp: entry_def in_window_def lapse_def split: option.splits)

lemma tokens_ok_sub:
  "tokens_ok t \<Longrightarrow> tokens_ok (t\<lparr>tokens := filter P (tokens t)\<rparr>)"
  by (auto simp: tokens_ok_def distinct_map_filter)

lemma tokens_ok_map:
  "tokens_ok t \<Longrightarrow> (\<And>r. tk_hash (f r) = tk_hash r \<and> tk_id (f r) = tk_id r) \<Longrightarrow> tokens_ok (t\<lparr>tokens := map f (tokens t)\<rparr>)"
  by (simp add: tokens_ok_def o_def)

lemma view_id_iff: "(\<exists>h r w. view rs h = Some (i, r, w)) \<longleftrightarrow> list_ex (\<lambda>r. tk_id r = i) rs" if "distinct (map tk_hash rs)"
proof
  assume "\<exists>h r w. view rs h = Some (i, r, w)"
  then show "list_ex (\<lambda>r. tk_id r = i) rs" by (fastforce simp: list_ex_iff entry_def elim: view_SomeE)
next
  assume "list_ex (\<lambda>r. tk_id r = i) rs"
  then obtain r where "r \<in> set rs" "tk_id r = i" by (auto simp: list_ex_iff)
  with view_row [OF that] show "\<exists>h r w. view rs h = Some (i, r, w)" by (auto simp: entry_def)
qed

lemma issue_refines:
  assumes "tokens_ok t" "token_step now (OpIssue seed name) t = (b, t')"
  shows "tokens_ok t' \<and> spec_step now (OpIssue seed name) (lifecycle_of t) = (b, lifecycle_of t')"
proof (cases "named name")
  case False
  with assms show ?thesis
    by (auto simp: named_def Issue_def Let_def lifecycle_of_def succeeded_def not_le split: if_splits)
next
  case True
  obtain x where x: "insert_token no_faults (trim_space name) (raw_url_encode seed) None now t = (x, t')" "b = succeeded x"
    using assms(2) True by (auto simp: named_def Issue_def Let_def no_faults_def apfst_def map_prod_def split: prod.splits if_splits)
  from insert_token_refines [OF assms(1) x(1)] True x(2) show ?thesis
    by (auto simp: lifecycle_of_def Let_def)
qed

lemma ephemeral_refines:
  assumes "tokens_ok t" "token_step now (OpEphemeral seed name ttl) t = (b, t')"
  shows "tokens_ok t' \<and> spec_step now (OpEphemeral seed name ttl) (lifecycle_of t) = (b, lifecycle_of t')"
proof (cases "named name \<and> 0 < ttl")
  case False
  with assms show ?thesis
    by (auto simp: named_def IssueEphemeral_def Let_def lifecycle_of_def succeeded_def not_le not_less split: if_splits)
next
  case True
  let ?t = "t\<lparr>tokens := prune now (tokens t)\<rparr>"
  have ok: "tokens_ok ?t" unfolding prune_def by (rule tokens_ok_sub) (rule assms(1))
  have v: "view (tokens ?t) = lapse now (view (tokens t))" using assms(1) by (simp add: lapse_view tokens_ok_def)
  obtain x where x: "insert_token no_faults (trim_space name) (raw_url_encode seed) (Some (secs (now + ttl))) now ?t = (x, t')"
    "b = succeeded x"
    using assms(2) True
    by (auto simp: named_def IssueEphemeral_def Let_def no_faults_def apfst_def map_prod_def split: prod.splits if_splits)
  from insert_token_refines [OF ok x(1)] True x(2) v show ?thesis
    by (auto simp: lifecycle_of_def Let_def)
qed

lemma revoke_refines:
  assumes "tokens_ok t" "token_step now (OpRevoke i) t = (b, t')"
  shows "tokens_ok t' \<and> spec_step now (OpRevoke i) (lifecycle_of t) = (b, lifecycle_of t')"
proof -
  let ?f = "\<lambda>r. if tk_id r = i \<and> tk_revoked r = None then r\<lparr>tk_revoked := Some (secs now)\<rparr> else r"
  have d: "distinct (map tk_hash (tokens t))" using assms(1) by (simp add: tokens_ok_def)
  have noop: "map ?f (tokens t) = tokens t" if "\<not> list_ex (\<lambda>r. tk_id r = i \<and> tk_revoked r = None) (tokens t)"
    using that by (intro map_idI) (auto simp: list_ex_iff)
  have t': "t' = t\<lparr>tokens := map ?f (tokens t)\<rparr>" and b: "b \<longleftrightarrow> list_ex (\<lambda>r. tk_id r = i) (tokens t)"
    using assms(2) noop by (auto simp: Revoke_def no_faults_def list_ex_iff split: if_splits)
  have "view (map ?f (tokens t)) = (\<lambda>h. map_option (\<lambda>(j, r, w). (j, r \<or> j = i, w)) (view (tokens t) h))"
    by (rule view_map) (auto simp: entry_def)
  moreover have "tokens_ok t'" unfolding t' by (rule tokens_ok_map) (use assms(1) in auto)
  ultimately show ?thesis using b view_id_iff [OF d, of i] by (simp add: lifecycle_of_def t')
qed

lemma delete_refines:
  assumes "tokens_ok t" "token_step now (OpDelete i) t = (b, t')"
  shows "tokens_ok t' \<and> spec_step now (OpDelete i) (lifecycle_of t) = (b, lifecycle_of t')"
proof -
  have d: "distinct (map tk_hash (tokens t))" using assms(1) by (simp add: tokens_ok_def)
  have "filter (\<lambda>r. tk_id r \<noteq> i) (tokens t) = tokens t" if "\<not> list_ex (\<lambda>r. tk_id r = i) (tokens t)"
    using that by (simp add: list_ex_iff)
  then have t': "t' = t\<lparr>tokens := filter (\<lambda>r. tk_id r \<noteq> i) (tokens t)\<rparr>" and b: "b \<longleftrightarrow> list_ex (\<lambda>r. tk_id r = i) (tokens t)"
    using assms(2) by (auto simp: Delete_token_def no_faults_def split: if_splits)
  have "view (filter (\<lambda>r. tk_id r \<noteq> i) (tokens t)) =
      (\<lambda>h. case view (tokens t) h of Some b \<Rightarrow> if fst b \<noteq> i then Some b else None | None \<Rightarrow> None)"
    by (rule view_filter [OF d]) (simp add: entry_def)
  then have "lifecycle_of t' = (tokens_seq t, \<lambda>h. case view (tokens t) h of Some b \<Rightarrow> if fst b = i then None else Some b | None \<Rightarrow> None)"
    by (auto simp: lifecycle_of_def t' split: option.splits)
  moreover have "tokens_ok t'" unfolding t' by (rule tokens_ok_sub) (rule assms(1))
  ultimately show ?thesis using b view_id_iff [OF d, of i] by (simp add: lifecycle_of_def)
qed

lemma accepts_entry:
  "accepts now h r \<longleftrightarrow> tk_hash r = h \<and> (\<exists>i w. snd (entry r) = (i, False, w) \<and> in_window now w)"
  by (auto simp: accepts_def entry_def in_window_def)

lemma find_accepts:
  assumes "distinct (map tk_hash rs)"
  shows "find (accepts now h) rs = Some r \<longleftrightarrow> r \<in> set rs \<and> accepts now h r"
proof
  assume "find (accepts now h) rs = Some r"
  then show "r \<in> set rs \<and> accepts now h r" by (auto simp: find_Some_iff)
next
  assume r: "r \<in> set rs \<and> accepts now h r"
  then obtain r' where r': "find (accepts now h) rs = Some r'" by (cases "find (accepts now h) rs") (auto simp: find_None_iff)
  then have "r' \<in> set rs" "accepts now h r'" by (auto simp: find_Some_iff)
  with r assms have "r' = r" by (auto simp: accepts_def distinct_map dest: inj_onD)
  with r' show "find (accepts now h) rs = Some r" by simp
qed

lemma view_claim:
  assumes "tokens_ok t" "r \<in> set (tokens t)" "snd (entry r) = (i, False, w)"
  shows "view (map (\<lambda>x. if tk_id x = tk_id r then x\<lparr>tk_expires := None\<rparr> else x) (tokens t)) =
    (view (tokens t))(tk_hash r \<mapsto> (i, False, None))"
proof
  fix h
  have d: "distinct (map tk_hash (tokens t))" and ids: "inj_on tk_id (set (tokens t))"
    using assms(1) by (auto simp: tokens_ok_def distinct_map)
  have "view (map (\<lambda>x. if tk_id x = tk_id r then x\<lparr>tk_expires := None\<rparr> else x) (tokens t)) h =
      map_option (\<lambda>(j, r', w). if j = tk_id r then (j, r', None) else (j, r', w)) (view (tokens t) h)"
    by (subst view_map [where g = "\<lambda>(j, r', w). if j = tk_id r then (j, r', None) else (j, r', w)"])
      (auto simp: entry_def)
  also have "\<dots> = ((view (tokens t))(tk_hash r \<mapsto> (i, False, None))) h"
  proof (cases "h = tk_hash r")
    case True
    with view_row [OF d assms(2)] assms(3) show ?thesis by (simp add: entry_def)
  next
    case False
    have "fst b \<noteq> tk_id r" if v: "view (tokens t) h = Some b" for b
    proof -
      obtain x where x: "x \<in> set (tokens t)" "tk_hash x = h" "snd (entry x) = b" using v by (rule view_SomeE)
      with False ids assms(2) show ?thesis by (auto simp: entry_def dest: inj_onD)
    qed
    with False show ?thesis by (cases "view (tokens t) h") (auto split: prod.splits)
  qed
  finally show "view (map (\<lambda>x. if tk_id x = tk_id r then x\<lparr>tk_expires := None\<rparr> else x) (tokens t)) h =
    ((view (tokens t))(tk_hash r \<mapsto> (i, False, None))) h" .
qed

lemma validate_refines:
  assumes ok: "tokens_ok t" and st: "token_step now (OpValidate plain) t = (b, t')"
  shows "tokens_ok t' \<and> spec_step now (OpValidate plain) (lifecycle_of t) = (b, lifecycle_of t')"
proof (cases "find (accepts now (hashTeslaToken (trim_space plain))) (tokens t)")
  case None
  let ?h = "hashTeslaToken (trim_space plain)"
  have "t' = t \<and> \<not> b" using st None by (auto simp: Validate_token_def Let_def no_faults_def succeeded_def split: if_splits)
  moreover have "\<not> in_window now w" if "view (tokens t) ?h = Some (i, False, w)" for i w
    using that None by (auto simp: find_None_iff accepts_entry elim!: view_SomeE)
  ultimately show ?thesis
    using ok by (auto simp: lifecycle_of_def Let_def split: option.splits bool.splits)
next
  case (Some r)
  let ?h = "hashTeslaToken (trim_space plain)"
  have d: "distinct (map tk_hash (tokens t))" using ok by (simp add: tokens_ok_def)
  from Some find_accepts [OF d] have r: "r \<in> set (tokens t)" "accepts now ?h r" by blast+
  then obtain i w where e: "tk_hash r = ?h" "snd (entry r) = (i, False, w)" "in_window now w" by (auto simp: accepts_entry)
  have v: "view (tokens t) ?h = Some (i, False, w)" using view_row [OF d r(1)] e by simp
  show ?thesis
  proof (cases "trim_space plain = []")
    case True
    with st ok v show ?thesis
      by (auto simp: Validate_token_def Let_def succeeded_def lifecycle_of_def)
  next
    case False
    let ?c = "\<lambda>x. if tk_id x = tk_id r then x\<lparr>tk_expires := None\<rparr> else x"
    let ?u = "\<lambda>x. if tk_id x = tk_id r then x\<lparr>tk_last_used := Some (secs now)\<rparr> else x"
    have c: "view (map ?c (tokens t)) = (view (tokens t))(?h \<mapsto> (i, False, None))"
      using view_claim [OF ok r(1) e(2)] e(1) by simp
    have u: "view (map ?u rs) = view rs" for rs
      using view_map [of ?u "\<lambda>b. b" rs] by (simp add: entry_def option.map_ident)
    have nop: "(view (tokens t))(?h \<mapsto> (i, False, None)) = view (tokens t)" if "tk_expires r = None"
      using v e(2) that by (auto simp: entry_def)
    have t': "b" "t' = t\<lparr>tokens := map ?u (if tk_expires r \<noteq> None then map ?c (tokens t) else tokens t)\<rparr>"
      using st Some False by (auto simp: Validate_token_def Let_def no_faults_def succeeded_def set_row_def)
    have "tokens_ok t'"
      unfolding t'(2) using tokens_ok_map [OF ok, of ?c] tokens_ok_map [of "t\<lparr>tokens := map ?c (tokens t)\<rparr>" ?u]
        tokens_ok_map [OF ok, of ?u] by (cases "tk_expires r") simp_all
    moreover have "view (tokens t') = (view (tokens t))(?h \<mapsto> (i, False, None))"
      using c nop by (cases "tk_expires r") (simp_all add: t'(2) u del: map_map)
    ultimately show ?thesis using v e(3) False t'(1) by (simp add: lifecycle_of_def Let_def t'(2))
  qed
qed

lemma step_refines:
  assumes "tokens_ok t" "token_step now op t = (b, t')"
  shows "tokens_ok t' \<and> spec_step now op (lifecycle_of t) = (b, lifecycle_of t')"
proof (cases op)
  case (OpIssue seed name)
  show ?thesis using issue_refines [OF assms(1) assms(2) [unfolded OpIssue]] by (simp only: OpIssue)
next
  case (OpEphemeral seed name ttl)
  show ?thesis using ephemeral_refines [OF assms(1) assms(2) [unfolded OpEphemeral]] by (simp only: OpEphemeral)
next
  case (OpRevoke i)
  show ?thesis using revoke_refines [OF assms(1) assms(2) [unfolded OpRevoke]] by (simp only: OpRevoke)
next
  case (OpDelete i)
  show ?thesis using delete_refines [OF assms(1) assms(2) [unfolded OpDelete]] by (simp only: OpDelete)
next
  case (OpValidate plain)
  show ?thesis using validate_refines [OF assms(1) assms(2) [unfolded OpValidate]] by (simp only: OpValidate)
qed

lemma run_refines:
  "tokens_ok t \<Longrightarrow> run_steps token_step ops t = (bs, t') \<Longrightarrow>
     tokens_ok t' \<and> run_steps spec_step ops (lifecycle_of t) = (bs, lifecycle_of t')"
proof (induction ops arbitrary: t bs)
  case (Cons o1 ops)
  obtain now op where o1: "o1 = (now, op)" by fastforce
  obtain b t1 where s: "token_step now op t = (b, t1)" by fastforce
  obtain bs1 t2 where r: "run_steps token_step ops t1 = (bs1, t2)" by fastforce
  from step_refines [OF Cons.prems(1) s] Cons.IH [of t1 bs1] Cons.prems(2) o1 s r show ?case by auto
qed simp

fun issues :: "string \<Rightarrow> token_op \<Rightarrow> bool" where
  "issues h (OpIssue seed name) = (hashTeslaToken (raw_url_encode seed) = h)"
| "issues h (OpEphemeral seed name ttl) = (hashTeslaToken (raw_url_encode seed) = h)"
| "issues h _ = False"

definition dead :: "string \<Rightarrow> lifecycle \<Rightarrow> bool" where
  "dead h s = (case snd s h of None \<Rightarrow> True | Some b \<Rightarrow> fst (snd b))"

lemma dead_step:
  assumes "dead h s" "\<not> issues h op" "spec_step now op s = (b, s')"
  shows "dead h s'"
proof -
  obtain n v where s: "s = (n, v)" by fastforce
  show ?thesis
  proof (cases op)
    case (OpValidate plain)
    with assms s show ?thesis
      by (auto simp: dead_def Let_def split: option.splits prod.splits bool.splits if_splits)
  qed (use assms s in \<open>auto simp: dead_def lapse_def Let_def split: option.splits prod.splits if_splits\<close>)
qed

lemma dead_run:
  "dead h s \<Longrightarrow> \<forall>(now, op)\<in>set ops. \<not> issues h op \<Longrightarrow> run_steps spec_step ops s = (bs, s') \<Longrightarrow> dead h s'"
proof (induction ops arbitrary: s bs)
  case (Cons o1 ops)
  obtain now op where o1: "o1 = (now, op)" by fastforce
  obtain b s1 where s: "spec_step now op s = (b, s1)" by (metis surj_pair)
  obtain bs1 s2 where r: "run_steps spec_step ops s1 = (bs1, s2)" by (metis surj_pair)
  have "dead h s1" using dead_step [OF Cons.prems(1) _ s] Cons.prems(2) o1 by simp
  with Cons.IH [of s1 bs1] Cons.prems o1 s r show ?case by simp
qed simp

lemma dead_removed:
  assumes "snd s h = Some (i, r, w)" "rm = OpRevoke i \<or> rm = OpDelete i"
  shows "dead h (snd (spec_step now rm s))"
  using assms by (cases s) (auto simp: dead_def)

lemma dead_rejected:
  "dead (hashTeslaToken (trim_space plain)) s \<Longrightarrow> \<not> fst (spec_step now (OpValidate plain) s)"
  by (cases s) (auto simp: dead_def Let_def split: option.splits prod.splits bool.splits)

definition no_tokens :: token_table where
  "no_tokens = \<lparr>tokens = [], tokens_seq = 0\<rparr>"

subsection \<open>Properties\<close>

text \<open>
  C19: the token table implements the life cycle of its bearers.  For every sequence of issues,
  self-service issues, revocations, removals and uses, at whatever times, each operation succeeds
  exactly when the life cycle says so and the table ends as the life cycle does: a bearer is accepted
  only between its issue and its revocation or removal, an ephemeral one only inside its window
  unless it was used there, which makes it permanent; lapsed ones are pruned by the next
  self-service issue, and ids are never given twice.
\<close>

theorem tokens_implement_lifecycle:
  "case run_steps token_step ops no_tokens of (results, t) \<Rightarrow>
     run_steps spec_step ops (0, Map.empty) = (results, lifecycle_of t) \<and>
     distinct (map tk_id (tokens t)) \<and> distinct (map tk_hash (tokens t))"
proof -
  obtain results t where r: "run_steps token_step ops no_tokens = (results, t)" by fastforce
  moreover have "tokens_ok no_tokens" "lifecycle_of no_tokens = (0, Map.empty)"
    by (simp_all add: no_tokens_def tokens_ok_def lifecycle_of_def view_def)
  ultimately show ?thesis using run_refines [of no_tokens ops results t] by (simp add: tokens_ok_def)
qed

text \<open>
  C20: a bearer that was revoked or removed is never accepted again.  Take any reachable table and
  remove or revoke the row of a bearer; after any further operations that do not issue a token with
  the same hash, presenting the bearer is refused.
\<close>

theorem removed_bearer_stays_dead:
  assumes "run_steps token_step ops no_tokens = (bs, t)" "view (tokens t) (hashTeslaToken (trim_space plain)) = Some (i, r, w)"
    and "rm = OpRevoke i \<or> rm = OpDelete i" "run_steps token_step ((now, rm) # later) t = (bs', t')"
    and "\<forall>(now, op)\<in>set later. \<not> issues (hashTeslaToken (trim_space plain)) op"
  shows "\<not> fst (token_step now' (OpValidate plain) t')"
proof -
  let ?h = "hashTeslaToken (trim_space plain)"
  have ok: "tokens_ok t"
    using run_refines [OF _ assms(1)] by (simp add: no_tokens_def tokens_ok_def)
  obtain b t1 where s: "token_step now rm t = (b, t1)" by fastforce
  obtain bs1 where r: "run_steps token_step later t1 = (bs1, t')" using assms(4) s by (auto split: prod.splits)
  from step_refines [OF ok s] have ok1: "tokens_ok t1" and s1: "spec_step now rm (lifecycle_of t) = (b, lifecycle_of t1)" by blast+
  have "dead ?h (lifecycle_of t1)"
    using dead_removed [of "lifecycle_of t" ?h i r w rm now] s1 assms(2,3) by (simp add: lifecycle_of_def)
  then have "dead ?h (lifecycle_of t')" using dead_run assms(5) run_refines [OF ok1 r] by blast
  moreover obtain b2 t2 where v: "token_step now' (OpValidate plain) t' = (b2, t2)" by fastforce
  with step_refines [OF _ v] run_refines [OF ok1 r] have "spec_step now' (OpValidate plain) (lifecycle_of t') = (b2, lifecycle_of t2)" by blast
  ultimately show ?thesis using dead_rejected [of plain "lifecycle_of t'" now'] v by simp
qed

definition demo_seed :: bytes where
  "demo_seed = replicate 32 7"

definition demo_plain :: string where
  "demo_plain = raw_url_encode demo_seed"

lemma demo_plain_trim: "trim_space demo_plain = demo_plain" "demo_plain \<noteq> []"
  by (simp_all add: demo_plain_def demo_seed_def)

definition demo_row :: token_row where
  "demo_row = \<lparr>tk_id = 1, tk_name = ''car'', tk_hash = hashTeslaToken demo_plain, tk_plain = demo_plain, tk_created = 0,
     tk_last_used = None, tk_revoked = None, tk_expires = None\<rparr>"

lemma demo_issue: "run_steps token_step [(0, OpIssue demo_seed ''car'')] no_tokens = ([True], \<lparr>tokens = [demo_row], tokens_seq = 1\<rparr>)"
proof -
  have "trim_space ''car'' = ''car''" by code_simp
  then show ?thesis
    by (simp add: Issue_def insert_token_def get_token_def no_tokens_def no_faults_def Let_def demo_row_def demo_plain_def succeeded_def)
qed

theorem removed_bearer_stays_dead_witness:
  "\<not> fst (token_step 9 (OpValidate demo_plain) \<lparr>tokens = [], tokens_seq = 1\<rparr>)"
proof (rule removed_bearer_stays_dead [OF demo_issue])
  show "view (tokens \<lparr>tokens = [demo_row], tokens_seq = 1\<rparr>) (hashTeslaToken (trim_space demo_plain)) = Some (1, False, None)"
    by (simp add: view_def entry_def demo_row_def demo_plain_trim)
  show "OpDelete 1 = OpRevoke 1 \<or> OpDelete 1 = OpDelete 1" by simp
  show "run_steps token_step [(5, OpDelete 1)] \<lparr>tokens = [demo_row], tokens_seq = 1\<rparr> = ([True], \<lparr>tokens = [], tokens_seq = 1\<rparr>)"
    by (simp add: Delete_token_def no_faults_def demo_row_def)
qed simp

end
