(* ===== verification/Auth.thy ===== *)
theory Auth
  imports Models Go_Crypto
begin

text \<open>
  \<^verbatim>\<open>internal/services/auth.go\<close>: the console's users and login sessions.  bcrypt is not in the repository and
  is an argument, the salt it draws and the random seed of a token being arguments of the call.  A
  session row keeps its expiry to the nanosecond.  The abstract view of the sessions is a grant per
  token, computed from what the operations returned, and the table implements it.
\<close>

record User =
  u_id :: int
  u_name :: string
  u_hash :: string
  u_created :: time

record Session =
  s_token :: string
  s_user :: int
  s_expires :: time

record auth_db =
  users :: "User list"
  users_seq :: int
  sessions :: "Session list"

record bcrypt =
  bc_generate :: "string \<Rightarrow> string \<Rightarrow> string option"
  bc_compare :: "string \<Rightarrow> string \<Rightarrow> bool"

text \<open>What bcrypt documents: a hash it generated compares equal with its password.\<close>

definition bcrypt_ok :: "bcrypt \<Rightarrow> bool" where
  "bcrypt_ok B \<longleftrightarrow> (\<forall>salt pw h. bc_generate B salt pw = Some h \<longrightarrow> bc_compare B h pw)"

datatype auth_error =
    HashPassword | InsertUser | UpdatePassword | UserNotFound string
  | InvalidCredentials | QueryUser | GenerateToken | CreateSession
  | InvalidSession | QuerySession | SessionExpired | DeleteSession

definition session_ttl :: time where
  "session_ttl = 24 * 60 * 60 * 1000000000"

definition CreateUser :: "bcrypt \<Rightarrow> faults \<Rightarrow> string \<Rightarrow> time \<Rightarrow> string \<Rightarrow> string \<Rightarrow> auth_db \<Rightarrow> auth_error option \<times> auth_db" where
  "CreateUser B fails salt now username password d =
     (case bc_generate B salt password of
        None \<Rightarrow> (Some HashPassword, d)
      | Some hash \<Rightarrow>
          if fails ''insert user'' \<or> list_ex (\<lambda>u. u_name u = username) (users d) then (Some InsertUser, d)
          else (None, d\<lparr>users := users d @ [\<lparr>u_id = users_seq d + 1, u_name = username, u_hash = hash, u_created = now div 1000000000\<rparr>],
                        users_seq := users_seq d + 1\<rparr>))"

definition ResetPassword :: "bcrypt \<Rightarrow> faults \<Rightarrow> string \<Rightarrow> string \<Rightarrow> string \<Rightarrow> auth_db \<Rightarrow> auth_error option \<times> auth_db" where
  "ResetPassword B fails salt username password d =
     (case bc_generate B salt password of
        None \<Rightarrow> (Some HashPassword, d)
      | Some hash \<Rightarrow>
          if fails ''update password'' then (Some UpdatePassword, d)
          else if list_ex (\<lambda>u. u_name u = username) (users d)
          then (None, d\<lparr>users := map (\<lambda>u. if u_name u = username then u\<lparr>u_hash := hash\<rparr> else u) (users d)\<rparr>)
          else (Some (UserNotFound username), d))"

definition generateToken :: "faults \<Rightarrow> bytes \<Rightarrow> string option" where
  "generateToken fails seed = (if fails ''rand'' then None else Some (hex_encode seed))"

definition Login :: "bcrypt \<Rightarrow> faults \<Rightarrow> bytes \<Rightarrow> time \<Rightarrow> string \<Rightarrow> string \<Rightarrow> auth_db \<Rightarrow> (auth_error + string) \<times> auth_db" where
  "Login B fails seed now username password d =
     (if fails ''query user'' then (Inl QueryUser, d)
      else case find (\<lambda>u. u_name u = username) (users d) of
        None \<Rightarrow> (Inl InvalidCredentials, d)
      | Some user \<Rightarrow>
          if \<not> bc_compare B (u_hash user) password then (Inl InvalidCredentials, d)
          else case generateToken fails seed of
            None \<Rightarrow> (Inl GenerateToken, d)
          | Some token \<Rightarrow>
              if fails ''create session'' \<or> list_ex (\<lambda>s. s_token s = token) (sessions d) then (Inl CreateSession, d)
              else (Inr token, d\<lparr>sessions := sessions d @ [\<lparr>s_token = token, s_user = u_id user, s_expires = now + session_ttl\<rparr>]\<rparr>))"

definition drop_session :: "string \<Rightarrow> auth_db \<Rightarrow> auth_db" where
  "drop_session token d = d\<lparr>sessions := filter (\<lambda>s. s_token s \<noteq> token) (sessions d)\<rparr>"

text \<open>The join of the session with its user; the password hash is not selected.\<close>

definition session_row :: "string \<Rightarrow> auth_db \<Rightarrow> (User \<times> time) option" where
  "session_row token d =
     (case find (\<lambda>s. s_token s = token) (sessions d) of
        None \<Rightarrow> None
      | Some s \<Rightarrow> (case find (\<lambda>u. u_id u = s_user s) (users d) of
          None \<Rightarrow> None
        | Some u \<Rightarrow> Some (\<lparr>u_id = u_id u, u_name = u_name u, u_hash = [], u_created = 0\<rparr>, s_expires s)))"

definition ValidateSession :: "faults \<Rightarrow> time \<Rightarrow> string \<Rightarrow> auth_db \<Rightarrow> (auth_error + User) \<times> auth_db" where
  "ValidateSession fails now token d =
     (if fails ''query session'' then (Inl QuerySession, d)
      else case session_row token d of
        None \<Rightarrow> (Inl InvalidSession, d)
      | Some (user, expiresAt) \<Rightarrow>
          if expiresAt < now then (Inl SessionExpired, if fails ''delete session'' then d else drop_session token d)
          else (Inr user, d))"

definition Logout :: "faults \<Rightarrow> string \<Rightarrow> auth_db \<Rightarrow> auth_error option \<times> auth_db" where
  "Logout fails token d = (if fails ''delete session'' then (Some DeleteSession, d) else (None, drop_session token d))"

definition CleanExpiredSessions :: "faults \<Rightarrow> time \<Rightarrow> auth_db \<Rightarrow> auth_db" where
  "CleanExpiredSessions fails now d =
     (if fails ''clean sessions'' then d else d\<lparr>sessions := filter (\<lambda>s. \<not> s_expires s < now) (sessions d)\<rparr>)"

subsection \<open>Runs of the service\<close>

datatype auth_op =
    AuthCreate string string string
  | AuthReset string string string
  | AuthLogin bytes string string
  | AuthValidate string
  | AuthLogout string
  | AuthClean

datatype auth_result = AuthDone | AuthToken string | AuthUser User | AuthFailed auth_error

definition done_or :: "auth_error option \<Rightarrow> auth_result" where
  "done_or e = (case e of None \<Rightarrow> AuthDone | Some x \<Rightarrow> AuthFailed x)"

fun auth_step :: "bcrypt \<Rightarrow> faults \<Rightarrow> time \<Rightarrow> auth_op \<Rightarrow> auth_db \<Rightarrow> auth_result \<times> auth_db" where
  "auth_step B fails now (AuthCreate salt u p) d = apfst done_or (CreateUser B fails salt now u p d)"
| "auth_step B fails now (AuthReset salt u p) d = apfst done_or (ResetPassword B fails salt u p d)"
| "auth_step B fails now (AuthLogin seed u p) d = apfst (case_sum AuthFailed AuthToken) (Login B fails seed now u p d)"
| "auth_step B fails now (AuthValidate tok) d = apfst (case_sum AuthFailed AuthUser) (ValidateSession fails now tok d)"
| "auth_step B fails now (AuthLogout tok) d = apfst done_or (Logout fails tok d)"
| "auth_step B fails now AuthClean d = (AuthDone, CleanExpiredSessions fails now d)"

type_synonym auth_call = "time \<times> faults \<times> auth_op"

fun auth_run :: "bcrypt \<Rightarrow> auth_call list \<Rightarrow> auth_db \<Rightarrow> auth_result list \<times> auth_db" where
  "auth_run B [] d = ([], d)"
| "auth_run B ((now, fails, op) # calls) d =
     (case auth_step B fails now op d of (r, d1) \<Rightarrow> case auth_run B calls d1 of (rs, d2) \<Rightarrow> (r # rs, d2))"

text \<open>
  The specification: a successful login grants its token to the named user for 24 hours, a
  successful logout withdraws it, and nothing else matters.
\<close>

type_synonym grants = "string \<rightharpoonup> string \<times> time"

fun grant_step :: "time \<Rightarrow> auth_op \<Rightarrow> auth_result \<Rightarrow> grants \<Rightarrow> grants" where
  "grant_step now (AuthLogin seed u p) (AuthToken tok) g = g(tok \<mapsto> (u, now + session_ttl))"
| "grant_step now (AuthLogout tok) AuthDone g = g(tok := None)"
| "grant_step now op r g = g"

fun granted :: "auth_call list \<Rightarrow> auth_result list \<Rightarrow> grants \<Rightarrow> grants" where
  "granted ((now, fails, op) # calls) (r # rs) g = granted calls rs (grant_step now op r g)"
| "granted calls rs g = g"

definition auth_ok :: "auth_db \<Rightarrow> bool" where
  "auth_ok d \<longleftrightarrow> distinct (map u_id (users d)) \<and> distinct (map u_name (users d)) \<and> distinct (map s_token (sessions d)) \<and>
     (\<forall>u\<in>set (users d). u_id u \<le> users_seq d)"

abbreviation session_of :: "string \<Rightarrow> auth_db \<Rightarrow> Session option" where
  "session_of tok d \<equiv> find (\<lambda>s. s_token s = tok) (sessions d)"

definition owner :: "int \<Rightarrow> auth_db \<Rightarrow> string option" where
  "owner i d = map_option u_name (find (\<lambda>u. u_id u = i) (users d))"

definition tracks :: "time \<Rightarrow> auth_db \<Rightarrow> grants \<Rightarrow> bool" where
  "tracks now d g \<longleftrightarrow> (\<forall>tok.
     (\<forall>s. session_of tok d = Some s \<longrightarrow> (\<exists>u. owner (s_user s) d = Some u \<and> g tok = Some (u, s_expires s))) \<and>
     (session_of tok d = None \<longrightarrow> (\<forall>u e. g tok = Some (u, e) \<longrightarrow> e < now)))"

lemma find_filter_key:
  "find (\<lambda>s. k s = x) (filter (\<lambda>s. k s \<noteq> y) xs) = (if x = y then None else find (\<lambda>s. k s = x) xs)"
  by (induction xs) auto

lemma find_filter_distinct:
  "distinct (map k xs) \<Longrightarrow>
   find (\<lambda>s. k s = x) (filter Q xs) = (case find (\<lambda>s. k s = x) xs of None \<Rightarrow> None | Some s \<Rightarrow> if Q s then Some s else None)"
proof (induction xs)
  case (Cons a xs)
  then have "k a \<notin> k ` set (filter Q xs)" by auto
  then have "find (\<lambda>s. k s = k a) (filter Q xs) = None" unfolding find_None_iff by (metis imageI)
  with Cons show ?case by auto
qed simp

lemma find_append: "find P (xs @ ys) = (case find P xs of None \<Rightarrow> find P ys | Some x \<Rightarrow> Some x)"
  by (induction xs) auto

lemma find_map_key: "(\<And>u. k (f u) = k u) \<Longrightarrow> find (\<lambda>u. k u = x) (map f us) = map_option f (find (\<lambda>u. k u = x) us)"
  by (induction us) auto

lemma distinct_map_filter_key: "distinct (map k xs) \<Longrightarrow> distinct (map k (filter Q xs))"
  by (simp add: distinct_map_filter)

lemma tracks_mono: "tracks t d g \<Longrightarrow> t \<le> t' \<Longrightarrow> tracks t' d g"
  unfolding tracks_def by (meson less_le_trans)

lemma tracks_drop:
  "tracks now d g \<Longrightarrow> tracks now (drop_session tok d) (g(tok := None))"
  by (auto simp: tracks_def drop_session_def find_filter_key owner_def)

lemma tracks_drop_expired:
  assumes "tracks now d g" "session_of tok d = Some s" "s_expires s < now"
  shows "tracks now (drop_session tok d) g"
  using assms by (fastforce simp: tracks_def drop_session_def find_filter_key owner_def)

lemma auth_ok_drop: "auth_ok d \<Longrightarrow> auth_ok (drop_session tok d)"
  by (simp add: auth_ok_def drop_session_def distinct_map_filter_key)

lemma owner_reset:
  "owner i (d\<lparr>users := map (\<lambda>u. if u_name u = n then u\<lparr>u_hash := h\<rparr> else u) (users d)\<rparr>) = owner i d"
proof -
  have "find (\<lambda>u. u_id u = i) (map (\<lambda>u. if u_name u = n then u\<lparr>u_hash := h\<rparr> else u) (users d)) =
        map_option (\<lambda>u. if u_name u = n then u\<lparr>u_hash := h\<rparr> else u) (find (\<lambda>u. u_id u = i) (users d))"
    by (rule find_map_key) simp
  then show ?thesis by (simp add: owner_def option.map_comp o_def if_distrib cong: option.map_cong if_cong)
qed

lemma tracks_users:
  assumes "tracks now d g" "\<And>i n. owner i d = Some n \<Longrightarrow> owner i d' = Some n" "sessions d' = sessions d"
  shows "tracks now d' g"
  using assms unfolding tracks_def by (metis)

lemma create_tracks:
  assumes "auth_ok d" "tracks now d g" "CreateUser B fails salt t u p d = (r, d')"
  shows "auth_ok d' \<and> tracks now d' g"
proof (cases "d' = d")
  case False
  obtain h where d': "d' = d\<lparr>users := users d @ [\<lparr>u_id = users_seq d + 1, u_name = u, u_hash = h, u_created = t div 1000000000\<rparr>],
      users_seq := users_seq d + 1\<rparr>" and fresh: "\<not> list_ex (\<lambda>x. u_name x = u) (users d)"
    using assms(3) False by (auto simp: CreateUser_def split: option.splits if_splits)
  have "auth_ok d'" using assms(1) fresh by (fastforce simp: auth_ok_def d' list_ex_iff)
  moreover have "tracks now d' g"
    by (rule tracks_users [OF assms(2)]) (auto simp: owner_def d' find_append split: option.splits)
  ultimately show ?thesis by simp
qed (use assms in simp)

lemma auth_ok_ids:
  "auth_ok d \<longleftrightarrow> distinct (map u_id (users d)) \<and> distinct (map u_name (users d)) \<and> distinct (map s_token (sessions d)) \<and>
     (\<forall>i\<in>set (map u_id (users d)). i \<le> users_seq d)"
  by (simp add: auth_ok_def)

lemma reset_tracks:
  assumes "auth_ok d" "tracks now d g" "ResetPassword B fails salt u p d = (r, d')"
  shows "auth_ok d' \<and> tracks now d' g"
proof (cases "d' = d")
  case False
  obtain h where d': "d' = d\<lparr>users := map (\<lambda>x. if u_name x = u then x\<lparr>u_hash := h\<rparr> else x) (users d)\<rparr>"
    using assms(3) False by (auto simp: ResetPassword_def split: option.splits if_splits)
  have "map u_id (users d') = map u_id (users d)" "map u_name (users d') = map u_name (users d)" by (auto simp: d')
  moreover have "sessions d' = sessions d" "users_seq d' = users_seq d" by (simp_all add: d')
  ultimately have "auth_ok d'" using assms(1) unfolding auth_ok_ids by simp
  moreover have "tracks now d' g"
    by (rule tracks_users [OF assms(2)]) (simp_all add: d' owner_reset)
  ultimately show ?thesis by simp
qed (use assms in simp)

lemma login_tracks:
  assumes "auth_ok d" "tracks now d g" "Login B fails seed now u p d = (r, d')"
  shows "auth_ok d' \<and> tracks now d' (case r of Inl _ \<Rightarrow> g | Inr tok \<Rightarrow> g(tok \<mapsto> (u, now + session_ttl)))"
proof (cases r)
  case (Inl e)
  with assms show ?thesis by (auto simp: Login_def split: option.splits if_splits)
next
  case (Inr tok)
  obtain user where user: "find (\<lambda>x. u_name x = u) (users d) = Some user"
    and fresh: "\<not> list_ex (\<lambda>s. s_token s = tok) (sessions d)"
    and d': "d' = d\<lparr>sessions := sessions d @ [\<lparr>s_token = tok, s_user = u_id user, s_expires = now + session_ttl\<rparr>]\<rparr>"
    using assms(3) Inr by (auto simp: Login_def split: option.splits if_splits)
  have mem: "user \<in> set (users d)" "u_name user = u" using user by (auto simp: find_Some_iff)
  have "owner (u_id user) d = Some u"
  proof -
    obtain v where v: "find (\<lambda>x. u_id x = u_id user) (users d) = Some v"
      using mem(1) by (cases "find (\<lambda>x. u_id x = u_id user) (users d)") (auto simp: find_None_iff)
    then have "v \<in> set (users d)" "u_id v = u_id user" by (auto simp: find_Some_iff)
    with assms(1) mem(1) have "v = user" by (auto simp: auth_ok_def distinct_map dest: inj_onD)
    with v mem(2) show ?thesis by (simp add: owner_def)
  qed
  moreover have none: "session_of tok d = None" using fresh by (auto simp: find_None_iff list_ex_iff)
  ultimately have "tracks now d' (g(tok \<mapsto> (u, now + session_ttl)))"
    using assms(2) by (auto simp: tracks_def d' find_append owner_def split: option.splits)
  moreover have "auth_ok d'" using assms(1) fresh by (fastforce simp: auth_ok_def d' list_ex_iff)
  ultimately show ?thesis using Inr by simp
qed

lemma validate_tracks:
  assumes "auth_ok d" "tracks now d g" "ValidateSession fails now tok d = (r, d')"
  shows "auth_ok d' \<and> tracks now d' g"
proof (cases "d' = d")
  case False
  then obtain s where "session_of tok d = Some s" "s_expires s < now" and d': "d' = drop_session tok d"
    using assms(3) by (auto simp: ValidateSession_def session_row_def split: option.splits if_splits)
  with assms show ?thesis using tracks_drop_expired auth_ok_drop by blast
qed (use assms in simp)

lemma clean_tracks:
  assumes "auth_ok d" "tracks now d g"
  shows "auth_ok (CleanExpiredSessions fails now d) \<and> tracks now (CleanExpiredSessions fails now d) g"
proof (cases "fails ''clean sessions''")
  case False
  let ?d = "d\<lparr>sessions := filter (\<lambda>s. \<not> s_expires s < now) (sessions d)\<rparr>"
  have "session_of tok ?d = (case session_of tok d of None \<Rightarrow> None | Some s \<Rightarrow> if \<not> s_expires s < now then Some s else None)" for tok
    using assms(1) by (simp add: find_filter_distinct auth_ok_def)
  then have "tracks now ?d g" using assms(2) unfolding tracks_def
    by (fastforce simp: owner_def split: option.splits if_splits)
  moreover have "auth_ok ?d" using assms(1) by (simp add: auth_ok_def distinct_map_filter_key)
  ultimately show ?thesis using False by (simp add: CleanExpiredSessions_def)
qed (use assms in \<open>simp add: CleanExpiredSessions_def\<close>)

lemma step_tracks:
  assumes "auth_ok d" "tracks now d g" "auth_step B fails now op d = (r, d')"
  shows "auth_ok d' \<and> tracks now d' (grant_step now op r g)"
proof (cases op)
  case (AuthCreate salt u p)
  with assms obtain x where "CreateUser B fails salt now u p d = (x, d')" by (auto simp: apfst_def map_prod_def split: prod.splits)
  with create_tracks [OF assms(1,2) this] AuthCreate show ?thesis by simp
next
  case (AuthReset salt u p)
  with assms obtain x where "ResetPassword B fails salt u p d = (x, d')" by (auto simp: apfst_def map_prod_def split: prod.splits)
  with reset_tracks [OF assms(1,2) this] AuthReset show ?thesis by simp
next
  case (AuthLogin seed u p)
  with assms obtain x where x: "Login B fails seed now u p d = (x, d')" "r = case_sum AuthFailed AuthToken x"
    by (auto simp: apfst_def map_prod_def split: prod.splits)
  with login_tracks [OF assms(1,2) x(1)] AuthLogin show ?thesis by (cases x) simp_all
next
  case (AuthValidate tok)
  with assms obtain x where "ValidateSession fails now tok d = (x, d')" by (auto simp: apfst_def map_prod_def split: prod.splits)
  with validate_tracks [OF assms(1,2) this] AuthValidate show ?thesis by simp
next
  case (AuthLogout tok)
  with assms tracks_drop auth_ok_drop show ?thesis by (auto simp: Logout_def done_or_def split: if_splits)
next
  case AuthClean
  with assms clean_tracks show ?thesis by auto
qed

lemma run_tracks:
  "auth_ok d \<Longrightarrow> tracks t0 d g \<Longrightarrow> sorted (t0 # map fst calls @ [now]) \<Longrightarrow> auth_run B calls d = (rs, d') \<Longrightarrow>
   auth_ok d' \<and> tracks now d' (granted calls rs g)"
proof (induction B calls d arbitrary: t0 g rs rule: auth_run.induct)
  case (1 B d)
  then show ?case using tracks_mono by auto
next
  case (2 B t fails op calls d)
  obtain r d1 rs1 where run: "auth_step B fails t op d = (r, d1)" "auth_run B calls d1 = (rs1, d')" "rs = r # rs1"
    using "2.prems"(4) by (auto split: prod.splits)
  from "2.prems" have "tracks t d g" "sorted (t # map fst calls @ [now])" using tracks_mono by auto
  moreover have "auth_ok d1 \<and> tracks t d1 (grant_step t op r g)"
    by (rule step_tracks [OF "2.prems"(1) \<open>tracks t d g\<close> run(1)])
  ultimately show ?case using "2.IH" [OF run(1) [symmetric]] run by auto
qed

lemma tracks_start: "sessions d = [] \<Longrightarrow> tracks t d (\<lambda>_. None)"
  by (simp add: tracks_def)

lemma validate_grant:
  assumes "tracks now d g"
  shows "(\<exists>u. fst (ValidateSession no_faults now tok d) = Inr u \<and> u_name u = name) \<longleftrightarrow> (\<exists>e. g tok = Some (name, e) \<and> now \<le> e)"
proof (cases "session_of tok d")
  case None
  with assms have "\<And>u e. g tok = Some (u, e) \<Longrightarrow> e < now" by (auto simp: tracks_def)
  with None show ?thesis by (force simp: ValidateSession_def session_row_def no_faults_def)
next
  case (Some s)
  then obtain u v where "find (\<lambda>u. u_id u = s_user s) (users d) = Some v" "u_name v = u" "g tok = Some (u, s_expires s)"
    using assms by (fastforce simp: tracks_def owner_def)
  with Some show ?thesis by (auto simp: ValidateSession_def session_row_def no_faults_def)
qed

text \<open>C29: the session table implements the grants.  After every sequence of calls, any of whose
  statements may fail, and whatever the clock does between them so long as it does not go back, a
  token is accepted exactly when the last successful login that returned it was at most 24 hours ago
  and no successful logout withdrew it since, and it is accepted as the user who logged in.  Password
  changes, validations and clean-ups neither extend nor end a session.\<close>

theorem sessions_implement_grants:
  assumes "auth_ok d0" "sessions d0 = []"
    and "auth_run B calls d0 = (rs, d)"
    and "sorted (map fst calls @ [now])"
  shows "(\<exists>u. fst (ValidateSession no_faults now tok d) = Inr u \<and> u_name u = name) \<longleftrightarrow>
    (\<exists>e. granted calls rs (\<lambda>_. None) tok = Some (name, e) \<and> now \<le> e)"
proof (rule validate_grant)
  let ?t = "hd (map fst calls @ [now])"
  have "sorted (?t # map fst calls @ [now])" using assms(4) by (cases calls) auto
  then show "tracks now d (granted calls rs (\<lambda>_. None))"
    using run_tracks [OF assms(1) tracks_start [OF assms(2)] _ assms(3)] by blast
qed

definition plain_bcrypt :: bcrypt where
  "plain_bcrypt = \<lparr>bc_generate = (\<lambda>salt pw. if length pw > 72 then None else Some (salt @ ''$'' @ pw)),
     bc_compare = (\<lambda>h pw. drop 1 (dropWhile (\<lambda>c. c \<noteq> CHR ''$'') h) = pw)\<rparr>"

definition admin_db :: auth_db where
  "admin_db = \<lparr>users = [\<lparr>u_id = 1, u_name = ''admin'', u_hash = ''$hunter22'', u_created = 0\<rparr>], users_seq = 1, sessions = []\<rparr>"

definition session_calls :: "auth_call list" where
  "session_calls = [(5, no_faults, AuthLogin [7] ''admin'' ''hunter22''), (9, no_faults, AuthReset [] ''admin'' ''changed!'')]"

theorem sessions_implement_grants_witness:
  "\<exists>u. fst (ValidateSession no_faults 86400000000005 ''07'' (snd (auth_run plain_bcrypt session_calls admin_db))) = Inr u
      \<and> u_name u = ''admin''"
proof -
  have "auth_ok admin_db" "sessions admin_db = []" by (simp_all add: auth_ok_def admin_db_def)
  moreover have "auth_run plain_bcrypt session_calls admin_db =
      ([AuthToken ''07'', AuthDone], snd (auth_run plain_bcrypt session_calls admin_db))"
    by (simp_all add: session_calls_def admin_db_def Login_def ResetPassword_def plain_bcrypt_def generateToken_def no_faults_def
      hex_encode_def hex_digit_def done_or_def) code_simp
  moreover have "sorted (map fst session_calls @ [86400000000005])" by (simp add: session_calls_def)
  ultimately have "(\<exists>u. fst (ValidateSession no_faults 86400000000005 ''07'' (snd (auth_run plain_bcrypt session_calls admin_db))) = Inr u
      \<and> u_name u = ''admin'') \<longleftrightarrow>
    (\<exists>e. granted session_calls [AuthToken ''07'', AuthDone] (\<lambda>_. None) ''07'' = Some (''admin'', e) \<and> 86400000000005 \<le> e)"
    by (rule sessions_implement_grants)
  then show ?thesis by (simp add: session_calls_def session_ttl_def)
qed

subsection \<open>Passwords\<close>

definition sets_password :: "string \<Rightarrow> auth_op \<Rightarrow> bool" where
  "sets_password name op = (case op of AuthReset _ u _ \<Rightarrow> u = name | _ \<Rightarrow> False)"

definition stored_hash :: "string \<Rightarrow> auth_db \<Rightarrow> string option" where
  "stored_hash name d = map_option u_hash (find (\<lambda>u. u_name u = name) (users d))"

lemma stored_hash_reset:
  "stored_hash name (d\<lparr>users := map (\<lambda>x. if u_name x = u then x\<lparr>u_hash := k\<rparr> else x) (users d)\<rparr>) =
   (if name = u then map_option (\<lambda>_. k) (stored_hash name d) else stored_hash name d)"
proof -
  have "map_option u_hash (find (\<lambda>x. u_name x = name) (map (\<lambda>x. if u_name x = u then x\<lparr>u_hash := k\<rparr> else x) us)) =
     (if name = u then map_option (\<lambda>_. k) (find (\<lambda>x. u_name x = name) us) else map_option u_hash (find (\<lambda>x. u_name x = name) us))" for us
    by (induction us) auto
  from this [of "users d"] show ?thesis by (auto simp: stored_hash_def option.map_comp o_def)
qed

lemma stored_hash_None: "stored_hash name d = None \<longleftrightarrow> \<not> list_ex (\<lambda>u. u_name u = name) (users d)"
  by (auto simp: stored_hash_def find_None_iff list_ex_iff)

lemma stored_hash_step:
  assumes "auth_step B fails now op d = (r, d')" "\<not> sets_password name op" "stored_hash name d = Some h"
  shows "stored_hash name d' = Some h"
proof (cases op)
  case (AuthCreate salt u p)
  with assms show ?thesis
    by (auto simp: CreateUser_def stored_hash_def find_append split: option.splits if_splits)
next
  case (AuthReset salt u p)
  with AuthReset assms show ?thesis
    by (auto simp: ResetPassword_def sets_password_def stored_hash_reset split: option.splits if_splits)
qed (use assms in \<open>auto simp: Login_def ValidateSession_def Logout_def CleanExpiredSessions_def drop_session_def stored_hash_def
    split: option.splits if_splits sum.splits\<close>)

lemma stored_hash_run:
  "auth_run B calls d = (rs, d') \<Longrightarrow> list_all (\<lambda>(_, _, op). \<not> sets_password name op) calls \<Longrightarrow>
   stored_hash name d = Some h \<Longrightarrow> stored_hash name d' = Some h"
proof (induction B calls d arbitrary: rs rule: auth_run.induct)
  case (2 B t fails op calls d)
  obtain r d1 rs1 where run: "auth_step B fails t op d = (r, d1)" "auth_run B calls d1 = (rs1, d')"
    using "2.prems"(1) by (auto split: prod.splits)
  with "2.prems" have "stored_hash name d1 = Some h" using stored_hash_step by auto
  with "2.IH" [OF run(1) [symmetric] run(2)] "2.prems" show ?case by simp
qed simp

text \<open>The password a user was created with, or that was last set, is the one that logs in: after any
  calls that do not set it again, a login is refused exactly when the password does not match the
  stored hash, and one with the password itself yields the token drawn, when that is fresh.\<close>

theorem last_password_logs_in:
  assumes "bcrypt_ok B"
    and "CreateUser B no_faults salt t0 name pw d0 = (None, d1) \<or> ResetPassword B no_faults salt name pw d0 = (None, d1)"
    and "auth_run B calls d1 = (rs, d)" "list_all (\<lambda>(_, _, op). \<not> sets_password name op) calls"
    and "session_of (hex_encode seed) d = None"
  shows "fst (Login B no_faults seed now name pw d) = Inr (hex_encode seed)"
proof -
  obtain h where h: "bc_generate B salt pw = Some h" using assms(2) by (auto simp: CreateUser_def ResetPassword_def split: option.splits)
  have "stored_hash name d1 = Some h"
    using assms(2)
  proof
    assume "CreateUser B no_faults salt t0 name pw d0 = (None, d1)"
    then have "stored_hash name d0 = None" "users d1 = users d0 @ [\<lparr>u_id = users_seq d0 + 1, u_name = name, u_hash = h, u_created = t0 div 1000000000\<rparr>]"
      using h by (auto simp: CreateUser_def stored_hash_None no_faults_def split: if_splits)
    then show ?thesis by (simp add: stored_hash_def find_append)
  next
    assume r: "ResetPassword B no_faults salt name pw d0 = (None, d1)"
    with h have "stored_hash name d0 \<noteq> None" "d1 = d0\<lparr>users := map (\<lambda>x. if u_name x = name then x\<lparr>u_hash := h\<rparr> else x) (users d0)\<rparr>"
      by (auto simp: ResetPassword_def stored_hash_None no_faults_def split: if_splits)
    then show ?thesis by (auto simp: stored_hash_reset)
  qed
  from stored_hash_run [OF assms(3,4) this] obtain u where "find (\<lambda>u. u_name u = name) (users d) = Some u" "u_hash u = h"
    by (auto simp: stored_hash_def)
  moreover have "bc_compare B h pw" using assms(1) h by (auto simp: bcrypt_ok_def)
  moreover have "\<not> list_ex (\<lambda>s. s_token s = hex_encode seed) (sessions d)" using assms(5) by (auto simp: find_None_iff list_ex_iff)
  ultimately show ?thesis by (simp add: Login_def generateToken_def no_faults_def)
qed

end
