(* ===== verification/Console.thy ===== *)
theory Console
  imports Auth Tesla_Token
begin

text \<open>
  \<^verbatim>\<open>internal/handlers/auth.go\<close>, \<^verbatim>\<open>middleware.go\<close>, \<^verbatim>\<open>router.go\<close>, \<^verbatim>\<open>render.go\<close> and \<^verbatim>\<open>services/audit.go\<close>: the log-in
  throttle, the three guards and the route table.  A request carries what the code reads of it, the
  body as the JSON value it holds (\<^term>\<open>None\<close> when it is not JSON); a response is its status, headers,
  cookies and body.  The multiplexer of the router library is an argument; the handlers of the other
  components are an argument too, so what is shown of the guards holds whatever they do.
\<close>

subsection \<open>Requests, responses and JSON bodies\<close>

datatype json = JNull | JBool bool | JInt int | JStr string | JArr "json list" | JObj "(string \<times> json) list"

record request =
  rq_method :: string
  rq_path :: string
  rq_remote :: string
  rq_tls :: bool
  rq_cookie :: "string option"
  rq_authorization :: string
  rq_origin :: string
  rq_params :: "(string \<times> string) list"
  rq_query :: "(string \<times> string) list"
  rq_json :: "json option"

record cookie =
  ck_name :: string
  ck_value :: string
  ck_path :: string
  ck_max_age :: int
  ck_http_only :: bool
  ck_secure :: bool
  ck_strict :: bool

datatype body = NoBody | JsonBody json | Template string | Text string

record response =
  rp_status :: int
  rp_headers :: "(string \<times> string) list"
  rp_cookies :: "cookie list"
  rp_body :: body

text \<open>\<^verbatim>\<open>encoding/json\<close> into a struct: a key names a field up to case, a null leaves it, a later key wins, a value of
  another type is an error.\<close>

definition json_key :: "string \<Rightarrow> string \<Rightarrow> bool" where
  "json_key k name \<longleftrightarrow> to_upper (to_lower k) = to_upper name"

fun json_field :: "(json \<Rightarrow> 'a option) \<Rightarrow> string \<Rightarrow> 'a \<Rightarrow> (string \<times> json) list \<Rightarrow> 'a option" where
  "json_field rd name z [] = Some z"
| "json_field rd name z ((k, v) # kvs) =
     (if json_key k name \<and> v \<noteq> JNull then (case rd v of None \<Rightarrow> None | Some x \<Rightarrow> json_field rd name x kvs)
      else json_field rd name z kvs)"

fun read_str :: "json \<Rightarrow> string option" where
  "read_str (JStr s) = Some s"
| "read_str _ = None"

fun read_int :: "json \<Rightarrow> int option" where
  "read_int (JInt i) = (if - (2 ^ 63) \<le> i \<and> i < 2 ^ 63 then Some i else None)"
| "read_int _ = None"

fun read_bool :: "json \<Rightarrow> bool option" where
  "read_bool (JBool b) = Some b"
| "read_bool _ = None"

fun json_object :: "json option \<Rightarrow> (string \<times> json) list option" where
  "json_object (Some (JObj kvs)) = Some kvs"
| "json_object (Some JNull) = Some []"
| "json_object _ = None"

definition json_str :: "string \<Rightarrow> (string \<times> json) list \<Rightarrow> string option" where
  "json_str name kvs = json_field read_str name [] kvs"

definition JSON :: "int \<Rightarrow> json \<Rightarrow> response" where
  "JSON status data = \<lparr>rp_status = status, rp_headers = [(''Content-Type'', ''application/json'')], rp_cookies = [], rp_body = JsonBody data\<rparr>"

definition JSONError :: "int \<Rightarrow> string \<Rightarrow> response" where
  "JSONError status msg = JSON status (JObj [(''error'', JStr msg)])"

definition ok_body :: json where
  "ok_body = JObj [(''status'', JStr ''ok'')]"

definition Redirect :: "string \<Rightarrow> string \<Rightarrow> response" where
  "Redirect meth url = \<lparr>rp_status = 302, rp_headers = (''Location'', url) #
       (if meth = ''GET'' \<or> meth = ''HEAD'' then [(''Content-Type'', ''text/html; charset=utf-8'')] else []),
     rp_cookies = [], rp_body = (if meth = ''GET'' then Text (''<a href=\"'' @ url @ ''\">Found</a>.'' @ [CHR 10, CHR 10]) else NoBody)\<rparr>"

definition RenderLogin :: "bool \<Rightarrow> response" where
  "RenderLogin parses =
     (if parses then \<lparr>rp_status = 200, rp_headers = [(''Content-Type'', ''text/html; charset=utf-8'')], rp_cookies = [], rp_body = Template ''login.html''\<rparr>
      else \<lparr>rp_status = 500, rp_headers = [(''Content-Type'', ''text/plain; charset=utf-8'')], rp_cookies = [], rp_body = Text (''Internal Server Error'' @ [CHR 10])\<rparr>)"

subsection \<open>State\<close>

record AuditLog =
  au_id :: int
  au_action :: string
  au_details :: string
  au_timestamp :: time

record loginBucket =
  lb_failures :: int
  lb_first :: time
  lb_lock :: "time option"

record 'r server =
  sv_auth :: auth_db
  sv_attempts :: "string \<rightharpoonup> loginBucket"
  sv_tokens :: token_table
  sv_audit :: "AuditLog list"
  sv_audit_seq :: int
  sv_rest :: 'r

definition Log :: "faults \<Rightarrow> time \<Rightarrow> string \<Rightarrow> string \<Rightarrow> 'r server \<Rightarrow> 'r server" where
  "Log fails now action details s =
     (if fails ''insert audit'' then s
      else s\<lparr>sv_audit := sv_audit s @ [\<lparr>au_id = sv_audit_seq s + 1, au_action = action, au_details = details, au_timestamp = secs now\<rparr>],
             sv_audit_seq := sv_audit_seq s + 1\<rparr>)"

definition Recent :: "faults \<Rightarrow> int \<Rightarrow> 'r server \<Rightarrow> unit + AuditLog list" where
  "Recent fails limit s =
     (if fails ''query audit'' then Inl ()
      else let rs = sort_by (\<lambda>a b. au_timestamp b \<le> au_timestamp a) (sv_audit s) in
        Inr (if limit < 0 then rs else take (nat limit) rs))"

subsection \<open>The log-in throttle\<close>

definition loginMaxFailures :: int where "loginMaxFailures = 5"
definition loginWindow :: time where "loginWindow = 60 * 1000000000"
definition loginLockout :: time where "loginLockout = 120 * 1000000000"

fun last_index :: "char \<Rightarrow> string \<Rightarrow> nat option" where
  "last_index c [] = None"
| "last_index c (x # xs) = (case last_index c xs of Some i \<Rightarrow> Some (Suc i) | None \<Rightarrow> if x = c then Some 0 else None)"

definition clientIP :: "request \<Rightarrow> string" where
  "clientIP r = (case last_index (CHR '':'') (rq_remote r) of
     Some i \<Rightarrow> if i > 0 then take i (rq_remote r) else rq_remote r
   | None \<Rightarrow> rq_remote r)"

definition loginLocked :: "time \<Rightarrow> string \<Rightarrow> (string \<rightharpoonup> loginBucket) \<Rightarrow> time option" where
  "loginLocked now ip m =
     (case m ip of
        None \<Rightarrow> None
      | Some b \<Rightarrow> (case lb_lock b of
          None \<Rightarrow> None
        | Some u \<Rightarrow> if now < u then Some (u - now) else None))"

definition recordLoginFailure :: "time \<Rightarrow> string \<Rightarrow> (string \<rightharpoonup> loginBucket) \<Rightarrow> string \<rightharpoonup> loginBucket" where
  "recordLoginFailure now ip m =
     (let fresh = m(ip \<mapsto> \<lparr>lb_failures = 1, lb_first = now, lb_lock = None\<rparr>) in
      case m ip of
        None \<Rightarrow> fresh
      | Some b \<Rightarrow>
          if now - lb_first b > loginWindow then fresh
          else let b = b\<lparr>lb_failures := lb_failures b + 1\<rparr> in
            m(ip \<mapsto> if lb_failures b \<ge> loginMaxFailures then b\<lparr>lb_lock := Some (now + loginLockout)\<rparr> else b))"

definition recordLoginSuccess :: "string \<Rightarrow> (string \<rightharpoonup> loginBucket) \<Rightarrow> string \<rightharpoonup> loginBucket" where
  "recordLoginSuccess ip m = m(ip := None)"

definition toSeconds :: "time \<Rightarrow> string" where
  "toSeconds d = int_str (max 1 ((d + 500000000) div 1000000000))"

text \<open>\<^verbatim>\<open>Duration.String\<close> of a whole number of seconds.\<close>

definition seconds_str :: "int \<Rightarrow> string" where
  "seconds_str n =
     (let h = n div 3600; m = n div 60 mod 60; s = n mod 60 in
      (if h > 0 then int_str h @ ''h'' else []) @ (if n \<ge> 60 then int_str m @ ''m'' else []) @ int_str s @ ''s'')"

record clock =
  at_check :: time
  at_login :: time
  at_failure :: time

definition Login_handler :: "bcrypt \<Rightarrow> faults \<Rightarrow> bytes \<Rightarrow> clock \<Rightarrow> request \<Rightarrow> 'r server \<Rightarrow> response \<times> 'r server" where
  "Login_handler B fails seed t r s =
     (let ip = clientIP r in
      case loginLocked (at_check t) ip (sv_attempts s) of
        Some remaining \<Rightarrow>
          ((JSONError 429 (''too many failed attempts; try again in '' @ seconds_str (remaining div 1000000000)))
             \<lparr>rp_headers := [(''Retry-After'', toSeconds remaining), (''Content-Type'', ''application/json'')]\<rparr>, s)
      | None \<Rightarrow>
          (case json_object (rq_json r) of
             None \<Rightarrow> (JSONError 400 ''invalid request body'', s)
           | Some kvs \<Rightarrow>
               (case (json_str ''username'' kvs, json_str ''password'' kvs) of
                  (Some username, Some password) \<Rightarrow>
                    (case Login B fails seed (at_login t) username password (sv_auth s) of
                       (Inl e, d) \<Rightarrow> (JSONError 401 ''invalid credentials'',
                          s\<lparr>sv_auth := d, sv_attempts := recordLoginFailure (at_failure t) ip (sv_attempts s)\<rparr>)
                     | (Inr token, d) \<Rightarrow> ((JSON 200 ok_body)\<lparr>rp_cookies := [\<lparr>ck_name = ''session'', ck_value = token, ck_path = ''/'',
                            ck_max_age = 86400, ck_http_only = True, ck_secure = rq_tls r, ck_strict = True\<rparr>]\<rparr>,
                          s\<lparr>sv_auth := d, sv_attempts := recordLoginSuccess ip (sv_attempts s)\<rparr>))
                | _ \<Rightarrow> (JSONError 400 ''invalid request body'', s))))"

definition clear_cookie :: cookie where
  "clear_cookie = \<lparr>ck_name = ''session'', ck_value = [], ck_path = ''/'', ck_max_age = -1, ck_http_only = False, ck_secure = False, ck_strict = False\<rparr>"

definition LoginPage :: "faults \<Rightarrow> bool \<Rightarrow> time \<Rightarrow> request \<Rightarrow> 'r server \<Rightarrow> response \<times> 'r server" where
  "LoginPage fails parses now r s =
     (case rq_cookie r of
        None \<Rightarrow> (RenderLogin parses, s)
      | Some c \<Rightarrow> (case ValidateSession fails now c (sv_auth s) of
          (Inr _, d) \<Rightarrow> (Redirect (rq_method r) ''/'', s\<lparr>sv_auth := d\<rparr>)
        | (Inl _, d) \<Rightarrow> (RenderLogin parses, s\<lparr>sv_auth := d\<rparr>)))"

definition Logout_handler :: "faults \<Rightarrow> request \<Rightarrow> 'r server \<Rightarrow> response \<times> 'r server" where
  "Logout_handler fails r s =
     ((JSON 200 ok_body)\<lparr>rp_cookies := [clear_cookie]\<rparr>,
      case rq_cookie r of None \<Rightarrow> s | Some c \<Rightarrow> s\<lparr>sv_auth := snd (Logout fails c (sv_auth s))\<rparr>)"

subsection \<open>Guards\<close>

record request_context =
  cx_user :: "User option"
  cx_client :: "TeslaClientToken option"

definition no_context :: request_context where
  "no_context = \<lparr>cx_user = None, cx_client = None\<rparr>"

type_synonym 'r handler = "request_context \<Rightarrow> request \<Rightarrow> 'r server \<Rightarrow> response \<times> 'r server"

definition AuthRequired :: "faults \<Rightarrow> time \<Rightarrow> 'r handler \<Rightarrow> 'r handler" where
  "AuthRequired fails now nxt cx r s =
     (case rq_cookie r of
        None \<Rightarrow> (Redirect (rq_method r) ''/login'', s)
      | Some c \<Rightarrow> (case ValidateSession fails now c (sv_auth s) of
          (Inl _, d) \<Rightarrow> ((Redirect (rq_method r) ''/login'')\<lparr>rp_cookies := [clear_cookie]\<rparr>, s\<lparr>sv_auth := d\<rparr>)
        | (Inr user, d) \<Rightarrow> nxt (cx\<lparr>cx_user := Some user\<rparr>) r (s\<lparr>sv_auth := d\<rparr>)))"

definition APIAuthRequired :: "faults \<Rightarrow> time \<Rightarrow> 'r handler \<Rightarrow> 'r handler" where
  "APIAuthRequired fails now nxt cx r s =
     (case rq_cookie r of
        None \<Rightarrow> (JSONError 401 ''authentication required'', s)
      | Some c \<Rightarrow> (case ValidateSession fails now c (sv_auth s) of
          (Inl _, d) \<Rightarrow> (JSONError 401 ''invalid session'', s\<lparr>sv_auth := d\<rparr>)
        | (Inr user, d) \<Rightarrow> nxt (cx\<lparr>cx_user := Some user\<rparr>) r (s\<lparr>sv_auth := d\<rparr>)))"

definition GetUser :: "request_context \<Rightarrow> User option" where
  "GetUser cx = cx_user cx"

definition GetBLEClient :: "request_context \<Rightarrow> TeslaClientToken option" where
  "GetBLEClient cx = cx_client cx"

definition client_user :: "TeslaClientToken \<Rightarrow> User" where
  "client_user tok = \<lparr>u_id = 0, u_name = ''client:'' @ ct_name tok, u_hash = [], u_created = 0\<rparr>"

definition BLEBearerRequired :: "faults \<Rightarrow> time \<Rightarrow> 'r handler \<Rightarrow> 'r handler" where
  "BLEBearerRequired fails now nxt cx r s =
     (if \<not> has_prefix (rq_authorization r) ''Bearer '' then (JSONError 401 ''unauthorized'', s)
      else case Validate_token fails now (drop 7 (rq_authorization r)) (sv_tokens s) of
        (Inl _, t) \<Rightarrow> (JSONError 401 ''unauthorized'', s\<lparr>sv_tokens := t\<rparr>)
      | (Inr tok, t) \<Rightarrow> nxt \<lparr>cx_user = Some (client_user tok), cx_client = Some tok\<rparr> r (s\<lparr>sv_tokens := t\<rparr>))"

definition cors_headers :: "request \<Rightarrow> (string \<times> string) list" where
  "cors_headers r =
     [(''Access-Control-Allow-Origin'', if rq_origin r = [] then ''*'' else rq_origin r),
      (''Vary'', ''Origin''),
      (''Access-Control-Allow-Methods'', ''GET, POST, DELETE, OPTIONS''),
      (''Access-Control-Allow-Headers'', ''Authorization, Content-Type''),
      (''Access-Control-Max-Age'', ''600'')]"

definition BLECORS :: "'r handler \<Rightarrow> 'r handler" where
  "BLECORS nxt cx r s =
     (if rq_method r = ''OPTIONS'' then (\<lparr>rp_status = 204, rp_headers = cors_headers r, rp_cookies = [], rp_body = NoBody\<rparr>, s)
      else apfst (\<lambda>p. p\<lparr>rp_headers := cors_headers r @ rp_headers p\<rparr>) (nxt cx r s))"

text \<open>A handler that panics is answered by the router library's \<^verbatim>\<open>Recoverer\<close>.\<close>

definition recovered :: response where
  "recovered = \<lparr>rp_status = 500, rp_headers = [], rp_cookies = [], rp_body = NoBody\<rparr>"

definition Me :: "'r handler" where
  "Me cx r s = (case GetUser cx of None \<Rightarrow> recovered | Some u \<Rightarrow> JSON 200 (JObj [(''username'', JStr (u_name u))]), s)"

subsection \<open>How fast passwords can be guessed\<close>

type_synonym login_call = "faults \<times> bytes \<times> clock \<times> request"

fun login_run :: "bcrypt \<Rightarrow> login_call list \<Rightarrow> 'r server \<Rightarrow> response list \<times> 'r server" where
  "login_run B [] s = ([], s)"
| "login_run B ((fails, seed, t, r) # calls) s =
     (case Login_handler B fails seed t r s of (p, s1) \<Rightarrow> case login_run B calls s1 of (ps, s2) \<Rightarrow> (p # ps, s2))"

fun failures_of :: "string \<Rightarrow> login_call list \<Rightarrow> response list \<Rightarrow> time list" where
  "failures_of ip ((fails, seed, t, r) # calls) (p # ps) =
     (if clientIP r = ip \<and> rp_status p = 401 then [at_failure t] else []) @ failures_of ip calls ps"
| "failures_of ip calls ps = []"

fun never_succeeds :: "string \<Rightarrow> login_call list \<Rightarrow> response list \<Rightarrow> bool" where
  "never_succeeds ip ((fails, seed, t, r) # calls) (p # ps) \<longleftrightarrow> \<not> (clientIP r = ip \<and> rp_status p = 200) \<and> never_succeeds ip calls ps"
| "never_succeeds ip calls ps \<longleftrightarrow> True"

definition ticks :: "login_call list \<Rightarrow> time list" where
  "ticks calls = concat (map (\<lambda>(_, _, t, _). [at_check t, at_login t, at_failure t]) calls)"

definition spaced :: "time list \<Rightarrow> bool" where
  "spaced F \<longleftrightarrow> sorted F \<and> (\<forall>i. i + 8 < length F \<longrightarrow> F ! i + loginWindow < F ! (i + 8))"

definition bucket_of :: "time list \<Rightarrow> nat \<Rightarrow> loginBucket \<Rightarrow> bool" where
  "bucket_of F k b \<longleftrightarrow> lb_failures b = int k \<and> 1 \<le> k \<and> k \<le> 5 \<and> k \<le> length F \<and> lb_first b = F ! (length F - k) \<and>
     (4 \<le> length F - k \<longrightarrow> F ! (length F - k - 4) + loginWindow < F ! (length F - k)) \<and>
     lb_lock b = (if k = 5 then Some (last F + loginLockout) else None)"

definition throttled :: "time list \<Rightarrow> loginBucket option \<Rightarrow> bool" where
  "throttled F ob \<longleftrightarrow> spaced F \<and> (case ob of None \<Rightarrow> F = [] | Some b \<Rightarrow> \<exists>k. bucket_of F k b)"

lemma spaced_snoc:
  assumes "spaced F" "\<forall>x\<in>set F. x \<le> t" "8 \<le> length F \<Longrightarrow> F ! (length F - 8) + loginWindow < t"
  shows "spaced (F @ [t])"
  unfolding spaced_def
proof (intro conjI allI impI)
  show "sorted (F @ [t])" using assms(1,2) by (simp add: spaced_def sorted_append)
  fix i assume i: "i + 8 < length (F @ [t])"
  show "(F @ [t]) ! i + loginWindow < (F @ [t]) ! (i + 8)"
  proof (cases "i + 8 < length F")
    case True
    with assms(1) show ?thesis by (auto simp: spaced_def nth_append)
  next
    case False
    with i have "i + 8 = length F" "8 \<le> length F" by auto
    then have "i = length F - 8" by simp
    with assms(3) \<open>8 \<le> length F\<close> \<open>i + 8 = length F\<close> show ?thesis by (simp add: nth_append)
  qed
qed

lemma bucket_bounds:
  assumes "spaced F" "bucket_of F k b" "length F - 4 = j" "4 \<le> length F" and late: "lb_lock b = None \<or> lb_lock b = Some u \<and> u \<le> t"
    and "t - lb_first b > loginWindow"
  shows "F ! j + loginWindow < t"
proof (cases "k = 5")
  case True
  have "F \<noteq> []" using assms(4) by auto
  then have "F ! j \<le> last F" using assms(1,3,4) by (auto simp: spaced_def last_conv_nth intro: sorted_nth_mono)
  moreover have "u = last F + loginLockout" "u \<le> t" using True assms(2) late by (auto simp: bucket_of_def)
  ultimately show ?thesis by (simp add: loginLockout_def loginWindow_def)
next
  case False
  then have "F ! j \<le> F ! (length F - k)" using assms(1-4) by (auto simp: spaced_def bucket_of_def intro!: sorted_nth_mono)
  with assms(2,6) show ?thesis by (simp add: bucket_of_def)
qed

lemma failure_throttled:
  assumes "throttled F (m ip)" "loginLocked t1 ip m = None" "t1 \<le> t" "\<forall>x\<in>set F. x \<le> t1"
  shows "throttled (F @ [t]) (recordLoginFailure t ip m ip)"
proof (cases "m ip")
  case None
  with assms show ?thesis
    by (auto simp: throttled_def spaced_def bucket_of_def recordLoginFailure_def Let_def intro!: exI [of _ 1])
next
  case (Some b)
  from assms(1) Some obtain k where sp: "spaced F" and k: "bucket_of F k b" by (auto simp: throttled_def)
  have le: "\<forall>x\<in>set F. x \<le> t" using assms(3,4) by auto
  have late: "lb_lock b = None \<or> lb_lock b = Some u \<and> u \<le> t" if "u = last F + loginLockout" for u
    using assms(2,3) Some k that by (auto simp: loginLocked_def bucket_of_def split: if_splits)
  show ?thesis
  proof (cases "t - lb_first b > loginWindow")
    case True
    have four: "F ! (length F - 4) + loginWindow < t" if "4 \<le> length F"
      using bucket_bounds [OF sp k refl that late [OF refl] True] .
    have "F ! (length F - 8) + loginWindow < t" if "8 \<le> length F"
    proof -
      have "F ! (length F - 8) \<le> F ! (length F - 4)" using sp that by (auto simp: spaced_def intro!: sorted_nth_mono)
      with four that show ?thesis by simp
    qed
    then have "spaced (F @ [t])" using spaced_snoc [OF sp le] by blast
    moreover have "bucket_of (F @ [t]) 1 \<lparr>lb_failures = 1, lb_first = t, lb_lock = None\<rparr>"
      using four by (auto simp: bucket_of_def nth_append)
    ultimately show ?thesis using True Some by (auto simp: throttled_def recordLoginFailure_def Let_def)
  next
    case False
    have "k \<noteq> 5"
    proof
      assume five: "k = 5"
      with k have "F \<noteq> []" "lb_first b = F ! (length F - 5)" by (auto simp: bucket_of_def)
      then have "lb_first b \<le> last F" using sp by (auto simp: spaced_def last_conv_nth intro!: sorted_nth_mono)
      moreover have "last F + loginLockout \<le> t" using late [OF refl] k five by (auto simp: bucket_of_def)
      ultimately show False using False by (simp add: loginLockout_def loginWindow_def)
    qed
    with k have k4: "k \<le> 4" "1 \<le> k" "k \<le> length F" by (auto simp: bucket_of_def)
    have first: "F ! (length F - k) \<le> t" using le k4 by simp
    have "F ! (length F - 8) + loginWindow < t" if "8 \<le> length F"
    proof -
      have "F ! (length F - 8) \<le> F ! (length F - k - 4)" using sp that k4 by (auto simp: spaced_def intro!: sorted_nth_mono)
      moreover have "F ! (length F - k - 4) + loginWindow < F ! (length F - k)" using k k4 that by (auto simp: bucket_of_def)
      ultimately show ?thesis using first by simp
    qed
    then have "spaced (F @ [t])" using spaced_snoc [OF sp le] by blast
    moreover have "bucket_of (F @ [t]) (Suc k) (if lb_failures b + 1 \<ge> loginMaxFailures
        then b\<lparr>lb_failures := lb_failures b + 1, lb_lock := Some (t + loginLockout)\<rparr> else b\<lparr>lb_failures := lb_failures b + 1\<rparr>)"
      using k k4 \<open>k \<noteq> 5\<close> by (auto simp: bucket_of_def nth_append loginMaxFailures_def)
    ultimately show ?thesis using False Some by (auto simp: throttled_def recordLoginFailure_def Let_def)
  qed
qed

lemma Login_handler_cases:
  assumes "Login_handler B fails seed t r s = (p, s')"
  shows "rp_status p = 401 \<and> loginLocked (at_check t) (clientIP r) (sv_attempts s) = None \<and>
      sv_attempts s' = recordLoginFailure (at_failure t) (clientIP r) (sv_attempts s) \<or>
    rp_status p = 200 \<and> sv_attempts s' = recordLoginSuccess (clientIP r) (sv_attempts s) \<or>
    rp_status p \<in> {400, 429} \<and> s' = s"
  using assms
  by (auto simp: Login_handler_def Let_def JSONError_def JSON_def split: option.splits prod.splits sum.splits)

lemma recordLogin_other:
  "ip' \<noteq> ip \<Longrightarrow> recordLoginFailure t ip m ip' = m ip'" "ip' \<noteq> ip \<Longrightarrow> recordLoginSuccess ip m ip' = m ip'"
  by (auto simp: recordLoginFailure_def recordLoginSuccess_def Let_def split: option.splits)

lemma login_run_throttled:
  "login_run B calls s = (ps, s') \<Longrightarrow> sorted (t0 # ticks calls) \<Longrightarrow> never_succeeds ip calls ps \<Longrightarrow>
   throttled F (sv_attempts s ip) \<Longrightarrow> \<forall>x\<in>set F. x \<le> t0 \<Longrightarrow>
   throttled (F @ failures_of ip calls ps) (sv_attempts s' ip)"
proof (induction B calls s arbitrary: ps F t0 rule: login_run.induct)
  case (2 B fails seed t r calls s)
  obtain p s1 ps1 where run: "Login_handler B fails seed t r s = (p, s1)" "login_run B calls s1 = (ps1, s')" "ps = p # ps1"
    using "2.prems"(1) by (auto split: prod.splits)
  let ?F = "F @ (if clientIP r = ip \<and> rp_status p = 401 then [at_failure t] else [])"
  have tick: "t0 \<le> at_check t" "at_check t \<le> at_failure t" "sorted (at_failure t # ticks calls)" "t0 \<le> at_failure t"
    using "2.prems"(2) by (auto simp: ticks_def)
  then have "\<forall>x\<in>set F. x \<le> at_check t" "\<forall>x\<in>set ?F. x \<le> at_failure t" using "2.prems"(5) by force+
  moreover have "throttled ?F (sv_attempts s1 ip)"
    using Login_handler_cases [OF run(1)] "2.prems"(3,4) run(3) failure_throttled [where m = "sv_attempts s" and ip = ip, OF "2.prems"(4) _ tick(2) \<open>\<forall>x\<in>set F. x \<le> at_check t\<close>]
    by (auto simp: recordLogin_other)
  moreover have "never_succeeds ip calls ps1" using "2.prems"(3) run(3) by simp
  ultimately have "throttled (?F @ failures_of ip calls ps1) (sv_attempts s' ip)"
    by (intro "2.IH" [OF run(1) [symmetric] run(2) tick(3)])
  then show ?case using run(3) by (simp split: if_splits)
qed simp


definition guess_at :: "time \<Rightarrow> login_call" where
  "guess_at t = (no_faults, [], \<lparr>at_check = t * 100000000, at_login = t * 100000000, at_failure = t * 100000000\<rparr>,
     \<lparr>rq_method = ''POST'', rq_path = ''/api/login'', rq_remote = ''192.168.4.7:51034'', rq_tls = True, rq_cookie = None,
      rq_authorization = [], rq_origin = [], rq_params = [], rq_query = [], rq_json = Some JNull\<rparr>)"

definition empty_server :: "auth_db \<Rightarrow> unit server" where
  "empty_server d = \<lparr>sv_auth = d, sv_attempts = (\<lambda>_. None), sv_tokens = \<lparr>tokens = [], tokens_seq = 0\<rparr>, sv_audit = [], sv_audit_seq = 0, sv_rest = ()\<rparr>"

definition burst :: "login_call list" where
  "burst = map guess_at [0, 597, 598, 599, 601, 602, 603, 604, 605, 700]"

lemma burst_failures:
  "failures_of ''192.168.4.7'' burst (fst (login_run plain_bcrypt burst (empty_server admin_db))) =
     [0, 59700000000, 59800000000, 59900000000, 60100000000, 60200000000, 60300000000, 60400000000, 60500000000]"
  by code_simp


text \<open>Handled concurrently, the check and the record of a failure are separate critical sections.\<close>

record gate =
  gt_attempts :: "string \<rightharpoonup> loginBucket"
  gt_flying :: "string list"
  gt_tried :: nat

inductive gate_step :: "time \<Rightarrow> gate \<Rightarrow> gate \<Rightarrow> bool" for now where
  admit: "loginLocked now ip (gt_attempts g) = None \<Longrightarrow>
    gate_step now g (g\<lparr>gt_flying := ip # gt_flying g, gt_tried := Suc (gt_tried g)\<rparr>)"
| refuse: "ip \<in> set (gt_flying g) \<Longrightarrow>
    gate_step now g (g\<lparr>gt_flying := remove1 ip (gt_flying g), gt_attempts := recordLoginFailure now ip (gt_attempts g)\<rparr>)"
| accept: "ip \<in> set (gt_flying g) \<Longrightarrow>
    gate_step now g (g\<lparr>gt_flying := remove1 ip (gt_flying g), gt_attempts := recordLoginSuccess ip (gt_attempts g)\<rparr>)"

definition gate_start :: gate where
  "gate_start = \<lparr>gt_attempts = (\<lambda>_. None), gt_flying = [], gt_tried = 0\<rparr>"

text \<open>Any number of passwords can be tried from one address at one instant, when the requests are in flight
  together: each is admitted before the first failure is recorded.\<close>

theorem parallel_guesses_unbounded:
  "\<exists>g. (gate_step now)\<^sup>*\<^sup>* gate_start g \<and> gt_tried g = n \<and> set (gt_flying g) \<subseteq> {ip}"
proof -
  have "\<exists>g. (gate_step now)\<^sup>*\<^sup>* gate_start g \<and> gt_tried g = n \<and> set (gt_flying g) \<subseteq> {ip} \<and> gt_attempts g = (\<lambda>_. None)"
  proof (induction n)
    case 0
    then show ?case by (intro exI [of _ gate_start]) (simp add: gate_start_def)
  next
    case (Suc n)
    then obtain g where g: "(gate_step now)\<^sup>*\<^sup>* gate_start g" "gt_tried g = n" "set (gt_flying g) \<subseteq> {ip}" "gt_attempts g = (\<lambda>_. None)" by blast
    have "gate_step now g (g\<lparr>gt_flying := ip # gt_flying g, gt_tried := Suc (gt_tried g)\<rparr>)"
      by (rule admit) (simp add: g loginLocked_def)
    with g show ?case by (intro exI [of _ "g\<lparr>gt_flying := ip # gt_flying g, gt_tried := Suc (gt_tried g)\<rparr>"]) (auto intro: rtranclp.rtrancl_into_rtrancl)
  qed
  then show ?thesis by blast
qed

subsection \<open>The route table\<close>

datatype guard = Open | PageSession | ApiSession | Bearer

record route =
  rt_method :: string
  rt_pattern :: string
  rt_guard :: guard
  rt_handler :: string

definition group :: "guard \<Rightarrow> string \<Rightarrow> (string \<times> string \<times> string) list \<Rightarrow> route list" where
  "group g pre rs = map (\<lambda>(m, p, h). \<lparr>rt_method = m, rt_pattern = pre @ p, rt_guard = g, rt_handler = h\<rparr>) rs"

definition public_routes :: "route list" where
  "public_routes = group Open []
     [(''GET'', ''/static/*'', ''static''), (''GET'', ''/netfilter-ca.crt'', ''ca''), (''GET'', ''/login'', ''authH.LoginPage''),
      (''POST'', ''/api/login'', ''authH.Login''), (''POST'', ''/api/logout'', ''authH.Logout''),
      (''GET'', ''/api/ble/sessions/{id}/events'', ''teslaH.EventsBLE'')]"

definition page_routes :: "route list" where
  "page_routes = group PageSession []
     [(''GET'', ''/'', ''dashH.Page''), (''GET'', ''/traffic'', ''traffic.html''), (''GET'', ''/stats'', ''stats.html''),
      (''GET'', ''/devices'', ''devH.Page''), (''GET'', ''/firewall'', ''fwH.Page''), (''GET'', ''/filters'', ''filtH.Page''),
      (''GET'', ''/bandwidth'', ''bwH.Page''), (''GET'', ''/settings'', ''settingsH.Page''), (''GET'', ''/remote-access'', ''remoteH.Page'')]"

definition ble_routes :: "route list" where
  "ble_routes = group Bearer ''/api/ble''
     [(''GET'', ''/pair'', ''teslaH.PairingInfo''), (''PUT'', ''/vin'', ''teslaH.SetVIN''),
      (''POST'', ''/pair/external-pubkey'', ''teslaH.PairExternalPubkey''), (''GET'', ''/state'', ''teslaH.State''),
      (''GET'', ''/log'', ''teslaH.CommandLog''), (''GET'', ''/lock-watch'', ''teslaH.LockWatchStatus''),
      (''GET'', ''/token'', ''teslaH.MyTokenInfo''), (''DELETE'', ''/token'', ''teslaH.RevokeMyToken''),
      (''POST'', ''/sessions'', ''teslaH.OpenBLESession''), (''POST'', ''/sessions/{id}/exchange'', ''teslaH.ExchangeBLE''),
      (''DELETE'', ''/sessions/{id}'', ''teslaH.CloseBLESession'')]"

definition api_routes :: "route list" where
  "api_routes =
     group ApiSession ''/api'' [(''GET'', ''/me'', ''authH.Me''), (''GET'', ''/dashboard'', ''dashH.API'')] @
     group ApiSession ''/api/devices''
       [(''GET'', ''/'', ''devH.List''), (''PUT'', ''/{mac}'', ''devH.Update''), (''PUT'', ''/{mac}/status'', ''devH.SetStatus''),
        (''DELETE'', ''/{mac}'', ''devH.Delete'')] @
     group ApiSession ''/api/filters''
       [(''GET'', ''/'', ''filtH.List''), (''POST'', ''/'', ''filtH.Create''), (''GET'', ''/{id}'', ''filtH.Get''),
        (''PUT'', ''/{id}'', ''filtH.Update''), (''PUT'', ''/{id}/enabled'', ''filtH.SetEnabled''), (''DELETE'', ''/{id}'', ''filtH.Delete''),
        (''GET'', ''/{id}/domains'', ''filtH.ListDomains''), (''POST'', ''/{id}/domains'', ''filtH.CreateDomain''),
        (''PUT'', ''/domains/{domainID}'', ''filtH.UpdateDomain''), (''PUT'', ''/domains/{domainID}/enabled'', ''filtH.SetDomainEnabled''),
        (''DELETE'', ''/domains/{domainID}'', ''filtH.DeleteDomain'')] @
     group ApiSession ''/api/firewall/rules''
       [(''GET'', ''/'', ''fwH.List''), (''POST'', ''/'', ''fwH.Create''), (''PUT'', ''/{id}'', ''fwH.Update''), (''DELETE'', ''/{id}'', ''fwH.Delete'')] @
     group ApiSession ''/api/bandwidth/limits''
       [(''GET'', ''/'', ''bwH.List''), (''POST'', ''/'', ''bwH.Create''), (''PUT'', ''/{id}'', ''bwH.Update''), (''DELETE'', ''/{id}'', ''bwH.Delete'')] @
     group ApiSession ''/api/settings''
       [(''GET'', ''/'', ''settingsH.Get''), (''PUT'', ''/'', ''settingsH.Update''), (''PUT'', ''/password'', ''settingsH.ChangePassword'')] @
     group ApiSession ''/api/system''
       [(''GET'', ''/info'', ''sysH.Info''), (''GET'', ''/audit'', ''sysH.AuditLog''), (''GET'', ''/connectivity'', ''sysH.TestConnectivity''),
        (''GET'', ''/traffic'', ''sysH.TrafficLog''), (''POST'', ''/traffic/clear'', ''sysH.ClearTrafficLog''),
        (''GET'', ''/traffic/muted'', ''sysH.MutedList''), (''POST'', ''/traffic/muted'', ''sysH.MutedAdd''),
        (''DELETE'', ''/traffic/muted/{id}'', ''sysH.MutedRemove''), (''GET'', ''/stats/summary'', ''sysH.StatsSummary''),
        (''GET'', ''/stats/top-domains'', ''sysH.StatsTopDomains''), (''GET'', ''/stats/top-clients'', ''sysH.StatsTopClients''),
        (''GET'', ''/stats/timeseries'', ''sysH.StatsTimeSeries''), (''POST'', ''/reboot'', ''sysH.Reboot'')] @
     group ApiSession ''/api/tesla''
       [(''GET'', ''/tokens'', ''teslaH.ListTokens''), (''POST'', ''/tokens'', ''teslaH.IssueToken''), (''DELETE'', ''/tokens/{id}'', ''teslaH.RevokeToken'')] @
     group ApiSession ''/api/remote''
       [(''GET'', ''/status'', ''remoteH.Status''), (''POST'', ''/install'', ''remoteH.Install''), (''POST'', ''/up'', ''remoteH.Up''),
        (''POST'', ''/logout'', ''remoteH.Logout''), (''POST'', ''/funnel/ble/enable'', ''remoteH.EnableBLEFunnel''),
        (''POST'', ''/funnel/ble/disable'', ''remoteH.DisableBLEFunnel'')]"

definition routes :: "route list" where
  "routes = public_routes @ page_routes @ ble_routes @ api_routes"

text \<open>
  What the multiplexer answers: a route of the table with its path parameters, a path under the
  mounted \<^verbatim>\<open>/api/ble\<close> router that has no such route, whose guards still run, or nothing.
\<close>

datatype target = Endpoint route "(string \<times> string) list" | BleFallback | NoEndpoint

definition mux_ok :: "(request \<Rightarrow> target) \<Rightarrow> bool" where
  "mux_ok mux \<longleftrightarrow> (\<forall>r rt ps. mux r = Endpoint rt ps \<longrightarrow> rt \<in> set routes \<and> (rt_guard rt = Bearer \<longrightarrow> rt_method rt = rq_method r))"

fun guarded :: "faults \<Rightarrow> time \<Rightarrow> guard \<Rightarrow> 'r handler \<Rightarrow> 'r handler" where
  "guarded fails now Open h = h"
| "guarded fails now PageSession h = AuthRequired fails now h"
| "guarded fails now ApiSession h = APIAuthRequired fails now h"
| "guarded fails now Bearer h = BLECORS (BLEBearerRequired fails now h)"

record world =
  wd_bcrypt :: bcrypt
  wd_faults :: faults
  wd_seed :: bytes
  wd_clock :: clock
  wd_login_template :: bool

definition auth_handlers :: "world \<Rightarrow> (string \<Rightarrow> 'r handler) \<Rightarrow> string \<Rightarrow> 'r handler" where
  "auth_handlers w H name =
     (if name = ''authH.LoginPage'' then (\<lambda>cx. LoginPage (wd_faults w) (wd_login_template w) (at_check (wd_clock w)))
      else if name = ''authH.Login'' then (\<lambda>cx. Login_handler (wd_bcrypt w) (wd_faults w) (wd_seed w) (wd_clock w))
      else if name = ''authH.Logout'' then (\<lambda>cx. Logout_handler (wd_faults w))
      else if name = ''authH.Me'' then Me
      else H name)"

definition missing :: response where
  "missing = \<lparr>rp_status = 404, rp_headers = [], rp_cookies = [], rp_body = NoBody\<rparr>"

definition NewRouterWithFS :: "(request \<Rightarrow> target) \<Rightarrow> world \<Rightarrow> (string \<Rightarrow> 'r handler) \<Rightarrow> request \<Rightarrow> 'r server \<Rightarrow> response \<times> 'r server" where
  "NewRouterWithFS mux w H r s =
     (let now = at_check (wd_clock w) in
      case mux r of
        Endpoint rt ps \<Rightarrow> guarded (wd_faults w) now (rt_guard rt) (auth_handlers w H (rt_handler rt)) no_context (r\<lparr>rq_params := ps\<rparr>) s
      | BleFallback \<Rightarrow> guarded (wd_faults w) now Bearer (\<lambda>cx r s. (missing, s)) no_context r s
      | NoEndpoint \<Rightarrow> (missing, s))"

definition session_ok :: "faults \<Rightarrow> time \<Rightarrow> request \<Rightarrow> 'r server \<Rightarrow> bool" where
  "session_ok fails now r s = (case rq_cookie r of None \<Rightarrow> False | Some c \<Rightarrow> \<not> isl (fst (ValidateSession fails now c (sv_auth s))))"

definition bearer_ok :: "faults \<Rightarrow> time \<Rightarrow> request \<Rightarrow> 'r server \<Rightarrow> bool" where
  "bearer_ok fails now r s \<longleftrightarrow> has_prefix (rq_authorization r) ''Bearer '' \<and>
     \<not> isl (fst (Validate_token fails now (drop 7 (rq_authorization r)) (sv_tokens s)))"

text \<open>A refusal: a redirect to the log-in page or a 401, and no effect but that an expired session is forgotten.\<close>

definition refused :: "response \<times> 'r server \<Rightarrow> 'r server \<Rightarrow> bool" where
  "refused ps s \<longleftrightarrow> (case ps of (p, s') \<Rightarrow> rp_status p \<in> {302, 401} \<and>
     (\<exists>d. s' = s\<lparr>sv_auth := d\<rparr> \<and> users d = users (sv_auth s) \<and> set (sessions d) \<subseteq> set (sessions (sv_auth s))))"

lemma validate_shrinks:
  "ValidateSession fails now c d = (x, d') \<Longrightarrow> users d' = users d \<and> set (sessions d') \<subseteq> set (sessions d)"
  by (auto simp: ValidateSession_def drop_session_def split: option.splits if_splits prod.splits)

lemma refusedI: "rp_status p \<in> {302, 401} \<Longrightarrow> refused (p, s) s"
  unfolding refused_def by (auto intro!: exI [of _ "sv_auth s"])

lemma session_guards_refuse:
  assumes "\<not> session_ok fails now r s"
  shows "refused (AuthRequired fails now h cx r s) s" "refused (APIAuthRequired fails now h cx r s) s"
proof -
  have "refused (AuthRequired fails now h cx r s) s \<and> refused (APIAuthRequired fails now h cx r s) s"
  proof (cases "rq_cookie r")
    case None
    then show ?thesis by (auto simp: AuthRequired_def APIAuthRequired_def Redirect_def JSONError_def JSON_def intro!: refusedI)
  next
    case (Some c)
    with assms obtain e d where v: "ValidateSession fails now c (sv_auth s) = (Inl e, d)"
      by (cases "ValidateSession fails now c (sv_auth s)") (auto simp: session_ok_def isl_def)
    with validate_shrinks [OF v] Some show ?thesis
      by (auto simp: refused_def AuthRequired_def APIAuthRequired_def Redirect_def JSONError_def JSON_def)
  qed
  then show "refused (AuthRequired fails now h cx r s) s" "refused (APIAuthRequired fails now h cx r s) s" by simp_all
qed

lemma validate_refusal_keeps: "Validate_token fails now plain t = (Inl e, t') \<Longrightarrow> t' = t"
  by (auto simp: Validate_token_def Let_def split: if_splits option.splits)

lemma bearer_guard_refuses:
  assumes "\<not> bearer_ok fails now r s" "rq_method r \<noteq> ''OPTIONS''"
  shows "refused (BLECORS (BLEBearerRequired fails now h) cx r s) s"
proof (cases "has_prefix (rq_authorization r) ''Bearer ''")
  case False
  with assms(2) show ?thesis by (auto simp: BLECORS_def BLEBearerRequired_def JSONError_def JSON_def intro!: refusedI)
next
  case True
  with assms(1) obtain e t where v: "Validate_token fails now (drop 7 (rq_authorization r)) (sv_tokens s) = (Inl e, t)"
    by (cases "Validate_token fails now (drop 7 (rq_authorization r)) (sv_tokens s)") (auto simp: bearer_ok_def isl_def)
  with validate_refusal_keeps [OF v] True assms(2) show ?thesis
    by (auto simp: BLECORS_def BLEBearerRequired_def JSONError_def JSON_def intro!: refusedI)
qed

definition open_handlers :: "string list" where
  "open_handlers = [''static'', ''ca'', ''authH.LoginPage'', ''authH.Login'', ''authH.Logout'', ''teslaH.EventsBLE'']"

definition ble_handlers :: "string list" where
  "ble_handlers = [''teslaH.PairingInfo'', ''teslaH.SetVIN'', ''teslaH.PairExternalPubkey'', ''teslaH.State'', ''teslaH.CommandLog'',
     ''teslaH.LockWatchStatus'', ''teslaH.MyTokenInfo'', ''teslaH.RevokeMyToken'', ''teslaH.OpenBLESession'', ''teslaH.ExchangeBLE'',
     ''teslaH.CloseBLESession'']"

text \<open>Which guard stands before which handler, and that a handler is reached through one kind of guard only.\<close>

lemma route_guards:
  "rt \<in> set routes \<Longrightarrow>
   (rt_guard rt = Open \<longleftrightarrow> rt_handler rt \<in> set open_handlers) \<and> (rt_guard rt = Bearer \<longleftrightarrow> rt_handler rt \<in> set ble_handlers) \<and>
   (rt_guard rt = Bearer \<longrightarrow> rt_method rt \<noteq> ''OPTIONS'')"
proof -
  have "\<forall>rt\<in>set routes. (rt_guard rt = Open \<longleftrightarrow> rt_handler rt \<in> set open_handlers) \<and> (rt_guard rt = Bearer \<longleftrightarrow> rt_handler rt \<in> set ble_handlers) \<and>
   (rt_guard rt = Bearer \<longrightarrow> rt_method rt \<noteq> ''OPTIONS'')" by code_simp
  then show "rt \<in> set routes \<Longrightarrow> ?thesis" by blast
qed


definition reboot_route :: route where
  "reboot_route = \<lparr>rt_method = ''POST'', rt_pattern = ''/api/system/reboot'', rt_guard = ApiSession, rt_handler = ''sysH.Reboot''\<rparr>"

definition stale_request :: request where
  "stale_request = \<lparr>rq_method = ''POST'', rq_path = ''/api/system/reboot'', rq_remote = ''192.168.4.7:51034'', rq_tls = True,
     rq_cookie = Some ''07'', rq_authorization = ''Bearer x'', rq_origin = [], rq_params = [], rq_query = [], rq_json = None\<rparr>"

definition quiet_world :: world where
  "quiet_world = \<lparr>wd_bcrypt = plain_bcrypt, wd_faults = no_faults, wd_seed = [7], wd_clock = \<lparr>at_check = 5, at_login = 5, at_failure = 5\<rparr>, wd_login_template = True\<rparr>"


end
