(* ===== verification/Go_URL.thy ===== *)
theory Go_URL
  imports Models
begin

text \<open>
  What the sources use of \<^verbatim>\<open>net/url\<close>: percent-decoding of paths and query components, query escaping,
  \<^verbatim>\<open>ParseQuery\<close> and \<^verbatim>\<open>Values.Encode\<close>.  A \<^verbatim>\<open>Values\<close> map is the list of its pairs in order of arrival; what
  the code can see of it is \<open>values_of\<close>.  Encoding and parsing are inverse on what can be seen, and the
  encoding depends on nothing else.
\<close>

definition from_hex :: "char \<Rightarrow> nat option" where
  "from_hex c = (let n = (of_char c :: nat) in
     if 48 \<le> n \<and> n \<le> 57 then Some (n - 48)
     else if 97 \<le> n \<and> n \<le> 102 then Some (n - 87)
     else if 65 \<le> n \<and> n \<le> 70 then Some (n - 55) else None)"

definition upper_hex :: "nat \<Rightarrow> char" where
  "upper_hex d = (if d < 10 then char_of (48 + d) else char_of (55 + d))"

definition percent :: "char \<Rightarrow> string" where
  "percent c = [CHR ''%'', upper_hex (of_char c div 16), upper_hex (of_char c mod 16)]"

definition unreserved :: "char \<Rightarrow> bool" where
  "unreserved c \<longleftrightarrow> (let n = (of_char c :: nat) in 48 \<le> n \<and> n \<le> 57 \<or> 65 \<le> n \<and> n \<le> 90 \<or> 97 \<le> n \<and> n \<le> 122) \<or>
     c \<in> {CHR ''-'', CHR ''_'', CHR ''.'', CHR ''~''}"

fun unescape :: "bool \<Rightarrow> string \<Rightarrow> string option" where
  "unescape pl [] = Some []"
| "unescape pl (c # s) =
     (if c = CHR ''%'' then
        (case s of
           a # b # t \<Rightarrow> (case (from_hex a, from_hex b) of
             (Some x, Some y) \<Rightarrow> map_option (Cons (char_of (16 * x + y))) (unescape pl t)
           | _ \<Rightarrow> None)
         | _ \<Rightarrow> None)
      else map_option (Cons (if pl \<and> c = CHR ''+'' then CHR '' '' else c)) (unescape pl s))"

definition PathUnescape :: "string \<Rightarrow> string option" where
  "PathUnescape s = unescape False s"

definition escape_char :: "char \<Rightarrow> string" where
  "escape_char c = (if c = CHR '' '' then ''+'' else if unreserved c then [c] else percent c)"

definition QueryEscape :: "string \<Rightarrow> string" where
  "QueryEscape s = concat (map escape_char s)"

fun cut :: "char \<Rightarrow> string \<Rightarrow> string \<times> string" where
  "cut c [] = ([], [])"
| "cut c (x # s) = (if x = c then ([], s) else apfst (Cons x) (cut c s))"

definition parse_piece :: "string \<Rightarrow> (string \<times> string) list option" where
  "parse_piece p =
     (if CHR '';'' \<in> set p then None
      else if p = [] then Some []
      else case cut (CHR ''='') p of (k, v) \<Rightarrow>
        (case (unescape True k, unescape True v) of (Some k', Some v') \<Rightarrow> Some [(k', v')] | _ \<Rightarrow> None))"

text \<open>The pairs that parse, and whether all of it did.\<close>

definition ParseQuery :: "string \<Rightarrow> (string \<times> string) list \<times> bool" where
  "ParseQuery q = (let ps = map parse_piece (split_on (CHR ''&'') q) in
     (concat (map (\<lambda>p. case p of Some kv \<Rightarrow> kv | None \<Rightarrow> []) ps), \<not> list_ex (\<lambda>p. p = None) ps))"

definition values_of :: "(string \<times> string) list \<Rightarrow> string \<Rightarrow> string list" where
  "values_of m k = map snd (filter (\<lambda>kv. fst kv = k) m)"

definition query_get :: "(string \<times> string) list \<Rightarrow> string \<Rightarrow> string" where
  "query_get m k = (case values_of m k of [] \<Rightarrow> [] | v # _ \<Rightarrow> v)"

definition query_set :: "string \<Rightarrow> string \<Rightarrow> (string \<times> string) list \<Rightarrow> (string \<times> string) list" where
  "query_set k v m = filter (\<lambda>kv. fst kv \<noteq> k) m @ [(k, v)]"

definition sorted_pairs :: "(string \<times> string) list \<Rightarrow> (string \<times> string) list" where
  "sorted_pairs m = concat (map (\<lambda>k. map (Pair k) (values_of m k)) (sort_by str_le (remdups (map fst m))))"

definition Encode :: "(string \<times> string) list \<Rightarrow> string" where
  "Encode m = join ''&'' (map (\<lambda>(k, v). QueryEscape k @ ''='' @ QueryEscape v) (sorted_pairs m))"

subsection \<open>Escaping and its inverse\<close>

lemma from_upper_hex: "d < 16 \<Longrightarrow> from_hex (upper_hex d) = Some d"
  by (auto simp: from_hex_def upper_hex_def Let_def)

lemma nibbles: "of_char c div 16 < (16::nat)" "of_char c mod 16 < (16::nat)"
  using nat_of_char_less_256 [of c] by (simp_all add: div_less_iff_less_mult)

lemma unescape_percent: "unescape pl (percent c @ s) = map_option (Cons c) (unescape pl s)"
proof -
  have "from_hex (upper_hex (of_char c div 16)) = Some (of_char c div 16)" "from_hex (upper_hex (of_char c mod 16)) = Some (of_char c mod 16)"
    by (intro from_upper_hex nibbles)+
  then show ?thesis by (simp add: percent_def)
qed

lemma unreserved_plain: "unreserved c \<Longrightarrow> c \<notin> {CHR ''%'', CHR ''+'', CHR ''&'', CHR ''='', CHR '';'', CHR '' ''}"
  by (auto simp: unreserved_def Let_def)

lemma unescape_escape_char: "unescape True (escape_char c @ s) = map_option (Cons c) (unescape True s)"
  using unreserved_plain [of c] unescape_percent [of True c s] by (auto simp: escape_char_def)

lemma unescape_QueryEscape [simp]: "unescape True (QueryEscape s) = Some s"
  by (induction s) (simp_all add: QueryEscape_def unescape_escape_char)

lemma upper_hex_unreserved: "d < 16 \<Longrightarrow> unreserved (upper_hex d)"
  by (auto simp: unreserved_def upper_hex_def Let_def)

lemma QueryEscape_chars: "c \<in> set (QueryEscape s) \<Longrightarrow> unreserved c \<or> c = CHR ''+'' \<or> c = CHR ''%''"
proof -
  assume "c \<in> set (QueryEscape s)"
  then obtain x where "c \<in> set (escape_char x)" by (auto simp: QueryEscape_def)
  moreover have "unreserved (upper_hex (of_char x div 16))" "unreserved (upper_hex (of_char x mod 16))"
    by (intro upper_hex_unreserved nibbles)+
  ultimately show ?thesis by (auto simp: escape_char_def percent_def split: if_splits)
qed

lemma QueryEscape_plain: "CHR ''&'' \<notin> set (QueryEscape s)" "CHR ''='' \<notin> set (QueryEscape s)" "CHR '';'' \<notin> set (QueryEscape s)"
  using QueryEscape_chars [of _ s] unreserved_plain by force+

lemma cut_append: "c \<notin> set a \<Longrightarrow> cut c (a @ c # b) = (a, b)"
  by (induction a) auto

lemma parse_piece_pair: "parse_piece (QueryEscape k @ CHR ''='' # QueryEscape v) = Some [(k, v)]"
  by (simp add: parse_piece_def cut_append QueryEscape_plain)

lemma ParseQuery_Encode: "ParseQuery (Encode m) = (sorted_pairs m, True)"
proof (cases "sorted_pairs m = []")
  case True
  then show ?thesis by (simp add: Encode_def ParseQuery_def parse_piece_def)
next
  case False
  let ?ps = "map (\<lambda>(k, v). QueryEscape k @ ''='' @ QueryEscape v) (sorted_pairs m)"
  have "split_on (CHR ''&'') (Encode m) = ?ps"
    unfolding Encode_def using False by (intro split_on_join) (auto simp: QueryEscape_plain)
  moreover have "map parse_piece ?ps = map (\<lambda>kv. Some [kv]) (sorted_pairs m)"
    by (auto simp: parse_piece_pair)
  ultimately show ?thesis
    by (simp add: ParseQuery_def Let_def o_def list_ex_iff) (auto simp: parse_piece_pair o_def split_def)
qed

lemma values_of_append [simp]: "values_of (xs @ ys) k = values_of xs k @ values_of ys k"
  by (simp add: values_of_def)

lemma values_of_set: "values_of (query_set k v m) j = (if j = k then [v] else values_of m j)"
  by (auto simp: values_of_def query_set_def filter_empty_conv intro!: arg_cong [where f = "map snd"] filter_cong)

lemma values_of_Nil_iff: "values_of m k = [] \<longleftrightarrow> k \<notin> fst ` set m"
  by (auto simp: values_of_def filter_empty_conv)

lemma values_of_groups:
  "distinct ks \<Longrightarrow> values_of (concat (map (\<lambda>k. map (Pair k) (f k)) ks)) j = (if j \<in> set ks then f j else [])"
proof (induction ks)
  case (Cons k ks)
  have "values_of (map (Pair k) (f k)) j = (if j = k then f k else [])" by (simp add: values_of_def filter_map o_def)
  with Cons show ?case by auto
qed (simp add: values_of_def)

lemma values_of_sorted_pairs [simp]: "values_of (sorted_pairs m) k = values_of m k"
  unfolding sorted_pairs_def
  by (subst values_of_groups) (auto simp: distinct_sort_by values_of_Nil_iff [THEN iffD2])

subsection \<open>The encoding depends on the values only\<close>

lemma str_le_total: "str_le s t \<or> str_le t s"
  by (induction s t rule: str_le.induct) auto

lemma str_le_trans: "str_le s t \<Longrightarrow> str_le t u \<Longrightarrow> str_le s u"
proof (induction s t arbitrary: u rule: str_le.induct)
  case (3 c s e t)
  then show ?case by (cases u) auto
qed auto

lemma str_le_antisym: "str_le s t \<Longrightarrow> str_le t s \<Longrightarrow> s = t"
proof (induction s t rule: str_le.induct)
  case (1 t)
  then show ?case by (cases t) auto
qed auto

lemma sorted_wrt_unique:
  assumes "\<And>x y. le x y \<Longrightarrow> le y x \<Longrightarrow> x = y"
  shows "sorted_wrt le xs \<Longrightarrow> sorted_wrt le ys \<Longrightarrow> distinct xs \<Longrightarrow> distinct ys \<Longrightarrow> set xs = set ys \<Longrightarrow> xs = ys"
proof (induction xs arbitrary: ys)
  case (Cons x xs)
  then obtain y zs where ys: "ys = y # zs" by (cases ys) auto
  have "x = y"
  proof (rule ccontr)
    assume "x \<noteq> y"
    with Cons.prems ys have "y \<in> set xs" "x \<in> set zs" by auto
    with Cons.prems ys assms have "x = y" by auto
    with \<open>x \<noteq> y\<close> show False by simp
  qed
  moreover have "set xs = set zs" using Cons.prems ys \<open>x = y\<close> by auto
  ultimately show ?case using Cons ys by auto
qed simp

lemma Encode_cong:
  assumes "\<And>k. values_of m k = values_of m' k"
  shows "Encode m = Encode m'"
proof -
  have "k \<in> fst ` set m \<longleftrightarrow> k \<in> fst ` set m'" for k
    using assms [of k] values_of_Nil_iff [of m k] values_of_Nil_iff [of m' k] by simp
  then have "fst ` set m = fst ` set m'" by blast
  then have "sort_by str_le (remdups (map fst m)) = sort_by str_le (remdups (map fst m'))"
    by (intro sorted_wrt_unique [where le = str_le, OF str_le_antisym] sorted_sort_by [OF str_le_total str_le_trans]) (simp_all add: distinct_sort_by)
  with assms show ?thesis by (simp add: Encode_def sorted_pairs_def)
qed

end
