(* ===== verification/Request_Log.thy ===== *)
theory Request_Log
  imports Go_URL
begin

text \<open>
  \<^verbatim>\<open>internal/handlers/reqlog.go\<close>: the request logger keeps the bearer of the event stream, which travels
  as \<^verbatim>\<open>?token=\<close>, out of the log.  The request URI is modelled in origin form, as a client of this server
  sends it; what \<^verbatim>\<open>net/url\<close> makes of an absolute or authority form is the argument \<open>other\<close>.
\<close>

definition redactedQueryKeys :: "string list" where
  "redactedQueryKeys = [''token'']"

definition path_escapes :: "char \<Rightarrow> bool" where
  "path_escapes c \<longleftrightarrow> \<not> unreserved c \<and> c \<notin> {CHR ''$'', CHR ''&'', CHR ''+'', CHR '','', CHR ''/'', CHR '':'', CHR '';'', CHR ''='', CHR ''@''}"

definition valid_encoded :: "string \<Rightarrow> bool" where
  "valid_encoded p \<longleftrightarrow> list_all (\<lambda>c. c \<in> set ''!$&()*+,;=:@[]%'' \<or> c = CHR 39 \<or> \<not> path_escapes c) p"

definition escaped_path :: "string \<Rightarrow> string \<Rightarrow> string" where
  "escaped_path raw path = (if valid_encoded raw then raw else concat (map (\<lambda>c. if path_escapes c then percent c else [c]) path))"

definition control :: "char \<Rightarrow> bool" where
  "control c \<longleftrightarrow> (of_char c :: nat) < 32 \<or> c = CHR 127"

text \<open>\<^verbatim>\<open>url.ParseRequestURI\<close> of an origin-form URI: its path as it will be printed and its raw query.\<close>

definition ParseRequestURI :: "string \<Rightarrow> (string \<times> string) option" where
  "ParseRequestURI raw =
     (if list_ex control raw then None
      else case cut (CHR ''?'') raw of (p, q) \<Rightarrow> map_option (\<lambda>path. (escaped_path p path, q)) (PathUnescape p))"

fun redact_keys :: "string list \<Rightarrow> (string \<times> string) list \<Rightarrow> (string \<times> string) list \<times> bool" where
  "redact_keys [] m = (m, False)"
| "redact_keys (key # keys) m =
     (if values_of m key \<noteq> [] then case redact_keys keys (query_set key ''REDACTED'' m) of (m', _) \<Rightarrow> (m', True)
      else redact_keys keys m)"

definition redactRequestURI :: "(string \<Rightarrow> string) \<Rightarrow> string \<Rightarrow> string" where
  "redactRequestURI other raw =
     (if raw = [] then raw
      else if \<not> has_prefix raw ''/'' then other raw
      else case ParseRequestURI raw of
        None \<Rightarrow> raw
      | Some (path, q) \<Rightarrow>
          if q = [] then raw
          else case ParseQuery q of (m, ok) \<Rightarrow>
            if \<not> ok then raw
            else case redact_keys redactedQueryKeys m of (m', changed) \<Rightarrow>
              if \<not> changed then raw else path @ ''?'' @ Encode m')"

text \<open>What the log entry prints of the request.\<close>

definition NewLogEntry :: "(string \<Rightarrow> string) \<Rightarrow> string \<Rightarrow> string" where
  "NewLogEntry other uri = (let redacted = redactRequestURI other uri in if redacted \<noteq> uri then redacted else uri)"

text \<open>\<^verbatim>\<open>r.URL.Query().Get\<close>, which is what the event stream's handler validates: it keeps the pairs that parse.\<close>

definition url_query_get :: "string \<Rightarrow> string \<Rightarrow> string" where
  "url_query_get raw k = query_get (fst (ParseQuery (snd (cut (CHR ''?'') raw)))) k"

lemma NewLogEntry_redact: "NewLogEntry other uri = redactRequestURI other uri"
  by (simp add: NewLogEntry_def Let_def)

lemma redact_token:
  "redact_keys redactedQueryKeys m = (if values_of m ''token'' \<noteq> [] then (query_set ''token'' ''REDACTED'' m, True) else (m, False))"
  by (simp add: redactedQueryKeys_def)

lemma redact_parsed:
  assumes "ParseRequestURI raw = Some (path, q)" "has_prefix raw ''/''" "ParseQuery q = (m, True)" "values_of m ''token'' \<noteq> []"
  shows "redactRequestURI other raw = path @ ''?'' @ Encode (query_set ''token'' ''REDACTED'' m)"
proof -
  have "q \<noteq> []" using assms(3,4) by (auto simp: ParseQuery_def parse_piece_def values_of_def)
  moreover have "raw \<noteq> []" using assms(2) by (auto simp: has_prefix_def)
  ultimately show ?thesis using assms by (simp add: redactRequestURI_def redact_token)
qed

text \<open>What is logged of a request whose query parses is its path and a query that parses back to
  the same parameters with the same values, but for the bearer, whose value reads \<^verbatim>\<open>REDACTED\<close>.\<close>

theorem logged_query_roundtrip:
  assumes "ParseRequestURI raw = Some (path, q)" "has_prefix raw ''/''" "ParseQuery q = (m, True)" "values_of m ''token'' \<noteq> []"
  shows "\<exists>q' m'. NewLogEntry other raw = path @ ''?'' @ q' \<and> ParseQuery q' = (m', True) \<and>
    (\<forall>k. values_of m' k = (if k = ''token'' then [''REDACTED''] else values_of m k))"
  unfolding NewLogEntry_redact
  by (intro exI [of _ "Encode (query_set ''token'' ''REDACTED'' m)"] exI [of _ "sorted_pairs (query_set ''token'' ''REDACTED'' m)"])
    (simp add: redact_parsed [OF assms] ParseQuery_Encode values_of_set)

text \<open>C31: the log does not depend on the bearer.  Two requests with the same path whose queries parse and
  agree on every parameter but the bearer leave the same line in the log.\<close>

theorem log_independent_of_bearer:
  assumes "ParseRequestURI raw1 = Some (path, q1)" "has_prefix raw1 ''/''" "ParseQuery q1 = (m1, True)" "values_of m1 ''token'' \<noteq> []"
    and "ParseRequestURI raw2 = Some (path, q2)" "has_prefix raw2 ''/''" "ParseQuery q2 = (m2, True)" "values_of m2 ''token'' \<noteq> []"
    and "\<And>k. k \<noteq> ''token'' \<Longrightarrow> values_of m1 k = values_of m2 k"
  shows "NewLogEntry other raw1 = NewLogEntry other raw2"
proof -
  have "Encode (query_set ''token'' ''REDACTED'' m1) = Encode (query_set ''token'' ''REDACTED'' m2)"
    using assms(9) by (intro Encode_cong) (simp add: values_of_set)
  then show ?thesis by (simp add: NewLogEntry_redact redact_parsed [OF assms(1-4)] redact_parsed [OF assms(5-8)])
qed

definition events_uri :: "string \<Rightarrow> string" where
  "events_uri v = ''/api/ble/sessions/1/events?token='' @ v"

theorem logged_query_roundtrip_witness:
  "\<exists>q' m'. NewLogEntry (\<lambda>_. []) (events_uri ''s3cret&foo=b%20r'') = ''/api/ble/sessions/1/events'' @ ''?'' @ q' \<and> ParseQuery q' = (m', True) \<and>
    (\<forall>k. values_of m' k = (if k = ''token'' then [''REDACTED''] else values_of [(''token'', ''s3cret''), (''foo'', ''b r'')] k))"
proof (rule logged_query_roundtrip)
  show "ParseRequestURI (events_uri ''s3cret&foo=b%20r'') = Some (''/api/ble/sessions/1/events'', ''token=s3cret&foo=b%20r'')" by code_simp
  show "has_prefix (events_uri ''s3cret&foo=b%20r'') ''/''" by code_simp
  show "ParseQuery ''token=s3cret&foo=b%20r'' = ([(''token'', ''s3cret''), (''foo'', ''b r'')], True)" by code_simp
  show "values_of [(''token'', ''s3cret''), (''foo'', ''b r'')] ''token'' \<noteq> []" by code_simp
qed

theorem log_independent_of_bearer_witness:
  "NewLogEntry (\<lambda>_. []) (events_uri ''s3cret'') = NewLogEntry (\<lambda>_. []) (events_uri ''other'')"
proof (rule log_independent_of_bearer)
  show "ParseRequestURI (events_uri ''s3cret'') = Some (''/api/ble/sessions/1/events'', ''token=s3cret'')"
    "ParseRequestURI (events_uri ''other'') = Some (''/api/ble/sessions/1/events'', ''token=other'')" by code_simp+
  show "has_prefix (events_uri ''s3cret'') ''/''" "has_prefix (events_uri ''other'') ''/''" by code_simp+
  show "ParseQuery ''token=s3cret'' = ([(''token'', ''s3cret'')], True)" "ParseQuery ''token=other'' = ([(''token'', ''other'')], True)" by code_simp+
  show "values_of [(''token'', ''s3cret'')] ''token'' \<noteq> []" "values_of [(''token'', ''other'')] ''token'' \<noteq> []" by code_simp+
  show "\<And>k. k \<noteq> ''token'' \<Longrightarrow> values_of [(''token'', ''s3cret'')] k = values_of [(''token'', ''other'')] k" by (simp add: values_of_def)
qed

lemma unescape_unreserved: "list_all unreserved v \<Longrightarrow> unescape pl v = Some v"
  using unreserved_plain by (induction v) auto

lemma ParseQuery_semicolon:
  assumes "list_all unreserved v"
  shows "ParseQuery (''token='' @ v @ ''&;'') = ([(''token'', v)], False)"
proof -
  have plain: "CHR ''&'' \<notin> set v" "CHR '';'' \<notin> set v" using assms unreserved_plain by (auto simp: list_all_iff)
  have "split_on (CHR ''&'') ((''token='' @ v) @ CHR ''&'' # '';'') = [''token='' @ v, '';'']"
    using plain by (subst split_on_append) auto
  moreover have "parse_piece (''token='' @ v) = Some [(''token'', v)]"
    using plain assms cut_append [of "CHR ''=''" "''token''" v] by (simp add: parse_piece_def unescape_unreserved)
  moreover have "parse_piece '';'' = None" by (simp add: parse_piece_def)
  ultimately show ?thesis by (simp add: ParseQuery_def Let_def)
qed

text \<open>A query that does not parse as a whole is logged as it is, while the handler of the event stream
  takes the parameters that do parse: with \<^verbatim>\<open>&;\<close> appended, every bearer is accepted and logged in full.\<close>

theorem malformed_query_logs_bearer:
  assumes "list_all unreserved v"
  shows "NewLogEntry other (events_uri (v @ ''&;'')) = events_uri (v @ ''&;'') \<and> url_query_get (events_uri (v @ ''&;'')) ''token'' = v"
proof -
  have cut: "cut (CHR ''?'') (events_uri (v @ ''&;'')) = (''/api/ble/sessions/1/events'', ''token='' @ v @ ''&;'')"
    using cut_append [of "CHR ''?''" "''/api/ble/sessions/1/events''" "''token='' @ v @ ''&;''"] by (simp add: events_uri_def)
  have q: "ParseQuery (''token='' @ v @ ''&;'') = ([(''token'', v)], False)" by (rule ParseQuery_semicolon) (rule assms)
  have "redactRequestURI other (events_uri (v @ ''&;'')) = events_uri (v @ ''&;'')"
    using q by (auto simp: redactRequestURI_def ParseRequestURI_def cut has_prefix_def events_uri_def split: option.splits)
  moreover have "url_query_get (events_uri (v @ ''&;'')) ''token'' = v"
    using q by (simp add: url_query_get_def cut query_get_def values_of_def)
  ultimately show ?thesis by (simp add: NewLogEntry_redact)
qed

theorem malformed_query_logs_bearer_witness:
  "NewLogEntry (\<lambda>_. []) (events_uri (''s3cret'' @ ''&;'')) = events_uri (''s3cret'' @ ''&;'') \<and> url_query_get (events_uri (''s3cret'' @ ''&;'')) ''token'' = ''s3cret''"
  by (rule malformed_query_logs_bearer) code_simp

end
