(* ===== verification/Bandwidth.thy ===== *)
theory Bandwidth
  imports Models Runtime Go_Net
begin

text \<open>
  \<^verbatim>\<open>internal/services/bandwidth.go\<close>: per-device rate limits, applied as HTB classes with \<^verbatim>\<open>tc\<close>.  Downloads are
  shaped on the LAN interface, uploads on an IFB device that the LAN ingress is redirected to.
\<close>

record BandwidthLimit =
  bl_id :: int
  bl_mac :: string
  bl_down :: int
  bl_up :: int
  bl_enabled :: bool

record limit_table =
  limits :: "BandwidthLimit list"
  limits_seq :: int

definition ListLimits :: "faults \<Rightarrow> limit_table \<Rightarrow> BandwidthLimit list option" where
  "ListLimits fails t = (if fails ''query bandwidth limits'' then None else Some (limits t))"

text \<open>The upsert.  On a conflict SQLite reports the connection's last inserted id, which is the argument \<open>stale\<close>.\<close>

definition CreateLimit :: "faults \<Rightarrow> int \<Rightarrow> BandwidthLimit \<Rightarrow> limit_table \<Rightarrow> (int \<times> limit_table) option" where
  "CreateLimit fails stale l t =
     (if fails ''insert bandwidth limit'' then None
      else if list_ex (\<lambda>x. bl_mac x = bl_mac l) (limits t)
      then Some (stale, t\<lparr>limits := map (\<lambda>x. if bl_mac x = bl_mac l
             then x\<lparr>bl_down := bl_down l, bl_up := bl_up l, bl_enabled := bl_enabled l\<rparr> else x) (limits t)\<rparr>)
      else let i = limits_seq t + 1 in
        Some (i, t\<lparr>limits := limits t @ [l\<lparr>bl_id := i\<rparr>], limits_seq := i\<rparr>))"

definition UpdateLimit :: "faults \<Rightarrow> int \<Rightarrow> BandwidthLimit \<Rightarrow> limit_table \<Rightarrow> limit_table option" where
  "UpdateLimit fails i l t =
     (if fails ''update bandwidth limit'' then None
      else Some (t\<lparr>limits := map (\<lambda>x. if bl_id x = i
             then x\<lparr>bl_down := bl_down l, bl_up := bl_up l, bl_enabled := bl_enabled l\<rparr> else x) (limits t)\<rparr>))"

definition DeleteLimit :: "faults \<Rightarrow> int \<Rightarrow> limit_table \<Rightarrow> limit_table option" where
  "DeleteLimit fails i t =
     (if fails ''delete bandwidth limit'' then None
      else Some (t\<lparr>limits := filter (\<lambda>x. bl_id x \<noteq> i) (limits t)\<rparr>))"

definition getDeviceIP :: "faults \<Rightarrow> db \<Rightarrow> string \<Rightarrow> string" where
  "getDeviceIP fails d mac =
     (if fails ''query device ip'' then []
      else case find (\<lambda>dev. dev_mac dev = to_upper mac) (devices d) of None \<Rightarrow> [] | Some dev \<Rightarrow> dev_ip dev)"

definition class_id :: "nat \<Rightarrow> string" where
  "class_id i = ''1:'' @ nat_str (i + 1)"

definition kbit :: "int \<Rightarrow> string" where
  "kbit n = int_str n @ ''kbit''"

definition htb_class :: "string \<Rightarrow> nat \<Rightarrow> int \<Rightarrow> command" where
  "htb_class dev i n = (''tc'', [''class'', ''add'', ''dev'', dev, ''parent'', ''1:'', ''classid'', class_id i, ''htb'', ''rate'', kbit n, ''ceil'', kbit n])"

definition flow_filter :: "string \<Rightarrow> string \<Rightarrow> string \<Rightarrow> nat \<Rightarrow> command" where
  "flow_filter dev dir ip i = (''tc'', [''filter'', ''add'', ''dev'', dev, ''parent'', ''1:'', ''protocol'', ''ip'', ''prio'', ''1'',
     ''u32'', ''match'', ''ip'', dir, ip, ''flowid'', class_id i])"

definition htb_root :: "string \<Rightarrow> command" where
  "htb_root dev = (''tc'', [''qdisc'', ''add'', ''dev'', dev, ''root'', ''handle'', ''1:'', ''htb'', ''default'', ''999''])"

definition htb_default :: "string \<Rightarrow> command" where
  "htb_default dev = (''tc'', [''class'', ''add'', ''dev'', dev, ''parent'', ''1:'', ''classid'', ''1:999'', ''htb'', ''rate'', ''100mbit''])"

abbreviation run1 :: "shell \<Rightarrow> command \<Rightarrow> host \<Rightarrow> Result \<times> err \<times> host" where
  "run1 sh c h \<equiv> Run sh (fst c) (snd c) h"

fun download_loop :: "faults \<Rightarrow> shell \<Rightarrow> db \<Rightarrow> string \<Rightarrow> nat \<Rightarrow> BandwidthLimit list \<Rightarrow> host \<Rightarrow> host" where
  "download_loop fails sh d iface i [] h = h"
| "download_loop fails sh d iface i (l # ls) h =
     (let ip = getDeviceIP fails d (bl_mac l) in
      if ip = [] then download_loop fails sh d iface (Suc i) ls h
      else case run1 sh (htb_class iface i (bl_down l)) h of (_, e, h1) \<Rightarrow>
        if e \<noteq> None then download_loop fails sh d iface (Suc i) ls h1
        else download_loop fails sh d iface (Suc i) ls (snd (snd (run1 sh (flow_filter iface ''dst'' ip i) h1))))"

fun upload_loop :: "faults \<Rightarrow> shell \<Rightarrow> db \<Rightarrow> nat \<Rightarrow> BandwidthLimit list \<Rightarrow> host \<Rightarrow> host" where
  "upload_loop fails sh d i [] h = h"
| "upload_loop fails sh d i (l # ls) h =
     (let ip = getDeviceIP fails d (bl_mac l) in
      if bl_up l \<le> 0 \<or> ip = [] then upload_loop fails sh d (Suc i) ls h
      else upload_loop fails sh d (Suc i) ls (Run_all sh [htb_class ''ifb0'' i (bl_up l), flow_filter ''ifb0'' ''src'' ip i] h))"

definition ifb_setup :: "string \<Rightarrow> command list" where
  "ifb_setup iface =
     [(''ip'', [''link'', ''add'', ''ifb0'', ''type'', ''ifb'']),
      (''ip'', [''link'', ''set'', ''ifb0'', ''up'']),
      (''tc'', [''qdisc'', ''add'', ''dev'', iface, ''handle'', ''ffff:'', ''ingress'']),
      (''tc'', [''filter'', ''add'', ''dev'', iface, ''parent'', ''ffff:'', ''protocol'', ''ip'',
         ''u32'', ''match'', ''u32'', ''0'', ''0'', ''action'', ''mirred'', ''egress'', ''redirect'', ''dev'', ''ifb0'']),
      htb_root ''ifb0'', htb_default ''ifb0'']"

definition applyUploadLimits :: "faults \<Rightarrow> shell \<Rightarrow> db \<Rightarrow> string \<Rightarrow> BandwidthLimit list \<Rightarrow> host \<Rightarrow> host" where
  "applyUploadLimits fails sh d iface ls h = upload_loop fails sh d 0 ls (Run_all sh (ifb_setup iface) h)"

definition clear_qdiscs :: "string \<Rightarrow> command list" where
  "clear_qdiscs iface = [(''tc'', [''qdisc'', ''del'', ''dev'', iface, ''root'']), (''tc'', [''qdisc'', ''del'', ''dev'', iface, ''ingress''])]"

definition Apply_bandwidth :: "faults \<Rightarrow> shell \<Rightarrow> Config \<Rightarrow> db \<Rightarrow> limit_table \<Rightarrow> host \<Rightarrow> err \<times> host" where
  "Apply_bandwidth fails sh cfg d t h =
     (let iface = LANInterface cfg; h0 = Run_all sh (clear_qdiscs iface) h in
      case ListLimits fails t of
        None \<Rightarrow> (Some ''list limits for apply'', h0)
      | Some ls \<Rightarrow>
          let active = filter bl_enabled ls in
          if active = [] then (None, h0)
          else case run1 sh (htb_root iface) h0 of (_, e1, h1) \<Rightarrow>
            if e1 \<noteq> None then (Some ''add root qdisc'', h1)
            else case run1 sh (htb_default iface) h1 of (_, e2, h2) \<Rightarrow>
              if e2 \<noteq> None then (Some ''add default class'', h2)
              else (None, applyUploadLimits fails sh d iface active (download_loop fails sh d iface 0 active h2)))"

subsection \<open>The commands a run issues\<close>

definition live :: "host \<Rightarrow> bool" where
  "live h \<longleftrightarrow> \<not> ex_dry_run (executor h)"

text \<open>What was issued after \<open>h\<close> is a suffix of the log.\<close>

definition issues :: "command list \<Rightarrow> host \<Rightarrow> host \<Rightarrow> bool" where
  "issues cs h h' \<longleftrightarrow> live h' \<and> issued h' = issued h @ cs"

lemma issues_refl: "live h \<Longrightarrow> issues [] h h"
  by (simp add: issues_def)

lemma issues_trans: "issues cs h h1 \<Longrightarrow> issues ds h1 h2 \<Longrightarrow> issues (cs @ ds) h h2"
  by (simp add: issues_def)

lemma issues_live: "issues cs h h' \<Longrightarrow> live h'"
  by (simp add: issues_def)

lemma run1_issues: "live h \<Longrightarrow> run1 sh c h = (r, e, h') \<Longrightarrow> issues [c] h h'"
  using Run_frame [of sh "fst c" "snd c" h r e h'] by (simp add: live_def issues_def)

lemma run1_issues': "live h \<Longrightarrow> issues [c] h (snd (snd (run1 sh c h)))"
  using run1_issues [of h sh c] by (metis prod.collapse)

lemma Run_all_issues: "live h \<Longrightarrow> issues cs h (Run_all sh cs h)"
proof (induction cs arbitrary: h)
  case (Cons c cs)
  let ?h = "snd (snd (run1 sh c h))"
  have "issues [c] h ?h" by (rule run1_issues') (rule Cons.prems)
  moreover have "issues cs ?h (Run_all sh cs ?h)" by (rule Cons.IH) (rule issues_live [OF calculation])
  ultimately have "issues ([c] @ cs) h (Run_all sh cs ?h)" by (rule issues_trans)
  then show ?case by (simp add: Run_all_def)
qed (simp add: Run_all_def issues_refl)

definition shell_ok :: "shell \<Rightarrow> bool" where
  "shell_ok sh \<longleftrightarrow> (\<forall>log c. snd (snd (sh log c)) = None)"

lemma shell_okD: "shell_ok sh \<Longrightarrow> \<exists>out errs. sh log c = (out, errs, None)"
  unfolding shell_ok_def by (metis prod.collapse)

lemma run1_ok:
  assumes "shell_ok sh" "run1 sh c h = (r, e, h')"
  shows "e = None"
proof -
  obtain out errs where "sh (issued h) (fst c, snd c) = (out, errs, None)" using shell_okD [OF assms(1)] by blast
  with assms(2) show ?thesis by (simp add: Run_def Let_def split: if_splits)
qed

fun download_cmds :: "faults \<Rightarrow> db \<Rightarrow> string \<Rightarrow> nat \<Rightarrow> BandwidthLimit list \<Rightarrow> command list" where
  "download_cmds fails d iface i [] = []"
| "download_cmds fails d iface i (l # ls) =
     (let ip = getDeviceIP fails d (bl_mac l) in
      if ip = [] then [] else [htb_class iface i (bl_down l), flow_filter iface ''dst'' ip i]) @ download_cmds fails d iface (Suc i) ls"

fun upload_cmds :: "faults \<Rightarrow> db \<Rightarrow> nat \<Rightarrow> BandwidthLimit list \<Rightarrow> command list" where
  "upload_cmds fails d i [] = []"
| "upload_cmds fails d i (l # ls) =
     (let ip = getDeviceIP fails d (bl_mac l) in
      if bl_up l \<le> 0 \<or> ip = [] then [] else [htb_class ''ifb0'' i (bl_up l), flow_filter ''ifb0'' ''src'' ip i]) @ upload_cmds fails d (Suc i) ls"

lemma download_loop_issues:
  "shell_ok sh \<Longrightarrow> live h \<Longrightarrow> issues (download_cmds fails d iface i ls) h (download_loop fails sh d iface i ls h)"
proof (induction ls arbitrary: i h)
  case (Cons l ls)
  let ?ip = "getDeviceIP fails d (bl_mac l)"
  show ?case
  proof (cases "?ip = []")
    case True
    with Cons show ?thesis by (simp add: Let_def)
  next
    case False
    obtain r e h1 where r1: "run1 sh (htb_class iface i (bl_down l)) h = (r, e, h1)" by (metis prod_cases3)
    let ?h2 = "snd (snd (run1 sh (flow_filter iface ''dst'' ?ip i) h1))"
    have i1: "issues [htb_class iface i (bl_down l)] h h1" by (rule run1_issues [OF Cons.prems(2) r1])
    have i2: "issues [flow_filter iface ''dst'' ?ip i] h1 ?h2" by (rule run1_issues') (rule issues_live [OF i1])
    have "issues (download_cmds fails d iface (Suc i) ls) ?h2 (download_loop fails sh d iface (Suc i) ls ?h2)"
      by (rule Cons.IH [OF Cons.prems(1) issues_live [OF i2]])
    from issues_trans [OF i1 issues_trans [OF i2 this]] False r1 run1_ok [OF Cons.prems(1) r1] show ?thesis
      by (simp add: Let_def)
  qed
qed (simp add: issues_refl)

lemma upload_loop_issues:
  "live h \<Longrightarrow> issues (upload_cmds fails d i ls) h (upload_loop fails sh d i ls h)"
proof (induction ls arbitrary: i h)
  case (Cons l ls)
  let ?ip = "getDeviceIP fails d (bl_mac l)"
  let ?cs = "[htb_class ''ifb0'' i (bl_up l), flow_filter ''ifb0'' ''src'' ?ip i]"
  show ?case
  proof (cases "bl_up l \<le> 0 \<or> ?ip = []")
    case True
    with Cons show ?thesis by (simp add: Let_def)
  next
    case False
    have i1: "issues ?cs h (Run_all sh ?cs h)" by (rule Run_all_issues) (rule Cons.prems)
    from issues_trans [OF i1 Cons.IH [OF issues_live [OF i1]]] False show ?thesis by (simp add: Let_def)
  qed
qed (simp add: issues_refl)

definition shaping :: "faults \<Rightarrow> Config \<Rightarrow> db \<Rightarrow> BandwidthLimit list \<Rightarrow> command list" where
  "shaping fails cfg d ls =
     clear_qdiscs (LANInterface cfg) @
     (if ls = [] then []
      else [htb_root (LANInterface cfg), htb_default (LANInterface cfg)] @ download_cmds fails d (LANInterface cfg) 0 ls @
        ifb_setup (LANInterface cfg) @ upload_cmds fails d 0 ls)"

lemma Apply_bandwidth_issues:
  assumes "shell_ok sh" "live h" "ListLimits fails t = Some ls" "Apply_bandwidth fails sh cfg d t h = (e, h')"
  shows "e = None \<and> issues (shaping fails cfg d (filter bl_enabled ls)) h h'"
proof -
  let ?iface = "LANInterface cfg" and ?active = "filter bl_enabled ls"
  let ?h0 = "Run_all sh (clear_qdiscs ?iface) h"
  have i0: "issues (clear_qdiscs ?iface) h ?h0" by (rule Run_all_issues [OF assms(2)])
  obtain r1 e1 h1 where r1: "run1 sh (htb_root ?iface) ?h0 = (r1, e1, h1)" by (metis prod_cases3)
  obtain r2 e2 h2 where r2: "run1 sh (htb_default ?iface) h1 = (r2, e2, h2)" by (metis prod_cases3)
  have i1: "issues [htb_root ?iface] ?h0 h1" by (rule run1_issues [OF issues_live [OF i0] r1])
  have i2: "issues [htb_default ?iface] h1 h2" by (rule run1_issues [OF issues_live [OF i1] r2])
  have i3: "issues (download_cmds fails d ?iface 0 ?active) h2 (download_loop fails sh d ?iface 0 ?active h2)"
    by (rule download_loop_issues [OF assms(1) issues_live [OF i2]])
  have i4: "issues (ifb_setup ?iface) (download_loop fails sh d ?iface 0 ?active h2)
      (Run_all sh (ifb_setup ?iface) (download_loop fails sh d ?iface 0 ?active h2))" by (rule Run_all_issues [OF issues_live [OF i3]])
  have i5: "issues (upload_cmds fails d 0 ?active) (Run_all sh (ifb_setup ?iface) (download_loop fails sh d ?iface 0 ?active h2))
      (applyUploadLimits fails sh d ?iface ?active (download_loop fails sh d ?iface 0 ?active h2))"
    unfolding applyUploadLimits_def by (rule upload_loop_issues [OF issues_live [OF i4]])
  from issues_trans [OF i0 issues_trans [OF i1 issues_trans [OF i2 issues_trans [OF i3 issues_trans [OF i4 i5]]]]]
  show ?thesis
    using assms(3,4) i0 run1_ok [OF assms(1) r1] run1_ok [OF assms(1) r2] r1 r2
    by (auto simp: Apply_bandwidth_def shaping_def Let_def split: if_splits)
qed

lemma dec_val_nat_str: "dec_val (nat_str n) = n"
proof (induction n rule: nat_str.induct)
  case (1 n)
  show ?case
  proof (cases "n < 10")
    case True
    then show ?thesis by (subst nat_str.simps) (simp add: dec_val_def digit_def)
  next
    case False
    with 1 have "dec_val (nat_str (n div 10)) = n div 10" by simp
    moreover have "nat_str n = nat_str (n div 10) @ [digit (n mod 10)]" using False by (subst nat_str.simps) simp
    moreover have "dec_val (xs @ [digit k]) = 10 * dec_val xs + k" if "k < 10" for xs k using that by (simp add: dec_val_def digit_def)
    ultimately show ?thesis by simp
  qed
qed

lemma nat_str_inject: "nat_str m = nat_str n \<longleftrightarrow> m = n"
  by (metis dec_val_nat_str)

lemma class_id_inject [simp]: "class_id i = class_id j \<longleftrightarrow> i = j"
  by (auto simp: class_id_def nat_str_inject)

lemma class_id_default: "class_id i = ''1:999'' \<longleftrightarrow> i = 998"
proof -
  have "''1:999'' = class_id 998" by code_simp
  then show ?thesis by (metis class_id_inject)
qed

lemma download_cmds_mem:
  "j < length ls \<Longrightarrow> getDeviceIP fails d (bl_mac (ls ! j)) = ip \<Longrightarrow> ip \<noteq> [] \<Longrightarrow>
   htb_class iface (i + j) (bl_down (ls ! j)) \<in> set (download_cmds fails d iface i ls) \<and>
   flow_filter iface ''dst'' ip (i + j) \<in> set (download_cmds fails d iface i ls)"
proof (induction ls arbitrary: i j)
  case (Cons l ls)
  then show ?case using Cons.IH [of "j - 1" "Suc i"] by (cases j) (auto simp: Let_def)
qed simp

lemma upload_cmds_mem:
  "j < length ls \<Longrightarrow> getDeviceIP fails d (bl_mac (ls ! j)) = ip \<Longrightarrow> ip \<noteq> [] \<Longrightarrow> 0 < bl_up (ls ! j) \<Longrightarrow>
   htb_class ''ifb0'' (i + j) (bl_up (ls ! j)) \<in> set (upload_cmds fails d i ls) \<and>
   flow_filter ''ifb0'' ''src'' ip (i + j) \<in> set (upload_cmds fails d i ls)"
proof (induction ls arbitrary: i j)
  case (Cons l ls)
  then show ?case using Cons.IH [of "j - 1" "Suc i"] by (cases j) (auto simp: Let_def)
qed simp

text \<open>Every enabled limit of a device whose address is known gets a class of its own rate and a filter that
  puts the device's traffic there, on the LAN interface for downloads and on \<^verbatim>\<open>ifb0\<close> for uploads when
  it limits them; no other limit has its class, nor has the unlimited default.\<close>

theorem every_limit_is_shaped:
  assumes "shell_ok sh" "live h" "ListLimits fails t = Some ls" "Apply_bandwidth fails sh cfg d t h = (e, h')"
    and "j < length (filter bl_enabled ls)" "l = filter bl_enabled ls ! j"
    and "ip = getDeviceIP fails d (bl_mac l)" "ip \<noteq> []"
  shows "e = None \<and> (\<exists>cs. issued h' = issued h @ cs \<and>
     htb_class (LANInterface cfg) j (bl_down l) \<in> set cs \<and> flow_filter (LANInterface cfg) ''dst'' ip j \<in> set cs \<and>
     (0 < bl_up l \<longrightarrow> htb_class ''ifb0'' j (bl_up l) \<in> set cs \<and> flow_filter ''ifb0'' ''src'' ip j \<in> set cs)) \<and>
     (\<forall>k. class_id k = class_id j \<longrightarrow> k = j) \<and> (j \<noteq> 998 \<longrightarrow> class_id j \<noteq> ''1:999'')"
proof -
  let ?ls = "filter bl_enabled ls"
  have "e = None" "issues (shaping fails cfg d ?ls) h h'" using Apply_bandwidth_issues [OF assms(1-4)] by simp_all
  moreover have "?ls \<noteq> []" using assms(5) by auto
  ultimately show ?thesis
    using download_cmds_mem [OF assms(5), of fails d ip "LANInterface cfg" 0] upload_cmds_mem [OF assms(5), of fails d ip 0] assms(6-8)
    by (auto simp: issues_def shaping_def class_id_default)
qed

subsection \<open>Uploads are never re-shaped\<close>

definition issues_all :: "(command \<Rightarrow> bool) \<Rightarrow> host \<Rightarrow> host \<Rightarrow> bool" where
  "issues_all P h h' \<longleftrightarrow> (\<exists>cs. issues cs h h' \<and> list_all P cs)"

lemma issues_all_trans: "issues_all P h h1 \<Longrightarrow> issues_all P h1 h2 \<Longrightarrow> issues_all P h h2"
  unfolding issues_all_def by (metis issues_trans list_all_append)

lemma issues_all_refl: "live h \<Longrightarrow> issues_all P h h"
  unfolding issues_all_def by (intro exI [of _ "[]"]) (simp add: issues_refl)

lemma issues_all_live: "issues_all P h h' \<Longrightarrow> live h'"
  unfolding issues_all_def using issues_live by blast

lemma issues_all_run1: "live h \<Longrightarrow> run1 sh c h = (r, e, h') \<Longrightarrow> P c \<Longrightarrow> issues_all P h h'"
  unfolding issues_all_def by (intro exI [of _ "[c]"]) (simp add: run1_issues)

lemma issues_all_Run_all: "live h \<Longrightarrow> list_all P cs \<Longrightarrow> issues_all P h (Run_all sh cs h)"
  unfolding issues_all_def using Run_all_issues by blast

definition only_adds :: "command \<Rightarrow> bool" where
  "only_adds c \<longleftrightarrow> (''ifb0'' \<in> set (snd c) \<longrightarrow> snd c ! 1 \<in> {''add'', ''set''})"

lemma only_adds_cmds [simp]:
  "only_adds (htb_class dev i n)" "only_adds (flow_filter dev dir ip i)" "only_adds (htb_root dev)" "only_adds (htb_default dev)"
  "list_all only_adds (ifb_setup iface)"
  by (simp_all add: only_adds_def htb_class_def flow_filter_def htb_root_def htb_default_def ifb_setup_def)

lemma download_only_adds: "live h \<Longrightarrow> issues_all only_adds h (download_loop fails sh d iface i ls h)"
proof (induction ls arbitrary: i h)
  case (Cons l ls)
  let ?ip = "getDeviceIP fails d (bl_mac l)"
  obtain r e h1 where r1: "run1 sh (htb_class iface i (bl_down l)) h = (r, e, h1)" by (metis prod_cases3)
  obtain r' e' h2 where r2: "run1 sh (flow_filter iface ''dst'' ?ip i) h1 = (r', e', h2)" by (metis prod_cases3)
  have i1: "issues_all only_adds h h1" by (rule issues_all_run1 [OF Cons.prems r1]) simp
  have i2: "issues_all only_adds h1 h2" by (rule issues_all_run1 [OF issues_all_live [OF i1] r2]) simp
  note IH0 = Cons.IH [OF Cons.prems] and IH1 = Cons.IH [OF issues_all_live [OF i1]] and IH2 = Cons.IH [OF issues_all_live [OF i2]]
  show ?case
    using IH0 issues_all_trans [OF i1 IH1] issues_all_trans [OF i1 issues_all_trans [OF i2 IH2]] r1 r2 by (simp add: Let_def)
qed (simp add: issues_all_refl)

lemma upload_only_adds: "live h \<Longrightarrow> issues_all only_adds h (upload_loop fails sh d i ls h)"
proof (induction ls arbitrary: i h)
  case (Cons l ls)
  let ?cs = "[htb_class ''ifb0'' i (bl_up l), flow_filter ''ifb0'' ''src'' (getDeviceIP fails d (bl_mac l)) i]"
  have i1: "issues_all only_adds h (Run_all sh ?cs h)" by (rule issues_all_Run_all [OF Cons.prems]) simp
  show ?case using Cons.IH [OF Cons.prems] issues_all_trans [OF i1 Cons.IH [OF issues_all_live [OF i1]]] by (simp add: Let_def)
qed (simp add: issues_all_refl)

text \<open>Whatever the tables hold and whatever fails, no command of \<^verbatim>\<open>Apply\<close> deletes, changes or replaces
  anything on \<^verbatim>\<open>ifb0\<close>: every command that names it adds.  The kernel refuses to add a class that exists
  and the refusal is ignored, so an upload limit once set keeps its rate until the device restarts.\<close>

theorem upload_shaping_only_adds:
  assumes "live h" "LANInterface cfg \<noteq> ''ifb0''"
  shows "\<exists>cs. issued (snd (Apply_bandwidth fails sh cfg d t h)) = issued h @ cs \<and>
    (\<forall>c\<in>set cs. ''ifb0'' \<in> set (snd c) \<longrightarrow> snd c ! 1 \<in> {''add'', ''set''})"
proof -
  let ?iface = "LANInterface cfg"
  let ?h0 = "Run_all sh (clear_qdiscs ?iface) h"
  have i0: "issues_all only_adds h ?h0"
    by (rule issues_all_Run_all [OF assms(1)]) (use assms(2) in \<open>simp add: clear_qdiscs_def only_adds_def\<close>)
  obtain r1 e1 h1 where r1: "run1 sh (htb_root ?iface) ?h0 = (r1, e1, h1)" by (metis prod_cases3)
  obtain r2 e2 h2 where r2: "run1 sh (htb_default ?iface) h1 = (r2, e2, h2)" by (metis prod_cases3)
  have i1: "issues_all only_adds h h1" by (rule issues_all_trans [OF i0 issues_all_run1 [OF issues_all_live [OF i0] r1]]) simp
  have i2: "issues_all only_adds h h2" by (rule issues_all_trans [OF i1 issues_all_run1 [OF issues_all_live [OF i1] r2]]) simp
  have "issues_all only_adds h (applyUploadLimits fails sh d ?iface ls (download_loop fails sh d ?iface 0 ls h2))" for ls
  proof -
    have i3: "issues_all only_adds h (download_loop fails sh d ?iface 0 ls h2)"
      by (rule issues_all_trans [OF i2 download_only_adds [OF issues_all_live [OF i2]]])
    have i4: "issues_all only_adds h (Run_all sh (ifb_setup ?iface) (download_loop fails sh d ?iface 0 ls h2))"
      by (rule issues_all_trans [OF i3 issues_all_Run_all [OF issues_all_live [OF i3]]]) simp
    show ?thesis unfolding applyUploadLimits_def by (rule issues_all_trans [OF i4 upload_only_adds [OF issues_all_live [OF i4]]])
  qed
  then have "issues_all only_adds h (snd (Apply_bandwidth fails sh cfg d t h))"
    using i0 i1 i2 r1 r2 by (simp add: Apply_bandwidth_def Let_def split: option.split)
  then show ?thesis by (auto simp: issues_all_def issues_def list_all_iff only_adds_def)
qed

theorem upload_shaping_only_adds_witness:
  "\<exists>cs. issued (snd (Apply_bandwidth no_faults (\<lambda>_ _. ([], [], None)) Defaults empty_db
        \<lparr>limits = [\<lparr>bl_id = 1, bl_mac = ''AA'', bl_down = 5, bl_up = 5, bl_enabled = True\<rparr>], limits_seq = 1\<rparr> (new_host False))) = issued (new_host False) @ cs \<and>
    (\<forall>c\<in>set cs. ''ifb0'' \<in> set (snd c) \<longrightarrow> snd c ! 1 \<in> {''add'', ''set''})"
  by (rule upload_shaping_only_adds) (simp_all add: live_def new_host_def New_executor_def Defaults_def)

subsection \<open>The table\<close>

definition limits_ok :: "limit_table \<Rightarrow> bool" where
  "limits_ok t \<longleftrightarrow> distinct (map bl_mac (limits t)) \<and> distinct (map bl_id (limits t)) \<and> (\<forall>l\<in>set (limits t). bl_id l \<le> limits_seq t)"

lemma limits_ok_map:
  assumes "limits_ok t" "\<And>l. bl_mac (f l) = bl_mac l \<and> bl_id (f l) = bl_id l"
  shows "limits_ok (t\<lparr>limits := map f (limits t)\<rparr>)"
  using assms by (simp add: limits_ok_def o_def)

inductive limit_op :: "limit_table \<Rightarrow> limit_table \<Rightarrow> bool" where
  op_create: "CreateLimit fails stale l t = Some (i, t') \<Longrightarrow> limit_op t t'"
| op_update: "UpdateLimit fails i l t = Some t' \<Longrightarrow> limit_op t t'"
| op_delete: "DeleteLimit fails i t = Some t' \<Longrightarrow> limit_op t t'"

text \<open>A device has at most one limit, however the limits were edited.\<close>

theorem one_limit_per_device: "limit_op\<^sup>*\<^sup>* t t' \<Longrightarrow> limits_ok t \<Longrightarrow> limits_ok t'"
proof (induction rule: rtranclp_induct)
  case (step t1 t2)
  then have ok: "limits_ok t1" by simp
  from step.hyps(2) show ?case
  proof cases
    case (op_create fails stale l i)
    show ?thesis
    proof (cases "list_ex (\<lambda>x. bl_mac x = bl_mac l) (limits t1)")
      case True
      with op_create ok show ?thesis by (auto simp: CreateLimit_def split: if_splits intro!: limits_ok_map)
    next
      case False
      with op_create ok show ?thesis by (fastforce simp: CreateLimit_def Let_def limits_ok_def list_ex_iff split: if_splits)
    qed
  next
    case (op_update fails i l)
    with ok show ?thesis by (auto simp: UpdateLimit_def split: if_splits intro!: limits_ok_map)
  next
    case (op_delete fails i)
    with ok show ?thesis by (auto simp: DeleteLimit_def limits_ok_def distinct_map_filter split: if_splits)
  qed
qed

end
