(* ===== verification/Remote.thy ===== *)
theory Remote
  imports Go_Prelude
begin

text \<open>
  \<^verbatim>\<open>internal/services/remote.go\<close>: the wrapper around the \<^verbatim>\<open>tailscale\<close> command.  The commands are run directly,
  so the state is the log of the commands run; the machine answers a command from that log, with its
  standard output, its combined output and whether it succeeded.  The decoders of Tailscale's two JSON
  documents are arguments; a map is the list of its entries in the order in which Go ranges over it.
\<close>

record RemoteStatus =
  rs_installed :: bool
  rs_daemon :: bool
  rs_authenticated :: bool
  rs_backend :: string
  rs_hostname :: string
  rs_ipv4 :: string
  rs_funnel :: bool
  rs_funnel_url :: string

definition no_status :: RemoteStatus where
  "no_status = \<lparr>rs_installed = False, rs_daemon = False, rs_authenticated = False, rs_backend = [], rs_hostname = [], rs_ipv4 = [],
     rs_funnel = False, rs_funnel_url = []\<rparr>"

record tail_status =
  ts_backend :: string
  ts_dns_name :: string
  ts_ips :: "string list"

record serve_status =
  ss_web :: "(string \<times> string list) list"
  ss_allow_funnel :: "(string \<times> bool) list"

type_synonym cli = "string \<times> string list"
type_synonym machine = "cli list \<Rightarrow> cli \<Rightarrow> string \<times> string \<times> bool"

definition exec_cli :: "machine \<Rightarrow> cli \<Rightarrow> cli list \<Rightarrow> (string \<times> string \<times> bool) \<times> cli list" where
  "exec_cli m c log = (m log c, log @ [c])"

definition bleFunnelPath :: string where
  "bleFunnelPath = ''/api/ble''"

definition adminServePort :: string where
  "adminServePort = ''10000''"

definition upstream :: string where
  "upstream = ''https+insecure://localhost:8443''"

definition host_of :: "string \<Rightarrow> string" where
  "host_of hp = (let r = rev hp in
     if CHR '':'' \<in> set (butlast r) then rev (tl (dropWhile (\<lambda>c. c \<noteq> CHR '':'') r)) else hp)"

fun parse_web :: "(string \<times> bool) list \<Rightarrow> (string \<times> string list) list \<Rightarrow> bool \<times> string" where
  "parse_web allow [] = (False, [])"
| "parse_web allow ((hp, hs) # web) =
     (if bleFunnelPath \<notin> set hs \<or> map_of allow hp \<noteq> Some True then parse_web allow web
      else (True, ''https://'' @ host_of hp @ bleFunnelPath))"

definition parseServeStatus :: "(string \<Rightarrow> serve_status option) \<Rightarrow> string \<Rightarrow> bool \<times> string" where
  "parseServeStatus dec js = (case dec js of None \<Rightarrow> (False, []) | Some st \<Rightarrow> parse_web (ss_allow_funnel st) (ss_web st))"

definition Status :: "(string \<Rightarrow> tail_status option) \<Rightarrow> (string \<Rightarrow> serve_status option) \<Rightarrow> machine \<Rightarrow> bool \<Rightarrow> cli list \<Rightarrow>
    RemoteStatus \<times> bool \<times> cli list" where
  "Status dec_status dec_serve m in_path log =
     (if \<not> in_path then (no_status, True, log)
      else let out = no_status\<lparr>rs_installed := True\<rparr> in
        case exec_cli m (''systemctl'', [''is-active'', ''tailscaled'']) log of ((_, _, active), log1) \<Rightarrow>
          if \<not> active then (out, True, log1)
          else let out = out\<lparr>rs_daemon := True\<rparr> in
            case exec_cli m (''tailscale'', [''status'', ''--json'']) log1 of ((js, _, ok), log2) \<Rightarrow>
              if \<not> ok then (out, True, log2)
              else (case dec_status js of
                 None \<Rightarrow> (out, False, log2)
               | Some raw \<Rightarrow>
                   let out = out\<lparr>rs_backend := ts_backend raw, rs_authenticated := (ts_backend raw = ''Running''),
                         rs_hostname := trim_suffix (ts_dns_name raw) ''.'',
                         rs_ipv4 := (case ts_ips raw of [] \<Rightarrow> [] | ip # _ \<Rightarrow> ip)\<rparr> in
                   if \<not> rs_authenticated out then (out, True, log2)
                   else case exec_cli m (''tailscale'', [''serve'', ''status'', ''--json'']) log2 of ((js', _, ok'), log3) \<Rightarrow>
                     (if ok' then case parseServeStatus dec_serve js' of (fn, u) \<Rightarrow> out\<lparr>rs_funnel := fn, rs_funnel_url := u\<rparr> else out, True, log3)))"

datatype remote_error = CliFailed string string | KeyRequired | KeyMalformed string

definition run_cli :: "machine \<Rightarrow> string \<Rightarrow> cli \<Rightarrow> cli list \<Rightarrow> remote_error option \<times> cli list" where
  "run_cli m label c log = (case exec_cli m c log of ((_, out, ok), log') \<Rightarrow> (if ok then None else Some (CliFailed label out), log'))"

definition EnableBLEFunnel :: "machine \<Rightarrow> cli list \<Rightarrow> remote_error option \<times> cli list" where
  "EnableBLEFunnel m log = run_cli m ''enable BLE funnel'' (''tailscale'', [''funnel'', ''--bg'', ''--set-path='' @ bleFunnelPath, upstream]) log"

definition DisableBLEFunnel :: "machine \<Rightarrow> cli list \<Rightarrow> remote_error option \<times> cli list" where
  "DisableBLEFunnel m log = run_cli m ''disable BLE funnel'' (''tailscale'', [''funnel'', ''--set-path='' @ bleFunnelPath, ''off'']) log"

definition ensureAdminServeLocked :: "machine \<Rightarrow> cli list \<Rightarrow> remote_error option \<times> cli list" where
  "ensureAdminServeLocked m log = run_cli m ''enable admin serve'' (''tailscale'', [''serve'', ''--bg'', ''--https='' @ adminServePort, upstream]) log"

definition EnsureAdminServe :: "machine \<Rightarrow> cli list \<Rightarrow> remote_error option \<times> cli list" where
  "EnsureAdminServe m log = ensureAdminServeLocked m log"

definition Install :: "machine \<Rightarrow> cli list \<Rightarrow> remote_error option \<times> cli list" where
  "Install m log =
     (case run_cli m ''install failed'' (''bash'', [''-c'', ''curl -fsSL https://tailscale.com/install.sh | sh'']) log of
        (Some e, log1) \<Rightarrow> (Some e, log1)
      | (None, log1) \<Rightarrow> (None, snd (exec_cli m (''systemctl'', [''enable'', ''--now'', ''tailscaled'']) log1)))"

subsection \<open>Keeping the auth key out of messages\<close>

definition isSpace :: "char \<Rightarrow> bool" where
  "isSpace b \<longleftrightarrow> b \<in> {CHR '' '', CHR 0x0A, CHR 0x0D, CHR 0x09}"

definition key_prefix :: string where
  "key_prefix = ''tskey-''"

lemma length_key_prefix: "length key_prefix = 6"
  by (simp add: key_prefix_def)

definition redactKey :: "string \<Rightarrow> string" where
  "redactKey k = (if length k \<le> 10 then ''***'' else take 6 k @ ''***'' @ drop (length k - 4) k)"

text \<open>\<^verbatim>\<open>strings.Index\<close>.\<close>

fun Index :: "string \<Rightarrow> string \<Rightarrow> nat option" where
  "Index [] p = (if p = [] then Some 0 else None)"
| "Index (c # s) p = (if has_prefix (c # s) p then Some 0 else map_option Suc (Index s p))"

lemma Index_bound: "Index s p = Some i \<Longrightarrow> i + length p \<le> length s"
proof (induction s arbitrary: i)
  case (Cons c s)
  then show ?case by (auto simp: has_prefix_def split: if_splits)
qed (auto split: if_splits)

function redactOutput :: "string \<Rightarrow> string" where
  "redactOutput s =
     (case Index s key_prefix of
        None \<Rightarrow> s
      | Some i \<Rightarrow> take i s @ ''tskey-***'' @ redactOutput (dropWhile (\<lambda>c. \<not> isSpace c) (drop (i + length key_prefix) s)))"
  by pat_completeness auto
termination
proof (relation "measure length")
  fix s i assume "Index s key_prefix = Some i"
  then have "i + 6 \<le> length s" using Index_bound [of s key_prefix i] by (simp add: key_prefix_def)
  moreover have "length (dropWhile (\<lambda>c. \<not> isSpace c) (drop (i + length key_prefix) s)) \<le> length (drop (i + length key_prefix) s)"
    by (rule length_dropWhile_le)
  ultimately show "(dropWhile (\<lambda>c. \<not> isSpace c) (drop (i + length key_prefix) s), s) \<in> measure length"
    by (simp add: key_prefix_def)
qed simp

declare redactOutput.simps [simp del]

definition Up :: "machine \<Rightarrow> string \<Rightarrow> cli list \<Rightarrow> remote_error option \<times> cli list" where
  "Up m authKey log =
     (let authKey = trim_space authKey in
      if authKey = [] then (Some KeyRequired, log)
      else if \<not> has_prefix authKey key_prefix then (Some (KeyMalformed (redactKey authKey)), log)
      else case exec_cli m (''tailscale'', [''up'', ''--authkey'', authKey, ''--reset'', ''--accept-routes=false'', ''--accept-dns=false'']) log of
        ((_, out, ok), log1) \<Rightarrow>
          if \<not> ok then (Some (CliFailed ''tailscale up'' (redactOutput out)), log1)
          else (None, snd (ensureAdminServeLocked m log1)))"

definition Logout_remote :: "machine \<Rightarrow> cli list \<Rightarrow> remote_error option \<times> cli list" where
  "Logout_remote m log = run_cli m ''tailscale logout'' (''tailscale'', [''logout'']) log"

text \<open>The scan from the left that the loop amounts to.\<close>

function scrub :: "string \<Rightarrow> string" where
  "scrub [] = []"
| "scrub (c # s) =
     (if has_prefix (c # s) key_prefix then ''tskey-***'' @ scrub (dropWhile (\<lambda>c. \<not> isSpace c) (drop 5 s)) else c # scrub s)"
  by pat_completeness auto
termination
proof (relation "measure length")
  fix c s
  have "length (dropWhile (\<lambda>c. \<not> isSpace c) (drop 5 s)) \<le> length (drop 5 s)" by (rule length_dropWhile_le)
  then show "(dropWhile (\<lambda>c. \<not> isSpace c) (drop 5 s), c # s) \<in> measure length" by simp
qed simp_all

lemma redactOutput_Cons:
  "redactOutput (c # s) = (if has_prefix (c # s) key_prefix then ''tskey-***'' @ redactOutput (dropWhile (\<lambda>c. \<not> isSpace c) (drop 5 s)) else c # redactOutput s)"
proof (cases "has_prefix (c # s) key_prefix")
  case True
  then show ?thesis by (subst redactOutput.simps) (simp add: length_key_prefix eval_nat_numeral)
next
  case False
  then show ?thesis
    by (subst redactOutput.simps, subst (2) redactOutput.simps) (simp split: option.split)
qed

lemma redactOutput_scrub: "redactOutput s = scrub s"
proof (induction s rule: scrub.induct)
  case 1
  show ?case by (subst redactOutput.simps) (simp add: key_prefix_def)
next
  case (2 c s)
  then show ?case by (simp add: redactOutput_Cons)
qed

lemma prefix_borderless:
  assumes "has_prefix (a @ key_prefix @ r) key_prefix" "a \<noteq> []"
  shows "has_prefix a key_prefix"
proof (rule ccontr)
  assume "\<not> has_prefix a key_prefix"
  with assms(1) have "length a < 6" by (cases "length a < 6") (auto simp: has_prefix_def length_key_prefix)
  moreover have "take 6 (a @ key_prefix @ r) = key_prefix" using assms(1) by (simp add: has_prefix_def length_key_prefix)
  ultimately show False using assms(2)
    by (cases a; cases "tl a"; cases "tl (tl a)"; cases "tl (tl (tl a))"; cases "tl (tl (tl (tl a)))") (auto simp: key_prefix_def)
qed

lemma dropWhile_key: "\<forall>c\<in>set k. \<not> isSpace c \<Longrightarrow> dropWhile (\<lambda>c. \<not> isSpace c) (key_prefix @ k @ b) = dropWhile (\<lambda>c. \<not> isSpace c) b"
  by (auto simp: key_prefix_def isSpace_def dropWhile_append2)

lemma scrub_key:
  "\<forall>c\<in>set k. \<not> isSpace c \<Longrightarrow> scrub (key_prefix @ k @ b) = ''tskey-***'' @ scrub (dropWhile (\<lambda>c. \<not> isSpace c) b)"
proof -
  assume k: "\<forall>c\<in>set k. \<not> isSpace c"
  then have "dropWhile (\<lambda>c. \<not> isSpace c) (k @ b) = dropWhile (\<lambda>c. \<not> isSpace c) b" by (simp add: dropWhile_append2)
  then show ?thesis by (simp add: key_prefix_def has_prefix_def)
qed

lemma scrub_independent:
  assumes "\<forall>c\<in>set k1. \<not> isSpace c" "\<forall>c\<in>set k2. \<not> isSpace c"
  shows "scrub (a @ key_prefix @ k1 @ b) = scrub (a @ key_prefix @ k2 @ b)"
proof (induction a rule: length_induct)
  case (1 a)
  show ?case
  proof (cases a)
    case Nil
    with assms show ?thesis by (simp add: scrub_key)
  next
    case (Cons c s)
    have pre: "has_prefix (a @ key_prefix @ k @ b) key_prefix \<longleftrightarrow> has_prefix a key_prefix" for k
    proof
      assume "has_prefix (a @ key_prefix @ k @ b) key_prefix"
      then show "has_prefix a key_prefix" by (rule prefix_borderless) (simp add: Cons)
    qed (simp add: has_prefix_def)
    show ?thesis
    proof (cases "has_prefix a key_prefix")
      case False
      with pre Cons 1 show ?thesis by simp
    next
      case True
      then have len: "5 \<le> length s" using Cons by (simp add: has_prefix_def key_prefix_def)
      let ?r = "dropWhile (\<lambda>c. \<not> isSpace c) (drop 5 s)"
      have "scrub (dropWhile (\<lambda>c. \<not> isSpace c) (drop 5 s @ key_prefix @ k1 @ b)) =
            scrub (dropWhile (\<lambda>c. \<not> isSpace c) (drop 5 s @ key_prefix @ k2 @ b))"
      proof (cases "\<exists>c\<in>set (drop 5 s). isSpace c")
        case True
        then have "dropWhile (\<lambda>c. \<not> isSpace c) (drop 5 s @ w) = ?r @ w" for w by (auto simp: dropWhile_append1)
        moreover have "length ?r < length a" using Cons length_dropWhile_le [of "\<lambda>c. \<not> isSpace c" "drop 5 s"] by simp
        ultimately show ?thesis using 1 by simp
      next
        case False
        then show ?thesis using assms by (simp add: dropWhile_append2 dropWhile_key)
      qed
      with pre True Cons len show ?thesis by simp
    qed
  qed
qed

text \<open>What is returned to the caller of a failed \<^verbatim>\<open>tailscale up\<close> does not depend on an auth key that the
  command echoed: wherever the key stands in the output, any other key there gives the same text.\<close>

theorem redaction_hides_auth_key:
  assumes "\<forall>c\<in>set k1. \<not> isSpace c" "\<forall>c\<in>set k2. \<not> isSpace c"
  shows "redactOutput (a @ key_prefix @ k1 @ b) = redactOutput (a @ key_prefix @ k2 @ b)"
  unfolding redactOutput_scrub by (rule scrub_independent) (use assms in auto)

theorem redaction_hides_auth_key_witness:
  "redactOutput (''bad key '' @ key_prefix @ ''auth-123'' @ '' rejected'') = redactOutput (''bad key '' @ key_prefix @ ''x'' @ '' rejected'')"
  by (rule redaction_hides_auth_key) (simp_all add: isSpace_def)

subsection \<open>What is exposed\<close>

inductive remote_op :: "machine \<Rightarrow> cli list \<Rightarrow> cli list \<Rightarrow> bool" for m where
  op_status: "Status ds dv m p log = (st, ok, log') \<Longrightarrow> remote_op m log log'"
| op_enable: "EnableBLEFunnel m log = (e, log') \<Longrightarrow> remote_op m log log'"
| op_disable: "DisableBLEFunnel m log = (e, log') \<Longrightarrow> remote_op m log log'"
| op_serve: "EnsureAdminServe m log = (e, log') \<Longrightarrow> remote_op m log log'"
| op_install: "Install m log = (e, log') \<Longrightarrow> remote_op m log log'"
| op_up: "Up m key log = (e, log') \<Longrightarrow> remote_op m log log'"
| op_logout: "Logout_remote m log = (e, log') \<Longrightarrow> remote_op m log log'"

definition scoped :: "cli \<Rightarrow> bool" where
  "scoped c \<longleftrightarrow>
     (fst c = ''tailscale'' \<and> hd (snd c) = ''funnel'' \<longrightarrow> ''--set-path=/api/ble'' \<in> set (snd c)) \<and>
     (fst c = ''tailscale'' \<and> hd (snd c) = ''serve'' \<longrightarrow> ''--https=10000'' \<in> set (snd c) \<or> snd c = [''serve'', ''status'', ''--json'']) \<and>
     (fst c = ''tailscale'' \<and> hd (snd c) = ''up'' \<longrightarrow> has_prefix (snd c ! 2) key_prefix \<and> ''--accept-routes=false'' \<in> set (snd c))"

lemma remote_op_scoped: "remote_op m log log' \<Longrightarrow> \<exists>cs. log' = log @ cs \<and> list_all scoped cs"
  by (erule remote_op.cases)
    (auto simp: Status_def EnableBLEFunnel_def DisableBLEFunnel_def EnsureAdminServe_def ensureAdminServeLocked_def Install_def
      Up_def Logout_remote_def run_cli_def exec_cli_def scoped_def bleFunnelPath_def adminServePort_def upstream_def Let_def
      split: if_splits prod.splits option.splits)

text \<open>C32: what the daemon exposes.  Over every sequence of operations and whatever the commands answer, the
  only path ever published through Funnel is the bearer-guarded \<^verbatim>\<open>/api/ble\<close>, the administration pages are
  only served inside the tailnet and on their own port, never 443, and the tailnet is only joined with
  a key of the right form and without accepting its routes.\<close>

theorem only_ble_is_funnelled:
  assumes "(remote_op m)\<^sup>*\<^sup>* log log'"
  shows "\<exists>cs. log' = log @ cs \<and> (\<forall>c\<in>set cs.
    (fst c = ''tailscale'' \<and> hd (snd c) = ''funnel'' \<longrightarrow> ''--set-path=/api/ble'' \<in> set (snd c)) \<and>
    (fst c = ''tailscale'' \<and> hd (snd c) = ''serve'' \<longrightarrow> ''--https=10000'' \<in> set (snd c) \<or> snd c = [''serve'', ''status'', ''--json'']) \<and>
    (fst c = ''tailscale'' \<and> hd (snd c) = ''up'' \<longrightarrow> has_prefix (snd c ! 2) key_prefix \<and> ''--accept-routes=false'' \<in> set (snd c)))"
proof -
  have "\<exists>cs. log' = log @ cs \<and> list_all scoped cs"
    using assms
  proof (induction rule: rtranclp_induct)
    case (step l1 l2)
    then obtain cs ds where "l1 = log @ cs" "list_all scoped cs" "l2 = l1 @ ds" "list_all scoped ds"
      using remote_op_scoped by blast
    then show ?case by (intro exI [of _ "cs @ ds"]) simp
  qed simp
  then show ?thesis by (auto simp: list_all_iff scoped_def)
qed

theorem only_ble_is_funnelled_witness:
  "\<exists>cs. [(''tailscale'', [''funnel'', ''--bg'', ''--set-path=/api/ble'', upstream])] = [] @ cs \<and> (\<forall>c\<in>set cs.
    (fst c = ''tailscale'' \<and> hd (snd c) = ''funnel'' \<longrightarrow> ''--set-path=/api/ble'' \<in> set (snd c)) \<and>
    (fst c = ''tailscale'' \<and> hd (snd c) = ''serve'' \<longrightarrow> ''--https=10000'' \<in> set (snd c) \<or> snd c = [''serve'', ''status'', ''--json'']) \<and>
    (fst c = ''tailscale'' \<and> hd (snd c) = ''up'' \<longrightarrow> has_prefix (snd c ! 2) key_prefix \<and> ''--accept-routes=false'' \<in> set (snd c)))"
proof (rule only_ble_is_funnelled)
  have "EnableBLEFunnel (\<lambda>_ _. ([], [], True)) [] = (None, [(''tailscale'', [''funnel'', ''--bg'', ''--set-path=/api/ble'', upstream])])"
    by (simp add: EnableBLEFunnel_def run_cli_def exec_cli_def bleFunnelPath_def)
  then show "(remote_op (\<lambda>_ _. ([], [], True)))\<^sup>*\<^sup>* [] [(''tailscale'', [''funnel'', ''--bg'', ''--set-path=/api/ble'', upstream])]"
    by (blast intro: op_enable r_into_rtranclp)
qed

end
