(* ===== verification/Spoof.thy ===== *)
theory Spoof
  imports Console Go_URL Remote Runtime Protected
begin

text \<open>
  \<^verbatim>\<open>internal/services/spoof.go\<close>: the responder on port 80 that answers the car's connectivity check, and
  the page on the same port where a device of the LAN gets an enrolment link.  The text of the minute
  in a token's label and the embedded web files are arguments.  The listeners and the self-signed
  certificate are I/O.
\<close>

definition spoofDnsmasqPath :: string where
  "spoofDnsmasqPath = ''/etc/dnsmasq.d/netfilter-spoof.conf''"

definition spoofConnManHeaders :: "(string \<times> string) list" where
  "spoofConnManHeaders = [(''X-ConnMan-Status'', ''online''), (''X-Cache'', ''Hit from cloudfront'')]"

definition enrolTokenTTL :: time where
  "enrolTokenTTL = 600 * 1000000000"

record SpoofService =
  sp_cfg :: Config
  sp_web :: "(string \<rightharpoonup> string) option"
  sp_tokens :: bool
  sp_remote :: bool

definition NewSpoofService :: "Config \<Rightarrow> SpoofService" where
  "NewSpoofService cfg = \<lparr>sp_cfg = cfg, sp_web = None, sp_tokens = False, sp_remote = False\<rparr>"

definition SetEnrolDeps :: "(string \<rightharpoonup> string) option \<Rightarrow> bool \<Rightarrow> bool \<Rightarrow> SpoofService \<Rightarrow> SpoofService" where
  "SetEnrolDeps web toks remote s = s\<lparr>sp_web := web, sp_tokens := toks, sp_remote := remote\<rparr>"

definition enrolEnabled :: "SpoofService \<Rightarrow> bool" where
  "enrolEnabled s \<longleftrightarrow> EnrolHost (sp_cfg s) \<noteq> [] \<and> sp_web s \<noteq> None \<and> sp_tokens s \<and> sp_remote s"

definition EnsureNoDnsmasqHijack :: "faults \<Rightarrow> shell \<Rightarrow> host \<Rightarrow> err \<times> host" where
  "EnsureNoDnsmasqHijack fails sh h =
     (if fails ''stat spoof override'' \<or> files h spoofDnsmasqPath = None then (None, h)
      else if fails ''remove spoof override'' then (Some ''remove stale spoof override'', h)
      else case Run sh ''systemctl'' [''restart'', ''dnsmasq''] (remove_file spoofDnsmasqPath h) of (_, e, h') \<Rightarrow>
        (if e = None then None else Some ''restart dnsmasq after removing spoof override'', h'))"

text \<open>\<^verbatim>\<open>net.SplitHostPort\<close>, the host only.\<close>

definition SplitHostPort :: "string \<Rightarrow> string option" where
  "SplitHostPort hp =
     (case last_index (CHR '':'') hp of
        None \<Rightarrow> None
      | Some i \<Rightarrow>
          if hp ! 0 = CHR ''['' then
            (case map_option fst (find (\<lambda>p. snd p = CHR '']'') (enumerate 0 hp)) of
               None \<Rightarrow> None
             | Some e \<Rightarrow>
                 if e + 1 \<noteq> i \<or> CHR ''['' \<in> set (drop 1 hp) \<or> CHR '']'' \<in> set (drop (e + 1) hp) then None
                 else Some (drop 1 (take e hp)))
          else let host = take i hp in
            if CHR '':'' \<in> set host \<or> CHR ''['' \<in> set hp \<or> CHR '']'' \<in> set hp then None else Some host)"

definition hostWithoutPort :: "string \<Rightarrow> string" where
  "hostWithoutPort h = (case SplitHostPort h of Some x \<Rightarrow> x | None \<Rightarrow> h)"

record host_request = request +
  rq_host :: string

definition serveEnrolAsset :: "SpoofService \<Rightarrow> string \<Rightarrow> string \<Rightarrow> response" where
  "serveEnrolAsset s path ctype =
     (case sp_web s of
        Some web \<Rightarrow> (case web path of
          Some data \<Rightarrow> \<lparr>rp_status = 200, rp_headers = [(''Content-Type'', ctype), (''Cache-Control'', ''no-store'')], rp_cookies = [], rp_body = Text data\<rparr>
        | None \<Rightarrow> \<lparr>rp_status = 404, rp_headers = [(''Content-Type'', ''text/plain; charset=utf-8'')], rp_cookies = [], rp_body = Text (''not found'' @ [CHR 10])\<rparr>)
      | None \<Rightarrow> recovered)"

text \<open>What the enrolment calls of the outside: the clock, the seed, the remote status.\<close>

record enrol_env =
  ee_now :: time
  ee_minute :: string
  ee_seed :: bytes
  ee_faults :: faults
  ee_status :: "RemoteStatus + unit"

datatype enrol_error = StatusUnavailable | NotReachable | IssueFailed token_error

definition relay_base :: "RemoteStatus \<Rightarrow> string option" where
  "relay_base st =
     (if rs_funnel_url st \<noteq> [] then Some (rs_funnel_url st)
      else if rs_hostname st = [] then None
      else Some (''https://'' @ rs_hostname st @ ''/api/ble''))"

definition buildEnrolURL :: "enrol_env \<Rightarrow> token_table \<Rightarrow> (enrol_error + string \<times> int) \<times> token_table" where
  "buildEnrolURL e t =
     (case ee_status e of
        Inr _ \<Rightarrow> (Inl StatusUnavailable, t)
      | Inl st \<Rightarrow> (case relay_base st of
          None \<Rightarrow> (Inl NotReachable, t)
        | Some base \<Rightarrow>
            (case IssueEphemeral (ee_faults e) (ee_seed e) (ee_now e) (''air.gapp '' @ ee_minute e) enrolTokenTTL t of
               (Inl x, t') \<Rightarrow> (Inl (IssueFailed x), t')
             | (Inr iss, t') \<Rightarrow>
                 (Inr (''airgapp://enrol?'' @ Encode (query_set ''token'' (ti_plain iss) (query_set ''api'' base [])),
                       enrolTokenTTL div 1000000000), t'))))"

definition no_store :: "int \<Rightarrow> json \<Rightarrow> response" where
  "no_store status j = \<lparr>rp_status = status, rp_headers = [(''Content-Type'', ''application/json''), (''Cache-Control'', ''no-store'')],
     rp_cookies = [], rp_body = JsonBody j\<rparr>"

definition handleEnrolIssue :: "(enrol_error \<Rightarrow> string) \<Rightarrow> enrol_env \<Rightarrow> token_table \<Rightarrow> response \<times> token_table" where
  "handleEnrolIssue text e t =
     (case buildEnrolURL e t of
        (Inl x, t') \<Rightarrow> (no_store 503 (JObj [(''error'', JStr (text x))]), t')
      | (Inr (url, ttl), t') \<Rightarrow> (no_store 200 (JObj [(''enrol_url'', JStr url), (''expires_in_sec'', JInt ttl)]), t'))"

definition not_found :: response where
  "not_found = \<lparr>rp_status = 404, rp_headers = [(''Content-Type'', ''text/plain; charset=utf-8'')], rp_cookies = [], rp_body = Text (''404 page not found'' @ [CHR 10])\<rparr>"

definition handleEnrol :: "(enrol_error \<Rightarrow> string) \<Rightarrow> SpoofService \<Rightarrow> enrol_env \<Rightarrow> host_request \<Rightarrow> token_table \<Rightarrow> response \<times> token_table" where
  "handleEnrol text s e r t =
     (if rq_method r = ''GET'' \<and> (rq_path r = ''/'' \<or> rq_path r = ''/index.html'')
      then (serveEnrolAsset s ''static/enrol/airgapp.html'' ''text/html; charset=utf-8'', t)
      else if rq_method r = ''GET'' \<and> rq_path r = ''/qrcode.min.js''
      then (serveEnrolAsset s ''static/js/qrcode.min.js'' ''application/javascript'', t)
      else if rq_method r = ''POST'' \<and> rq_path r = ''/issue'' then handleEnrolIssue text e t
      else (not_found, t))"

definition spoofed :: response where
  "spoofed = \<lparr>rp_status = 200, rp_headers = spoofConnManHeaders, rp_cookies = [], rp_body = NoBody\<rparr>"

definition handle_spoof :: "(enrol_error \<Rightarrow> string) \<Rightarrow> SpoofService \<Rightarrow> enrol_env \<Rightarrow> host_request \<Rightarrow> token_table \<Rightarrow> response \<times> token_table" where
  "handle_spoof text s e r t =
     (if \<not> rq_tls r \<and> enrolEnabled s \<and> hostWithoutPort (rq_host r) = EnrolHost (sp_cfg s) then handleEnrol text s e r t
      else (spoofed, t))"

subsection \<open>Who gets a token\<close>

text \<open>The responder mints a token only for a plain HTTP \<^verbatim>\<open>POST /issue\<close> to the enrolment host, once that is
  switched on; every other request leaves the tokens alone, and every request to another host or over
  TLS is told that it is online.\<close>

theorem tokens_minted_only_by_enrol:
  "(snd (handle_spoof text s e r t) \<noteq> t \<longrightarrow>
     \<not> rq_tls r \<and> enrolEnabled s \<and> hostWithoutPort (rq_host r) = EnrolHost (sp_cfg s) \<and> rq_method r = ''POST'' \<and> rq_path r = ''/issue'') \<and>
   (rq_tls r \<or> hostWithoutPort (rq_host r) \<noteq> EnrolHost (sp_cfg s) \<longrightarrow>
     handle_spoof text s e r t = (spoofed, t) \<and> (''X-ConnMan-Status'', ''online'') \<in> set (rp_headers spoofed))"
  by (auto simp: handle_spoof_def handleEnrol_def spoofed_def spoofConnManHeaders_def)

lemma enrol_query_values:
  "values_of (query_set ''token'' p (query_set ''api'' b [])) k = (if k = ''token'' then [p] else if k = ''api'' then [b] else [])"
  by (auto simp: values_of_set) (simp add: values_of_def)

lemma issued_plain:
  assumes "tokens_ok t" "IssueEphemeral no_faults seed now name ttl t = (Inr iss, t')"
  shows "ti_plain iss = raw_url_encode seed \<and> tokens_ok t' \<and>
    (\<exists>i. view (tokens t') (hashTeslaToken (raw_url_encode seed)) = Some (i, False, Some (secs (now + ttl))))"
proof -
  have step: "token_step now (OpEphemeral seed name ttl) t = (True, t')" using assms(2) by (simp add: succeeded_def)
  have "named name \<and> 0 < ttl" using ephemeral_refines [OF assms(1) step] by (auto simp: lifecycle_of_def Let_def split: if_splits)
  then have "ti_plain iss = raw_url_encode seed" using assms(2)
    by (auto simp: IssueEphemeral_def insert_token_def Let_def no_faults_def split: if_splits sum.splits)
  with ephemeral_refines [OF assms(1) step] show ?thesis
    by (auto simp: lifecycle_of_def Let_def split: if_splits) (metis fun_upd_same)
qed

lemma validate_in_window:
  assumes "tokens_ok t" "view (tokens t) (hashTeslaToken (raw_url_encode seed)) = Some (i, False, Some e)" "seed \<noteq> []"
  shows "succeeded (fst (Validate_token no_faults now (raw_url_encode seed) t)) \<longleftrightarrow> secs now < e"
proof -
  have ne: "raw_url_encode seed \<noteq> []" using assms(3) by (cases seed rule: raw_url_encode.cases) auto
  obtain b t' where st: "token_step now (OpValidate (raw_url_encode seed)) t = (b, t')" by fastforce
  then have "b = succeeded (fst (Validate_token no_faults now (raw_url_encode seed) t))"
    by (cases "Validate_token no_faults now (raw_url_encode seed) t") simp
  moreover have "b \<longleftrightarrow> secs now < e"
    using validate_refines [OF assms(1) st] assms(2) ne by (auto simp: lifecycle_of_def Let_def in_window_def split: if_splits)
  ultimately show ?thesis by simp
qed

text \<open>C33: the enrolment link works, and only in time.  A link that was issued splits at its question mark
  and parses back to exactly two parameters, the address of the relay and a bearer; the bearer that
  the application reads from it is accepted by the command API before the ten minutes are over, and
  refused afterwards unless it was used.\<close>

theorem enrol_link_opens_api:
  assumes "tokens_ok t" "ee_faults e = no_faults" "ee_seed e \<noteq> []"
    and "buildEnrolURL e t = (Inr (link, ttl), t')"
  shows "\<exists>m base. snd (cut (CHR ''?'') link) = Encode m \<and> ParseQuery (Encode m) = (sorted_pairs m, True) \<and>
    (\<exists>st. ee_status e = Inl st \<and> relay_base st = Some base) \<and>
    (\<forall>k. values_of (sorted_pairs m) k = (if k = ''token'' then [query_get m ''token''] else if k = ''api'' then [base] else [])) \<and>
    (\<forall>now. succeeded (fst (Validate_token no_faults now (query_get m ''token'') t')) \<longleftrightarrow> secs now < secs (ee_now e + enrolTokenTTL))"
proof -
  obtain st base iss where st: "ee_status e = Inl st" "relay_base st = Some base"
    and isu: "IssueEphemeral no_faults (ee_seed e) (ee_now e) (''air.gapp '' @ ee_minute e) enrolTokenTTL t = (Inr iss, t')"
    and link: "link = ''airgapp://enrol?'' @ Encode (query_set ''token'' (ti_plain iss) (query_set ''api'' base []))"
    using assms(2,4) by (auto simp: buildEnrolURL_def split: sum.splits option.splits prod.splits)
  let ?m = "query_set ''token'' (ti_plain iss) (query_set ''api'' base [])"
  from issued_plain [OF assms(1) isu] obtain i where p: "ti_plain iss = raw_url_encode (ee_seed e)" "tokens_ok t'"
    "view (tokens t') (hashTeslaToken (raw_url_encode (ee_seed e))) = Some (i, False, Some (secs (ee_now e + enrolTokenTTL)))" by blast
  have get: "query_get ?m ''token'' = raw_url_encode (ee_seed e)" by (simp add: query_get_def enrol_query_values p(1))
  have "snd (cut (CHR ''?'') link) = Encode ?m"
    using cut_append [of "CHR ''?''" "''airgapp://enrol''" "Encode ?m"] by (simp add: link)
  moreover have "\<forall>k. values_of (sorted_pairs ?m) k = (if k = ''token'' then [query_get ?m ''token''] else if k = ''api'' then [base] else [])"
    using get p(1) by (simp add: enrol_query_values)
  moreover have "\<forall>now. succeeded (fst (Validate_token no_faults now (query_get ?m ''token'') t')) \<longleftrightarrow> secs now < secs (ee_now e + enrolTokenTTL)"
    using validate_in_window [OF p(2,3) assms(3)] by (simp add: get)
  ultimately show ?thesis using st ParseQuery_Encode by blast
qed

definition demo_enrol :: enrol_env where
  "demo_enrol = \<lparr>ee_now = 5, ee_minute = ''2026-01-02 15:04'', ee_seed = [7], ee_faults = no_faults,
     ee_status = Inl (no_status\<lparr>rs_hostname := ''pi.ts.net''\<rparr>)\<rparr>"

definition no_tokens :: token_table where
  "no_tokens = \<lparr>tokens = [], tokens_seq = 0\<rparr>"

theorem enrol_link_opens_api_witness:
  "\<exists>link ttl t'. buildEnrolURL demo_enrol no_tokens = (Inr (link, ttl), t') \<and>
   (\<exists>m base. snd (cut (CHR ''?'') link) = Encode m \<and> ParseQuery (Encode m) = (sorted_pairs m, True) \<and>
    (\<exists>st. ee_status demo_enrol = Inl st \<and> relay_base st = Some base) \<and>
    (\<forall>k. values_of (sorted_pairs m) k = (if k = ''token'' then [query_get m ''token''] else if k = ''api'' then [base] else [])) \<and>
    (\<forall>now. succeeded (fst (Validate_token no_faults now (query_get m ''token'') t')) \<longleftrightarrow> secs now < secs (ee_now demo_enrol + enrolTokenTTL)))"
proof -
  have trim: "trim_space ''air.gapp 2026-01-02 15:04'' = ''air.gapp 2026-01-02 15:04''" by code_simp
  have "\<exists>link ttl t'. buildEnrolURL demo_enrol no_tokens = (Inr (link, ttl), t')"
    by (simp add: buildEnrolURL_def demo_enrol_def no_tokens_def relay_base_def no_status_def IssueEphemeral_def insert_token_def
        get_token_def no_faults_def trim Let_def enrolTokenTTL_def prune_def)
  then obtain link ttl t' where b: "buildEnrolURL demo_enrol no_tokens = (Inr (link, ttl), t')" by blast
  moreover have "tokens_ok no_tokens" by (simp add: tokens_ok_def no_tokens_def)
  moreover have "ee_faults demo_enrol = no_faults" "ee_seed demo_enrol \<noteq> []" by (simp_all add: demo_enrol_def)
  ultimately show ?thesis using enrol_link_opens_api [of no_tokens demo_enrol link ttl t'] by blast
qed

end
