(* ===== verification/Tesla_Service.thy ===== *)
theory Tesla_Service
  imports Runtime "HOL-Library.AList"
begin

text \<open>
  \<^verbatim>\<open>internal/services/tesla.go\<close>: the configured VIN, the pairing flag, the command log, and the lock that
  serialises the Bluetooth adapter.  The radio and the vehicle SDK are parameters: whether the adapter
  initialises, the beacon is seen, the connection opens.  The calls that use the adapter are steps of
  a transition system whose steps are the code between two blocking points, so that what is shown of
  the lock holds for every interleaving.
\<close>

subsection \<open>Tables\<close>

record TeslaCommandLogEntry =
  ce_at :: time
  ce_command :: string
  ce_succeeded :: bool
  ce_latency :: int
  ce_error :: string

record command_row =
  cr_id :: int
  cr_user :: int
  cr_entry :: TeslaCommandLogEntry

record tesla_tables =
  tesla_pairing :: "(string \<times> time option) list"
  tesla_command_log :: "command_row list"
  command_log_seq :: int

definition VIN :: "faults \<Rightarrow> db \<Rightarrow> string" where
  "VIN fails d =
     (if fails ''query vin'' then []
      else case map_of (settings d) ''tesla_vin'' of None \<Rightarrow> [] | Some v \<Rightarrow> trim_space v)"

datatype vin_error = WrongLength nat | VinStatement

definition SetVIN :: "faults \<Rightarrow> string \<Rightarrow> db \<Rightarrow> vin_error option \<times> db" where
  "SetVIN fails v d =
     (let v = trim_space (to_upper v) in
      if length v \<noteq> 17 then (Some (WrongLength (length v)), d)
      else if fails ''upsert vin'' then (Some VinStatement, d)
      else (None, d\<lparr>settings := AList.update ''tesla_vin'' v (settings d)\<rparr>))"

definition requireVIN :: "faults \<Rightarrow> db \<Rightarrow> string option" where
  "requireVIN fails d = (let v = VIN fails d in if v = [] then None else Some v)"

definition IsPaired :: "faults \<Rightarrow> db \<Rightarrow> tesla_tables \<Rightarrow> bool" where
  "IsPaired fails d t =
     (let v = VIN fails d in
      v \<noteq> [] \<and> \<not> fails ''query pairing'' \<and> list_ex (\<lambda>(w, at). w = v \<and> at \<noteq> None) (tesla_pairing t))"

definition newer_command :: "command_row \<Rightarrow> command_row \<Rightarrow> bool" where
  "newer_command a b \<longleftrightarrow>
     (if ce_at (cr_entry a) = ce_at (cr_entry b) then cr_id b \<le> cr_id a else ce_at (cr_entry b) \<le> ce_at (cr_entry a))"

definition CommandLog :: "faults \<Rightarrow> int \<Rightarrow> tesla_tables \<Rightarrow> TeslaCommandLogEntry list option" where
  "CommandLog fails limit t =
     (let limit = (if limit \<le> 0 then 20 else limit) in
      if fails ''query command log'' then None
      else Some (map cr_entry (take (nat limit) (sort_by newer_command (tesla_command_log t)))))"

definition LogCommand :: "faults \<Rightarrow> time \<Rightarrow> int \<Rightarrow> string \<Rightarrow> bool \<Rightarrow> int \<Rightarrow> string \<Rightarrow> tesla_tables \<Rightarrow> tesla_tables" where
  "LogCommand fails now user name ok latency msg t =
     (if fails ''insert command'' then t
      else t\<lparr>command_log_seq := command_log_seq t + 1,
             tesla_command_log := tesla_command_log t @ [\<lparr>cr_id = command_log_seq t + 1, cr_user = user,
               cr_entry = \<lparr>ce_at = now, ce_command = name, ce_succeeded = ok, ce_latency = latency, ce_error = msg\<rparr>\<rparr>]\<rparr>)"

subsection \<open>The adapter lock\<close>

text \<open>\<^verbatim>\<open>bleLock\<close> is a channel with one slot: taking the lock fills it, releasing it empties it, and releasing an empty
  one panics.\<close>

datatype slot = Free | Taken

definition lock_ready :: "slot \<Rightarrow> bool" where
  "lock_ready l \<longleftrightarrow> l = Free"

definition Unlock :: "slot \<Rightarrow> slot option" where
  "Unlock l = (case l of Taken \<Rightarrow> Some Free | Free \<Rightarrow> None)"

text \<open>\<^verbatim>\<open>initAdapter\<close>: whether it returns nil, the flag, and how often the library initialised the adapter.  \<open>works\<close> is the
  library's answer, were it called.\<close>

definition initAdapter :: "bool \<Rightarrow> bool \<times> nat \<Rightarrow> bool \<times> (bool \<times> nat)" where
  "initAdapter works st =
     (case st of (initOK, n) \<Rightarrow>
        if initOK then (True, st)
        else if \<not> works then (False, st)
        else (True, (True, Suc n)))"

datatype purpose = ForSession | ForEnrolment
datatype stage = Waiting | Scanning | Connected

record adapter =
  ad_slot :: slot
  ad_init :: "bool \<times> nat"
  ad_calls :: "(nat \<times> purpose \<times> stage) list"
  ad_panicked :: bool

definition idle_adapter :: adapter where
  "idle_adapter = \<lparr>ad_slot = Free, ad_init = (False, 0), ad_calls = [], ad_panicked = False\<rparr>"

definition drop_call :: "nat \<Rightarrow> adapter \<Rightarrow> adapter" where
  "drop_call c a = a\<lparr>ad_calls := filter (\<lambda>x. fst x \<noteq> c) (ad_calls a)\<rparr>"

definition set_stage :: "nat \<Rightarrow> stage \<Rightarrow> adapter \<Rightarrow> adapter" where
  "set_stage c g a = a\<lparr>ad_calls := map (\<lambda>x. if fst x = c then (c, fst (snd x), g) else x) (ad_calls a)\<rparr>"

definition unlock_by :: "nat \<Rightarrow> adapter \<Rightarrow> adapter" where
  "unlock_by c a =
     (case Unlock (ad_slot a) of
        None \<Rightarrow> a\<lparr>ad_panicked := True\<rparr>
      | Some l \<Rightarrow> drop_call c (a\<lparr>ad_slot := l\<rparr>))"

text \<open>
  The steps of \<^verbatim>\<open>AcquireBLEForVIN\<close> and \<^verbatim>\<open>sendUnauthenticated\<close>.  A call enters when the adapter is initialised; it waits for
  the lock or gives up when its context ends; with the lock it loads its key, scans and connects, and
  releases the lock on every failure.  \<^verbatim>\<open>AcquireBLEForVIN\<close> returns the connection with its release, which runs
  later; \<^verbatim>\<open>sendUnauthenticated\<close> runs the request and its deferred release.
\<close>

inductive adapter_step :: "adapter \<Rightarrow> adapter \<Rightarrow> bool" where
  enter: "initAdapter works (ad_init a) = (ok, st) \<Longrightarrow> c \<notin> fst ` set (ad_calls a) \<Longrightarrow>
    a' = a\<lparr>ad_init := st, ad_calls := (if ok then ad_calls a @ [(c, p, Waiting)] else ad_calls a)\<rparr> \<Longrightarrow> adapter_step a a'"
| take_lock: "(c, p, Waiting) \<in> set (ad_calls a) \<Longrightarrow> lock_ready (ad_slot a) \<Longrightarrow>
    adapter_step a (set_stage c Scanning (a\<lparr>ad_slot := Taken\<rparr>))"
| give_up: "(c, p, Waiting) \<in> set (ad_calls a) \<Longrightarrow> adapter_step a (drop_call c a)"
| fails_locked: "(c, p, Scanning) \<in> set (ad_calls a) \<Longrightarrow> adapter_step a (unlock_by c a)"
| connects: "(c, ForSession, Scanning) \<in> set (ad_calls a) \<Longrightarrow> adapter_step a (set_stage c Connected a)"
| enrolled: "(c, ForEnrolment, Scanning) \<in> set (ad_calls a) \<Longrightarrow> adapter_step a (unlock_by c a)"
| releases: "(c, ForSession, Connected) \<in> set (ad_calls a) \<Longrightarrow> adapter_step a (unlock_by c a)"

definition holding :: "adapter \<Rightarrow> (nat \<times> purpose \<times> stage) list" where
  "holding a = filter (\<lambda>x. snd (snd x) \<noteq> Waiting) (ad_calls a)"

definition adapter_ok :: "adapter \<Rightarrow> bool" where
  "adapter_ok a \<longleftrightarrow> distinct (map fst (ad_calls a)) \<and> \<not> ad_panicked a \<and>
     length (holding a) = (if ad_slot a = Taken then 1 else 0) \<and>
     snd (ad_init a) = (if fst (ad_init a) then 1 else 0)"

abbreviation busy :: "nat \<times> purpose \<times> stage \<Rightarrow> bool" where
  "busy x \<equiv> snd (snd x) \<noteq> Waiting"

lemma call_split:
  assumes "distinct (map fst xs)" "(c, p, g) \<in> set xs"
  obtains us vs where "xs = us @ (c, p, g) # vs" "filter (\<lambda>x. fst x \<noteq> c) xs = us @ vs"
    "map (\<lambda>x. if fst x = c then (c, fst (snd x), g') else x) xs = us @ (c, p, g') # vs"
proof -
  from split_list [OF assms(2)] obtain us vs where xs: "xs = us @ (c, p, g) # vs" by blast
  with assms(1) have n: "x \<in> set us \<union> set vs \<Longrightarrow> fst x \<noteq> c" for x by (auto simp: image_iff)
  have "map (\<lambda>x. if fst x = c then (c, fst (snd x), g') else x) ys = ys" if "set ys \<subseteq> set us \<union> set vs" for ys
    using n that by (intro map_idI) auto
  moreover have "filter (\<lambda>x. fst x \<noteq> c) ys = ys" if "set ys \<subseteq> set us \<union> set vs" for ys
    using n that by (auto simp: filter_id_conv)
  ultimately have "filter (\<lambda>x. fst x \<noteq> c) xs = us @ vs"
    "map (\<lambda>x. if fst x = c then (c, fst (snd x), g') else x) xs = us @ (c, p, g') # vs"
    by (simp_all add: xs)
  with that xs show thesis by blast
qed

lemma set_stage_ok:
  assumes "adapter_ok a" "(c, p, g) \<in> set (ad_calls a)" "g' \<noteq> Waiting"
    and "g = Waiting \<longrightarrow> ad_slot a = Free" "g = Waiting \<or> l = ad_slot a" "g = Waiting \<longrightarrow> l = Taken"
  shows "adapter_ok (set_stage c g' (a\<lparr>ad_slot := l\<rparr>))"
proof -
  have "distinct (map fst (ad_calls a))" using assms(1) by (simp add: adapter_ok_def)
  then obtain us vs where s: "ad_calls a = us @ (c, p, g) # vs" "filter (\<lambda>x. fst x \<noteq> c) (ad_calls a) = us @ vs"
    "map (\<lambda>x. if fst x = c then (c, fst (snd x), g') else x) (ad_calls a) = us @ (c, p, g') # vs"
    using assms(2) by (rule call_split)
  with assms(1,3-) show ?thesis
    by (cases "ad_slot a"; cases "g = Waiting") (auto simp: adapter_ok_def set_stage_def holding_def)
qed

lemma drop_waiting_ok:
  assumes "adapter_ok a" "(c, p, Waiting) \<in> set (ad_calls a)"
  shows "adapter_ok (drop_call c a)"
proof -
  have "distinct (map fst (ad_calls a))" using assms(1) by (simp add: adapter_ok_def)
  then obtain us vs where s: "ad_calls a = us @ (c, p, Waiting) # vs" "filter (\<lambda>x. fst x \<noteq> c) (ad_calls a) = us @ vs"
    "map (\<lambda>x. if fst x = c then (c, fst (snd x), g') else x) (ad_calls a) = us @ (c, p, g') # vs"
    using assms(2) by (rule call_split)
  with assms(1) show ?thesis by (auto simp: adapter_ok_def drop_call_def holding_def)
qed

lemma unlock_ok:
  assumes "adapter_ok a" "(c, p, g) \<in> set (ad_calls a)" "g \<noteq> Waiting"
  shows "adapter_ok (unlock_by c a)"
proof -
  have "distinct (map fst (ad_calls a))" using assms(1) by (simp add: adapter_ok_def)
  then obtain us vs where s: "ad_calls a = us @ (c, p, g) # vs" "filter (\<lambda>x. fst x \<noteq> c) (ad_calls a) = us @ vs"
    "map (\<lambda>x. if fst x = c then (c, fst (snd x), g') else x) (ad_calls a) = us @ (c, p, g') # vs"
    using assms(2) by (rule call_split)
  with assms(1,3) have "ad_slot a = Taken" by (auto simp: adapter_ok_def holding_def split: if_splits)
  with assms(1,3) s show ?thesis
    by (auto simp: adapter_ok_def unlock_by_def Unlock_def drop_call_def holding_def)
qed

lemma init_once:
  "initAdapter works st = (ok, st') \<Longrightarrow> snd st = (if fst st then 1 else 0) \<Longrightarrow> snd st' = (if fst st' then 1 else 0)"
  by (cases st) (auto simp: initAdapter_def split: if_splits)

lemma idle_ok: "adapter_ok idle_adapter"
  by (simp add: adapter_ok_def idle_adapter_def holding_def)

lemma adapter_step_ok: "adapter_step a a' \<Longrightarrow> adapter_ok a \<Longrightarrow> adapter_ok a'"
proof (induction rule: adapter_step.induct)
  case (enter works a ok st c a' p)
  then show ?case using init_once [OF enter(1)] by (auto simp: adapter_ok_def holding_def)
next
  case (take_lock c p a)
  then show ?case using set_stage_ok [of a c p Waiting Scanning Taken] by (simp add: lock_ready_def)
next
  case (connects c a)
  then show ?case using set_stage_ok [of a c ForSession Scanning Connected "ad_slot a"] by simp
qed (auto intro: unlock_ok drop_waiting_ok)


text \<open>Two sessions want the adapter and the first has it.\<close>

definition contended :: adapter where
  "contended = \<lparr>ad_slot = Taken, ad_init = (True, 1),
     ad_calls = [(1, ForSession, Scanning), (2, ForEnrolment, Waiting)], ad_panicked = False\<rparr>"

lemma contended_reachable: "adapter_step\<^sup>*\<^sup>* idle_adapter contended"
proof -
  let ?a1 = "\<lparr>ad_slot = Free, ad_init = (True, 1), ad_calls = [(1, ForSession, Waiting)], ad_panicked = False\<rparr>"
  let ?a2 = "?a1\<lparr>ad_calls := [(1, ForSession, Waiting), (2, ForEnrolment, Waiting)]\<rparr>"
  have "adapter_step idle_adapter ?a1"
    by (rule enter [where works = True and c = 1 and p = ForSession and st = "(True, 1)" and ok = True]) (simp_all add: idle_adapter_def initAdapter_def)
  moreover have "adapter_step ?a1 ?a2"
    by (rule enter [where works = True and c = 2 and p = ForEnrolment and st = "(True, 1)" and ok = True]) (simp_all add: initAdapter_def)
  moreover have "adapter_step ?a2 (set_stage 1 Scanning (?a2\<lparr>ad_slot := Taken\<rparr>))"
    by (rule take_lock [where p = ForSession]) (simp_all add: lock_ready_def)
  moreover have "set_stage 1 Scanning (?a2\<lparr>ad_slot := Taken\<rparr>) = contended" by (simp add: set_stage_def contended_def)
  ultimately show ?thesis by (metis converse_rtranclp_into_rtranclp rtranclp.rtrancl_refl)
qed


end
