(* ===== verification/Admin_Api.thy ===== *)
theory Admin_Api
  imports Console Go_URL Hotspot Network Bandwidth Traffic_Log Remote BLE_Service Lock_Watch Tesla_Service
begin

text \<open>
  \<^verbatim>\<open>internal/handlers/filters.go\<close>, \<^verbatim>\<open>devices.go\<close>, \<^verbatim>\<open>firewall.go\<close>, \<^verbatim>\<open>bandwidth.go\<close> and \<^verbatim>\<open>settings.go\<close>: the requests of the
  administration pages.  A handler decodes the request, calls the service, writes the audit log,
  re-applies what depends on the change and answers; each of its returns is a branch here.  The
  state behind the handlers is the record \<open>daemon\<close>; what a request finds in its surroundings (the
  clock, the failing statements, the answers of the commands, \<^verbatim>\<open>encoding/json\<close> on the row types, the text of an
  error) is the record \<open>api_env\<close>.  A goroutine that a handler starts is put on the list of jobs.
\<close>

subsection \<open>The state behind the handlers\<close>

datatype job = ApplyHotspot | ApplyDns | RebootSystem

record daemon =
  dm_db :: db
  dm_host :: host
  dm_log :: log_tables
  dm_tlog :: TrafficLogService
  dm_limits :: limit_table
  dm_cli :: "cli list"
  dm_ble :: BLESessionService
  dm_watch :: LockWatchService
  dm_tesla :: tesla_tables
  dm_jobs :: "job list"

datatype api_error =
    FilterFailed filter_error
  | DeviceFailed device_error
  | PasswordFailed auth_error
  | RemoteFailed remote_error
  | TokenFailed token_error
  | BleFailed ble_error
  | VinFailed vin_error
  | BodyRejected
  | ApplyFailed string
  | StatementFailed string

datatype view =
    FilterView Filter
  | FiltersView "Filter list"
  | DomainsView "FilterDomain list"
  | DevicesView "(Device \<times> bool) list"
  | RulesView "FirewallRule list"
  | LimitsView "BandwidthLimit list"
  | AuditView "AuditLog list"
  | MutedView "MutedDomain list"
  | PageView PagedResult
  | SummaryView StatsSummary
  | CountsView "(string \<times> nat) list"
  | RemoteView RemoteStatus
  | TokenView TeslaClientToken
  | TokensView "TeslaClientToken list"
  | CommandsView "TeslaCommandLogEntry list"
  | WatchView LockWatchStatus

record api_env =
  ae_faults :: faults
  ae_now :: time
  ae_shell :: shell
  ae_lookup :: "string \<Rightarrow> nat list list option"
  ae_cfg :: Config
  ae_bcrypt :: bcrypt
  ae_salt :: string
  ae_stale :: int
  ae_order :: "(string \<times> string) list \<Rightarrow> (string \<times> string) list"
  ae_text :: "api_error \<Rightarrow> string"
  ae_filter :: "json option \<Rightarrow> Filter option"
  ae_domain :: "json option \<Rightarrow> FilterDomain option"
  ae_rule :: "json option \<Rightarrow> FirewallRule option"
  ae_limit :: "json option \<Rightarrow> BandwidthLimit option"
  ae_show :: "view \<Rightarrow> json"

type_synonym admin = "daemon server"

definition put_db :: "db \<Rightarrow> admin \<Rightarrow> admin" where
  "put_db d s = s\<lparr>sv_rest := (sv_rest s)\<lparr>dm_db := d\<rparr>\<rparr>"

definition put_host :: "host \<Rightarrow> admin \<Rightarrow> admin" where
  "put_host h s = s\<lparr>sv_rest := (sv_rest s)\<lparr>dm_host := h\<rparr>\<rparr>"

definition put_log :: "log_tables \<Rightarrow> admin \<Rightarrow> admin" where
  "put_log t s = s\<lparr>sv_rest := (sv_rest s)\<lparr>dm_log := t\<rparr>\<rparr>"

definition put_tlog :: "TrafficLogService \<Rightarrow> admin \<Rightarrow> admin" where
  "put_tlog t s = s\<lparr>sv_rest := (sv_rest s)\<lparr>dm_tlog := t\<rparr>\<rparr>"

definition put_limits :: "limit_table \<Rightarrow> admin \<Rightarrow> admin" where
  "put_limits t s = s\<lparr>sv_rest := (sv_rest s)\<lparr>dm_limits := t\<rparr>\<rparr>"

definition go_job :: "job \<Rightarrow> admin \<Rightarrow> admin" where
  "go_job j s = s\<lparr>sv_rest := (sv_rest s)\<lparr>dm_jobs := dm_jobs (sv_rest s) @ [j]\<rparr>\<rparr>"

abbreviation db_of :: "admin \<Rightarrow> db" where "db_of s \<equiv> dm_db (sv_rest s)"
abbreviation host_of_admin :: "admin \<Rightarrow> host" where "host_of_admin s \<equiv> dm_host (sv_rest s)"

definition audit :: "api_env \<Rightarrow> string \<Rightarrow> string \<Rightarrow> admin \<Rightarrow> admin" where
  "audit e act details s = Log (ae_faults e) (ae_now e) act details s"

text \<open>\<^verbatim>\<open>chi.URLParam\<close>: an absent parameter reads as the empty string.\<close>

definition url_param :: "request \<Rightarrow> string \<Rightarrow> string" where
  "url_param r k = (case map_of (rq_params r) k of None \<Rightarrow> [] | Some v \<Rightarrow> v)"

text \<open>The opening of most handlers: \<^verbatim>\<open>strconv.ParseInt\<close> of a parameter, with the answer to a malformed one.\<close>

definition with_id :: "string \<Rightarrow> string \<Rightarrow> request \<Rightarrow> (int \<Rightarrow> admin \<Rightarrow> response \<times> admin) \<Rightarrow> admin \<Rightarrow> response \<times> admin" where
  "with_id k msg r body s = (case parse_int64 (url_param r k) of None \<Rightarrow> (JSONError 400 msg, s) | Some i \<Rightarrow> body i s)"

definition with_body :: "'a option \<Rightarrow> ('a \<Rightarrow> admin \<Rightarrow> response \<times> admin) \<Rightarrow> admin \<Rightarrow> response \<times> admin" where
  "with_body v body s = (case v of None \<Rightarrow> (JSONError 400 ''invalid request body'', s) | Some x \<Rightarrow> body x s)"

definition body_field :: "(json \<Rightarrow> 'a option) \<Rightarrow> string \<Rightarrow> 'a \<Rightarrow> request \<Rightarrow> 'a option" where
  "body_field rd k z r = (case json_object (rq_json r) of None \<Rightarrow> None | Some kvs \<Rightarrow> json_field rd k z kvs)"

definition apply_dns :: "api_env \<Rightarrow> string \<Rightarrow> (admin \<Rightarrow> response \<times> admin) \<Rightarrow> admin \<Rightarrow> response \<times> admin" where
  "apply_dns e msg k s =
     (case Apply_dns (ae_faults e) (ae_shell e) (ae_cfg e) (db_of s) (host_of_admin s) of
        (Some x, h) \<Rightarrow> (JSONError 500 (msg @ ae_text e (ApplyFailed x)), put_host h s)
      | (None, h) \<Rightarrow> k (put_host h s))"

definition apply_firewall :: "api_env \<Rightarrow> string \<Rightarrow> (admin \<Rightarrow> response \<times> admin) \<Rightarrow> admin \<Rightarrow> response \<times> admin" where
  "apply_firewall e msg k s =
     (case Apply_firewall (ae_lookup e) (ae_faults e) (ae_shell e) (ae_cfg e) (db_of s) (host_of_admin s) of
        (Some x, h) \<Rightarrow> (JSONError 500 (msg @ ae_text e (ApplyFailed x)), put_host h s)
      | (None, h) \<Rightarrow> k (put_host h s))"

definition apply_bandwidth :: "api_env \<Rightarrow> string \<Rightarrow> (admin \<Rightarrow> response \<times> admin) \<Rightarrow> admin \<Rightarrow> response \<times> admin" where
  "apply_bandwidth e msg k s =
     (case Apply_bandwidth (ae_faults e) (ae_shell e) (ae_cfg e) (db_of s) (dm_limits (sv_rest s)) (host_of_admin s) of
        (Some x, h) \<Rightarrow> (JSONError 500 (msg @ ae_text e (ApplyFailed x)), put_host h s)
      | (None, h) \<Rightarrow> k (put_host h s))"

definition answer :: "response \<Rightarrow> admin \<Rightarrow> response \<times> admin" where
  "answer p s = (p, s)"

definition id_body :: "int \<Rightarrow> json" where
  "id_body i = JObj [(''id'', JInt i)]"

definition boolStr :: "bool \<Rightarrow> string" where
  "boolStr b = (if b then ''true'' else ''false'')"

definition filter_failed :: "api_env \<Rightarrow> int \<Rightarrow> filter_error \<Rightarrow> response" where
  "filter_failed e status x = JSONError status (ae_text e (FilterFailed x))"

definition statement_failed :: "api_env \<Rightarrow> string \<Rightarrow> response" where
  "statement_failed e what = JSONError 500 (ae_text e (StatementFailed what))"

subsection \<open>Filters\<close>

definition filtH_List :: "api_env \<Rightarrow> daemon handler" where
  "filtH_List e cx r s =
     (case List_filters (ae_faults e) (db_of s) of
        Inl x \<Rightarrow> (filter_failed e 500 x, s)
      | Inr fs \<Rightarrow> (JSON 200 (ae_show e (FiltersView fs)), s))"

definition filtH_Get :: "api_env \<Rightarrow> daemon handler" where
  "filtH_Get e cx r = with_id ''id'' ''invalid filter id'' r (\<lambda>i s.
     (case Get_filter (ae_faults e) i (db_of s) of
        Inl ErrFilterNotFound \<Rightarrow> (JSONError 404 ''filter not found'', s)
      | Inl x \<Rightarrow> (filter_failed e 500 x, s)
      | Inr f \<Rightarrow> (JSON 200 (ae_show e (FilterView f)), s)))"

definition filtH_Create :: "api_env \<Rightarrow> daemon handler" where
  "filtH_Create e cx r = with_body (ae_filter e (rq_json r)) (\<lambda>f s.
     (case Create_filter (ae_faults e) f (db_of s) of
        Inl x \<Rightarrow> (filter_failed e 400 x, s)
      | Inr (i, d) \<Rightarrow> (JSON 201 (id_body i), audit e ''filter.create'' (f_name f) (put_db d s))))"

definition filtH_Update :: "api_env \<Rightarrow> daemon handler" where
  "filtH_Update e cx r = with_id ''id'' ''invalid filter id'' r (\<lambda>i. with_body (ae_filter e (rq_json r)) (\<lambda>f s.
     (case Update_filter (ae_faults e) i f (db_of s) of
        Inl x \<Rightarrow> (filter_failed e 400 x, s)
      | Inr d \<Rightarrow> (JSON 200 ok_body, audit e ''filter.update'' (f_name f) (put_db d s)))))"

definition filtH_SetEnabled :: "api_env \<Rightarrow> daemon handler" where
  "filtH_SetEnabled e cx r = with_id ''id'' ''invalid filter id'' r (\<lambda>i. with_body (body_field read_bool ''enabled'' False r) (\<lambda>en s.
     (case SetEnabled_filter (ae_faults e) i en (db_of s) of
        Inl ErrFilterNotFound \<Rightarrow> (JSONError 404 ''filter not found'', s)
      | Inl x \<Rightarrow> (filter_failed e 500 x, s)
      | Inr d \<Rightarrow>
          apply_dns e ''saved but failed to apply DNS: ''
            (apply_firewall e ''saved but failed to apply firewall: '' (answer (JSON 200 ok_body)))
            (audit e ''filter.set_enabled'' (int_str i @ ''='' @ boolStr en) (put_db d s)))))"

definition filtH_Delete :: "api_env \<Rightarrow> daemon handler" where
  "filtH_Delete e cx r = with_id ''id'' ''invalid filter id'' r (\<lambda>i s.
     (case Delete_filter (ae_faults e) i (db_of s) of
        Inl ErrFilterNotFound \<Rightarrow> (JSONError 404 ''filter not found'', s)
      | Inl ErrSystemFilter \<Rightarrow> (filter_failed e 409 ErrSystemFilter, s)
      | Inl x \<Rightarrow> (filter_failed e 500 x, s)
      | Inr d \<Rightarrow> apply_dns e ''deleted but failed to apply DNS: '' (answer (JSON 200 ok_body))
          (audit e ''filter.delete'' (int_str i) (put_db d s))))"

definition filtH_ListDomains :: "api_env \<Rightarrow> daemon handler" where
  "filtH_ListDomains e cx r = with_id ''id'' ''invalid filter id'' r (\<lambda>i s.
     (case ListDomains (ae_faults e) i (db_of s) of
        Inl x \<Rightarrow> (filter_failed e 500 x, s)
      | Inr ds \<Rightarrow> (JSON 200 (ae_show e (DomainsView ds)), s)))"

definition filtH_CreateDomain :: "api_env \<Rightarrow> daemon handler" where
  "filtH_CreateDomain e cx r = with_id ''id'' ''invalid filter id'' r (\<lambda>i. with_body (ae_domain e (rq_json r)) (\<lambda>fd s.
     (case CreateDomain (ae_faults e) i fd (db_of s) of
        Inl x \<Rightarrow> (filter_failed e 400 x, s)
      | Inr (n, d) \<Rightarrow> apply_dns e ''saved but failed to apply DNS: '' (answer (JSON 201 (id_body n)))
          (audit e ''filter.domain.create'' (d_domain fd) (put_db d s)))))"

definition filtH_UpdateDomain :: "api_env \<Rightarrow> daemon handler" where
  "filtH_UpdateDomain e cx r = with_id ''domainID'' ''invalid domain id'' r (\<lambda>i. with_body (ae_domain e (rq_json r)) (\<lambda>fd s.
     (case UpdateDomain (ae_faults e) i fd (db_of s) of
        Inl x \<Rightarrow> (filter_failed e 400 x, s)
      | Inr d \<Rightarrow> apply_dns e ''updated but failed to apply DNS: '' (answer (JSON 200 ok_body))
          (audit e ''filter.domain.update'' (int_str i) (put_db d s)))))"

definition filtH_SetDomainEnabled :: "api_env \<Rightarrow> daemon handler" where
  "filtH_SetDomainEnabled e cx r = with_id ''domainID'' ''invalid domain id'' r (\<lambda>i.
     with_body (body_field read_bool ''enabled'' False r) (\<lambda>en s.
     (case SetDomainEnabled (ae_faults e) i en (db_of s) of
        Inl x \<Rightarrow> (filter_failed e 500 x, s)
      | Inr d \<Rightarrow> apply_dns e ''saved but failed to apply DNS: '' (answer (JSON 200 ok_body))
          (audit e ''filter.domain.enabled'' (int_str i @ ''='' @ boolStr en) (put_db d s)))))"

definition filtH_DeleteDomain :: "api_env \<Rightarrow> daemon handler" where
  "filtH_DeleteDomain e cx r = with_id ''domainID'' ''invalid domain id'' r (\<lambda>i s.
     (case DeleteDomain (ae_faults e) i (db_of s) of
        Inl x \<Rightarrow> (filter_failed e 500 x, s)
      | Inr d \<Rightarrow> apply_dns e ''deleted but failed to apply DNS: '' (answer (JSON 200 ok_body))
          (audit e ''filter.domain.delete'' (int_str i) (put_db d s))))"

subsection \<open>Devices\<close>

definition devH_List :: "api_env \<Rightarrow> daemon handler" where
  "devH_List e cx r s =
     (case ListDevices (ae_faults e) (secs (ae_now e)) (db_of s) of
        None \<Rightarrow> (statement_failed e ''query devices'', s)
      | Some ds \<Rightarrow> (JSON 200 (ae_show e (DevicesView ds)), s))"

definition extractMAC :: "request \<Rightarrow> string + string" where
  "extractMAC r =
     (case PathUnescape (url_param r ''mac'') of
        None \<Rightarrow> Inl ''invalid mac encoding''
      | Some decoded \<Rightarrow> let mac = to_lower (trim_space decoded) in
          if \<not> ValidMAC mac then Inl ''invalid mac format (want aa:bb:cc:dd:ee:ff)'' else Inr mac)"

definition macFromPath :: "request \<Rightarrow> string + string" where
  "macFromPath r =
     (case PathUnescape (url_param r ''mac'') of
        None \<Rightarrow> Inl ''invalid mac encoding''
      | Some decoded \<Rightarrow> let mac = to_upper (trim_space decoded) in
          if \<not> ValidMAC (to_lower mac) then Inl ''invalid mac format (want aa:bb:cc:dd:ee:ff)'' else Inr mac)"

definition with_mac :: "request \<Rightarrow> (string \<Rightarrow> admin \<Rightarrow> response \<times> admin) \<Rightarrow> admin \<Rightarrow> response \<times> admin" where
  "with_mac r body s = (case macFromPath r of Inl msg \<Rightarrow> (JSONError 400 msg, s) | Inr mac \<Rightarrow> body mac s)"

definition device_failed :: "api_env \<Rightarrow> int \<Rightarrow> device_error \<Rightarrow> response" where
  "device_failed e status x = JSONError status (ae_text e (DeviceFailed x))"

definition wipe_device :: "api_env \<Rightarrow> string \<Rightarrow> string \<Rightarrow> string \<Rightarrow> admin \<Rightarrow> admin" where
  "wipe_device e note mac ip s =
     (case WipeForDevice (ae_faults e) mac ip (dm_log (sv_rest s)) of
        (None, t) \<Rightarrow> put_log t s
      | (Some n, t) \<Rightarrow> if n > 0
          then audit e ''device.wipe_logs'' (''MAC='' @ mac @ '' ip='' @ ip @ '' deleted='' @ nat_str n @ note) (put_log t s)
          else put_log t s)"

definition devH_Update :: "api_env \<Rightarrow> daemon handler" where
  "devH_Update e cx r = with_mac r (\<lambda>mac.
     with_body (case (body_field read_str ''alias'' [] r, body_field read_bool ''ignore_traffic_log'' False r) of
         (Some a, Some ig) \<Rightarrow> Some (a, ig) | _ \<Rightarrow> None) (\<lambda>(nick, ig) s.
     (case UpdateDevice (ae_faults e) mac nick ig (db_of s) of
        (Some x, d) \<Rightarrow> (device_failed e 500 x, put_db d s)
      | (None, d) \<Rightarrow>
          let s1 = audit e ''device.update'' (''MAC='' @ mac @ '' ignore_log='' @ boolStr ig) (put_db d s);
              s2 = (if ig then wipe_device e [] mac (DeviceIPByMAC (ae_faults e) mac (db_of s1)) s1 else s1) in
          (JSON 200 ok_body, put_tlog (RefreshIgnoreCache (ae_faults e) (db_of s2) (dm_tlog (sv_rest s2))) s2))))"

definition devH_SetStatus :: "api_env \<Rightarrow> daemon handler" where
  "devH_SetStatus e cx r = with_mac r (\<lambda>mac. with_body (body_field read_str ''status'' [] r) (\<lambda>st s.
     (case SetStatus (ae_faults e) mac st (db_of s) of
        (Some x, d) \<Rightarrow> (device_failed e 400 x, put_db d s)
      | (None, d) \<Rightarrow> apply_firewall e ''status set but failed to apply firewall: ''
          (apply_dns e ''status set but failed to apply DNS: '' (answer (JSON 200 ok_body)))
          (audit e ''device.status'' (''MAC='' @ mac @ '' status='' @ st) (put_db d s)))))"

definition devH_Delete :: "api_env \<Rightarrow> daemon handler" where
  "devH_Delete e cx r = with_mac r (\<lambda>mac s.
     (let ip = DeviceIPByMAC (ae_faults e) mac (db_of s) in
      case Delete_device (ae_faults e) mac (db_of s) of
        (Some x, d) \<Rightarrow> (device_failed e 500 x, put_db d s)
      | (None, d) \<Rightarrow> apply_firewall e ''deleted but failed to apply firewall: ''
          (apply_dns e ''deleted but failed to apply DNS: '' (answer (JSON 200 ok_body)))
          (audit e ''device.delete'' (''MAC='' @ mac) (wipe_device e '' (device removed)'' mac ip (put_db d s)))))"

subsection \<open>Firewall rules\<close>

definition fwH_List :: "api_env \<Rightarrow> daemon handler" where
  "fwH_List e cx r s =
     (case ListRules (ae_faults e) (db_of s) of
        None \<Rightarrow> (statement_failed e ''query firewall rules'', s)
      | Some rs \<Rightarrow> (JSON 200 (ae_show e (RulesView rs)), s))"

definition fwH_Create :: "api_env \<Rightarrow> daemon handler" where
  "fwH_Create e cx r = with_body (ae_rule e (rq_json r)) (\<lambda>rule s.
     (case CreateRule (ae_faults e) rule (db_of s) of
        None \<Rightarrow> (statement_failed e ''insert firewall rule'', s)
      | Some (i, d) \<Rightarrow> apply_firewall e ''rule saved but failed to apply: '' (answer (JSON 201 (id_body i)))
          (audit e ''firewall.create'' (r_description rule) (put_db d s))))"

definition fwH_Update :: "api_env \<Rightarrow> daemon handler" where
  "fwH_Update e cx r = with_id ''id'' ''invalid rule id'' r (\<lambda>i. with_body (ae_rule e (rq_json r)) (\<lambda>rule s.
     (case UpdateRule (ae_faults e) i rule (db_of s) of
        None \<Rightarrow> (statement_failed e ''update firewall rule'', s)
      | Some d \<Rightarrow> apply_firewall e ''rule updated but failed to apply: '' (answer (JSON 200 ok_body))
          (audit e ''firewall.update'' (r_description rule) (put_db d s)))))"

definition fwH_Delete :: "api_env \<Rightarrow> daemon handler" where
  "fwH_Delete e cx r = with_id ''id'' ''invalid rule id'' r (\<lambda>i s.
     (case DeleteRule (ae_faults e) i (db_of s) of
        None \<Rightarrow> (statement_failed e ''delete firewall rule'', s)
      | Some d \<Rightarrow> apply_firewall e ''rule deleted but failed to apply: '' (answer (JSON 200 ok_body))
          (audit e ''firewall.delete'' (''rule_id='' @ url_param r ''id'') (put_db d s))))"

subsection \<open>Bandwidth limits\<close>

definition bwH_List :: "api_env \<Rightarrow> daemon handler" where
  "bwH_List e cx r s =
     (case ListLimits (ae_faults e) (dm_limits (sv_rest s)) of
        None \<Rightarrow> (statement_failed e ''query bandwidth limits'', s)
      | Some ls \<Rightarrow> (JSON 200 (ae_show e (LimitsView ls)), s))"

definition bwH_Create :: "api_env \<Rightarrow> daemon handler" where
  "bwH_Create e cx r = with_body (ae_limit e (rq_json r)) (\<lambda>l s.
     (case CreateLimit (ae_faults e) (ae_stale e) l (dm_limits (sv_rest s)) of
        None \<Rightarrow> (statement_failed e ''insert bandwidth limit'', s)
      | Some (i, t) \<Rightarrow> apply_bandwidth e ''limit saved but failed to apply: '' (answer (JSON 201 (id_body i)))
          (audit e ''bandwidth.create'' (''device='' @ bl_mac l) (put_limits t s))))"

definition bwH_Update :: "api_env \<Rightarrow> daemon handler" where
  "bwH_Update e cx r = with_id ''id'' ''invalid limit id'' r (\<lambda>i. with_body (ae_limit e (rq_json r)) (\<lambda>l s.
     (case UpdateLimit (ae_faults e) i l (dm_limits (sv_rest s)) of
        None \<Rightarrow> (statement_failed e ''update bandwidth limit'', s)
      | Some t \<Rightarrow> apply_bandwidth e ''limit updated but failed to apply: '' (answer (JSON 200 ok_body))
          (audit e ''bandwidth.update'' (''device='' @ bl_mac l) (put_limits t s)))))"

definition bwH_Delete :: "api_env \<Rightarrow> daemon handler" where
  "bwH_Delete e cx r = with_id ''id'' ''invalid limit id'' r (\<lambda>i s.
     (case DeleteLimit (ae_faults e) i (dm_limits (sv_rest s)) of
        None \<Rightarrow> (statement_failed e ''delete bandwidth limit'', s)
      | Some t \<Rightarrow> apply_bandwidth e ''limit deleted but failed to apply: '' (answer (JSON 200 ok_body))
          (audit e ''bandwidth.delete'' (''limit_id='' @ url_param r ''id'') (put_limits t s))))"

subsection \<open>Settings\<close>

definition settings_map :: "(string \<times> string) list \<Rightarrow> (string \<times> string) list" where
  "settings_map kvs = fold (\<lambda>(k, v) m. AList.update k v m) kvs []"

definition setH_Get :: "api_env \<Rightarrow> daemon handler" where
  "setH_Get e cx r s =
     (if ae_faults e ''query settings'' then (statement_failed e ''query settings'', s)
      else (JSON 200 (JObj (map (\<lambda>(k, v). (k, JStr v)) (settings_map (settings (db_of s))))), s))"

text \<open>\<^verbatim>\<open>encoding/json\<close> into a \<^verbatim>\<open>map[string]string\<close>: a null value gives the empty string, the last of equal keys wins.\<close>

fun read_setting :: "json \<Rightarrow> string option" where
  "read_setting JNull = Some []"
| "read_setting v = read_str v"

definition body_map :: "json option \<Rightarrow> (string \<times> string) list option" where
  "body_map j =
     (case json_object j of
        None \<Rightarrow> None
      | Some kvs \<Rightarrow> if list_all (\<lambda>(k, v). read_setting v \<noteq> None) kvs
          then Some (settings_map (map (\<lambda>(k, v). (k, the (read_setting v))) kvs)) else None)"

definition upsert_setting :: "string \<Rightarrow> string \<Rightarrow> db \<Rightarrow> db" where
  "upsert_setting k v d = d\<lparr>settings := AList.update k v (settings d)\<rparr>"

definition setH_Update :: "api_env \<Rightarrow> daemon handler" where
  "setH_Update e cx r = with_body (body_map (rq_json r)) (\<lambda>m s.
     (let kvs = ae_order e m in
      if ae_faults e ''begin settings'' then (statement_failed e ''begin settings'', s)
      else if list_ex (\<lambda>(k, v). ae_faults e (''upsert setting '' @ k)) kvs then (statement_failed e ''upsert setting'', s)
      else if ae_faults e ''commit settings'' then (statement_failed e ''commit settings'', s)
      else
        let s1 = audit e ''settings.update'' ''updated settings'' (put_db (fold (\<lambda>(k, v). upsert_setting k v) kvs (db_of s)) s);
            s2 = (if list_ex (\<lambda>(k, v). k \<in> {''ap_ssid'', ''ap_password'', ''ap_channel''}) kvs then go_job ApplyHotspot s1 else s1);
            s3 = (if list_ex (\<lambda>(k, v). k = ''dns_upstream'') kvs then go_job ApplyDns s2 else s2) in
        (JSON 200 ok_body, s3)))"

definition setH_ChangePassword :: "api_env \<Rightarrow> daemon handler" where
  "setH_ChangePassword e cx r = with_body (body_field read_str ''password'' [] r) (\<lambda>pw s.
     (if length pw < 8 then (JSONError 400 ''password must be at least 8 characters'', s)
      else case GetUser cx of
        None \<Rightarrow> (recovered, s)
      | Some u \<Rightarrow> (case ResetPassword (ae_bcrypt e) (ae_faults e) (ae_salt e) (u_name u) pw (sv_auth s) of
          (Some x, d) \<Rightarrow> (JSONError 500 (ae_text e (PasswordFailed x)), s\<lparr>sv_auth := d\<rparr>)
        | (None, d) \<Rightarrow> (JSON 200 ok_body, audit e ''auth.password_change'' (''user='' @ u_name u) (s\<lparr>sv_auth := d\<rparr>)))))"

text \<open>What a started goroutine does when it runs; its error is dropped.\<close>

definition run_job :: "api_env \<Rightarrow> job \<Rightarrow> admin \<Rightarrow> admin" where
  "run_job e j s =
     (case j of
        ApplyHotspot \<Rightarrow> put_host (snd (Apply_hotspot (ae_faults e) (ae_shell e) (db_of s) (host_of_admin s))) s
      | ApplyDns \<Rightarrow> put_host (snd (Apply_dns (ae_faults e) (ae_shell e) (ae_cfg e) (db_of s) (host_of_admin s))) s
      | RebootSystem \<Rightarrow> put_host (snd (snd (Run (ae_shell e) ''systemctl'' [''reboot''] (host_of_admin s)))) s)"

end
