(* ===== verification/System_Status.thy ===== *)
theory System_Status
  imports Admin_Api
begin

text \<open>
  \<^verbatim>\<open>internal/services/system.go\<close>, \<^verbatim>\<open>internal/handlers/system.go\<close>, \<^verbatim>\<open>dashboard.go\<close>, \<^verbatim>\<open>remote.go\<close> and the time series of
  \<^verbatim>\<open>trafficlog.go\<close>: what the pages show and the remaining actions of an administrator.  The files under
  \<^verbatim>\<open>/proc\<close> and \<^verbatim>\<open>/sys\<close> are files of the host; SQLite's \<^verbatim>\<open>strftime\<close> is a parameter.
\<close>

subsection \<open>System information\<close>

record SystemInfo =
  si_uptime :: string
  si_load :: string
  si_mem_total :: string
  si_mem_free :: string
  si_mem_used :: string
  si_wan :: string
  si_lan :: string
  si_wan_ip :: string
  si_lan_ip :: string
  si_wan_rx :: string
  si_wan_tx :: string

text \<open>\<^verbatim>\<open>strings.SplitN(line, ":", 2)\<close> with both parts trimmed; a line without a colon is skipped and a later line wins.\<close>

definition meminfo_line :: "string \<Rightarrow> (string \<times> string) option" where
  "meminfo_line l = (if CHR '':'' \<in> set l then (case cut (CHR '':'') l of (k, v) \<Rightarrow> Some (trim_space k, trim_space v)) else None)"

definition parseMeminfo :: "string \<Rightarrow> string \<rightharpoonup> string" where
  "parseMeminfo data =
     fold (\<lambda>l m. case meminfo_line l of None \<Rightarrow> m | Some (k, v) \<Rightarrow> m(k \<mapsto> v)) (split_on (CHR 10) data) Map.empty"

definition readStat :: "string \<Rightarrow> string \<Rightarrow> host \<Rightarrow> string" where
  "readStat iface stat h =
     (case files h (''/sys/class/net/'' @ iface @ ''/statistics/'' @ stat) of None \<Rightarrow> ''0'' | Some d \<Rightarrow> trim_space d)"

fun inet_address :: "string list \<Rightarrow> string" where
  "inet_address (f # g # fs) = (if f = ''inet'' then hd (split_on (CHR ''/'') g) else inet_address (g # fs))"
| "inet_address _ = []"

definition map_get :: "(string \<rightharpoonup> string) \<Rightarrow> string \<Rightarrow> string" where
  "map_get m k = (case m k of None \<Rightarrow> [] | Some v \<Rightarrow> v)"

definition GetInfo :: "shell \<Rightarrow> Config \<Rightarrow> host \<Rightarrow> SystemInfo \<times> host" where
  "GetInfo sh cfg h =
     (let mem = (case files h ''/proc/meminfo'' of None \<Rightarrow> Map.empty | Some d \<Rightarrow> parseMeminfo d) in
      case Run sh ''ip'' [''-4'', ''-o'', ''addr'', ''show'', WANInterface cfg] h of (res, e, h') \<Rightarrow>
      (\<lparr>si_uptime = (case files h ''/proc/uptime'' of None \<Rightarrow> []
           | Some d \<Rightarrow> (case Go_Prelude.fields d of [] \<Rightarrow> [] | f # _ \<Rightarrow> f @ ''s'')),
         si_load = (case files h ''/proc/loadavg'' of None \<Rightarrow> []
           | Some d \<Rightarrow> let fs = Go_Prelude.fields d in if 3 \<le> length fs then join '' '' (take 3 fs) else []),
         si_mem_total = map_get mem ''MemTotal'',
         si_mem_free = (if map_get mem ''MemAvailable'' = [] then map_get mem ''MemFree'' else map_get mem ''MemAvailable''),
         si_mem_used = [],
         si_wan = WANInterface cfg, si_lan = LANInterface cfg,
         si_wan_ip = (if e = None then inet_address (Go_Prelude.fields (Stdout res)) else []),
         si_lan_ip = LANGateway cfg,
         si_wan_rx = readStat (WANInterface cfg) ''rx_bytes'' h', si_wan_tx = readStat (WANInterface cfg) ''tx_bytes'' h'\<rparr>, h'))"

definition Reboot :: "shell \<Rightarrow> host \<Rightarrow> err \<times> host" where
  "Reboot sh h = (case Run sh ''systemctl'' [''reboot''] h of (_, e, h') \<Rightarrow> (e, h'))"

record ConnectivityResult =
  cn_host :: string
  cn_success :: bool
  cn_latency :: string
  cn_error :: string

text \<open>The second part of \<^verbatim>\<open>strings.Split(line, "time=")\<close>, when there is one.\<close>

definition after_time :: "string \<Rightarrow> string option" where
  "after_time line =
     (case Index line ''time='' of
        None \<Rightarrow> None
      | Some i \<Rightarrow> let rest = drop (i + 5) line in
          Some (case Index rest ''time='' of None \<Rightarrow> rest | Some j \<Rightarrow> take j rest))"

text \<open>The latency of the last line that has one.  \<^verbatim>\<open>Fields(..)[0]\<close> panics on a line that ends after \<^verbatim>\<open>time=\<close>.\<close>

fun ping_latency :: "string list \<Rightarrow> string \<Rightarrow> string option" where
  "ping_latency [] lat = Some lat"
| "ping_latency (l # ls) lat =
     (case after_time l of
        None \<Rightarrow> ping_latency ls lat
      | Some p \<Rightarrow> (case Go_Prelude.fields p of [] \<Rightarrow> None | f # _ \<Rightarrow> ping_latency ls f))"

definition probe_hosts :: "string list" where
  "probe_hosts = [''1.1.1.1'', ''8.8.8.8'', ''google.com'']"

fun probe_loop :: "shell \<Rightarrow> string list \<Rightarrow> host \<Rightarrow> ConnectivityResult list option \<times> host" where
  "probe_loop sh [] h = (Some [], h)"
| "probe_loop sh (a # as) h =
     (case Run sh ''ping'' [''-c'', ''1'', ''-W'', ''3'', a] h of (res, e, h1) \<Rightarrow>
        case (case e of
                Some x \<Rightarrow> Some \<lparr>cn_host = a, cn_success = False, cn_latency = [], cn_error = x\<rparr>
              | None \<Rightarrow> map_option (\<lambda>lat. \<lparr>cn_host = a, cn_success = True, cn_latency = lat, cn_error = []\<rparr>)
                  (ping_latency (split_on (CHR 10) (Stdout res)) [])) of
          None \<Rightarrow> (None, h1)
        | Some c \<Rightarrow> (case probe_loop sh as h1 of (cs, h2) \<Rightarrow> (map_option (\<lambda>cs. c # cs) cs, h2)))"

definition TestConnectivity :: "shell \<Rightarrow> host \<Rightarrow> ConnectivityResult list option \<times> host" where
  "TestConnectivity sh h = probe_loop sh probe_hosts h"

subsection \<open>The time series\<close>

record TimePoint =
  tp_time :: string
  tp_queries :: nat
  tp_allowed :: nat
  tp_blocked :: nat

text \<open>\<open>bucket\<close> is \<^verbatim>\<open>strftime\<close> with the format of the range; it is \<open>None\<close> for a timestamp that SQLite cannot read, a row
  that the scan then skips.\<close>

definition series_since :: "string \<Rightarrow> string" where
  "series_since rng = (if rng = ''1h'' then ''-1 hour'' else if rng = ''7d'' then ''-7 days'' else if rng = ''30d'' then ''-30 days'' else ''-1 day'')"

definition TimeSeries :: "faults \<Rightarrow> (string \<Rightarrow> string option) \<Rightarrow> (string \<Rightarrow> string \<Rightarrow> string option) \<Rightarrow> string \<Rightarrow> log_tables \<Rightarrow> TimePoint list" where
  "TimeSeries fails clock bucket rng t =
     (let es = filter (\<lambda>e. case clock (series_since rng) of None \<Rightarrow> False | Some c \<Rightarrow> str_le c (te_timestamp e)) (query_log t);
          ks = sort_by str_le (remdups (List.map_filter (\<lambda>e. bucket rng (te_timestamp e)) es));
          cnt = (\<lambda>k P. length (filter (\<lambda>e. bucket rng (te_timestamp e) = Some k \<and> P e) es)) in
      if fails ''time series'' then []
      else map (\<lambda>k. \<lparr>tp_time = k, tp_queries = cnt k (\<lambda>e. te_source e = ''dns''),
             tp_allowed = cnt k (\<lambda>e. te_action e = ''allowed''), tp_blocked = cnt k (\<lambda>e. te_action e = ''blocked'')\<rparr>) ks)"

subsection \<open>Handlers of the system pages\<close>

record system_env = api_env +
  se_fts :: "string \<Rightarrow> TrafficEntry \<Rightarrow> bool"
  se_clock :: "string \<Rightarrow> string option"
  se_bucket :: "string \<Rightarrow> string \<Rightarrow> string option"
  se_day_ago :: string
  se_machine :: machine
  se_tail :: "string \<Rightarrow> tail_status option"
  se_serve :: "string \<Rightarrow> serve_status option"
  se_installed :: bool
  se_fits :: bool
  se_info :: "SystemInfo \<Rightarrow> json"
  se_probes :: "ConnectivityResult list \<Rightarrow> json"
  se_series :: "TimePoint list \<Rightarrow> json"

abbreviation env_of :: "system_env \<Rightarrow> api_env" where "env_of e \<equiv> api_env.truncate e"

definition sysH_Info :: "system_env \<Rightarrow> daemon handler" where
  "sysH_Info e cx r s =
     (case GetInfo (ae_shell e) (ae_cfg e) (host_of_admin s) of (info, h) \<Rightarrow> (JSON 200 (se_info e info), put_host h s))"

definition sysH_Reboot :: "system_env \<Rightarrow> daemon handler" where
  "sysH_Reboot e cx r s =
     (JSON 200 (JObj [(''status'', JStr ''rebooting'')]),
      go_job RebootSystem (audit (env_of e) ''system.reboot'' ''user requested reboot'' s))"

definition sysH_TestConnectivity :: "system_env \<Rightarrow> daemon handler" where
  "sysH_TestConnectivity e cx r s =
     (case TestConnectivity (ae_shell e) (host_of_admin s) of
        (None, h) \<Rightarrow> (recovered, put_host h s)
      | (Some cs, h) \<Rightarrow> (JSON 200 (se_probes e cs), put_host h s))"

text \<open>\<^verbatim>\<open>strconv.Atoi\<close> with its error ignored: zero for a malformed number, the end of the range on overflow.\<close>

definition atoi :: "string \<Rightarrow> int" where
  "atoi s =
     (let neg = has_prefix s ''-''; ds = (if s \<noteq> [] \<and> hd s \<in> {CHR ''-'', CHR ''+''} then tl s else s);
          n = int (dec_val ds) in
      if ds = [] \<or> \<not> list_all is_digit ds then 0
      else if neg then max (- (2 ^ 63)) (- n) else min (2 ^ 63 - 1) n)"

definition sysH_TrafficLog :: "system_env \<Rightarrow> daemon handler" where
  "sysH_TrafficLog e cx r s =
     (let q = query_get (rq_query r) in
      (JSON 200 (ae_show e (PageView (QueryPaginated (ae_faults e) (se_fts e)
         \<lparr>tf_page = atoi (q ''page''), tf_per_page = atoi (q ''per_page''), tf_action = q ''action'', tf_query = q ''q'',
           tf_from = q ''from'', tf_to = q ''to'', tf_source = q ''source'', tf_protocol = q ''protocol''\<rparr> (dm_log (sv_rest s))))), s))"

definition sysH_ClearTrafficLog :: "system_env \<Rightarrow> daemon handler" where
  "sysH_ClearTrafficLog e cx r s =
     (case Clear (ae_faults e) (dm_log (sv_rest s)) of
        (False, t) \<Rightarrow> (statement_failed (env_of e) ''clear log'', put_log t s)
      | (True, t) \<Rightarrow> (JSON 200 ok_body, audit (env_of e) ''traffic.clear'' ''user cleared traffic log'' (put_log t s)))"

definition sysH_MutedList :: "system_env \<Rightarrow> daemon handler" where
  "sysH_MutedList e cx r s =
     (case ListMuted (ae_faults e) (dm_log (sv_rest s)) of
        None \<Rightarrow> (statement_failed (env_of e) ''query muted domains'', s)
      | Some ms \<Rightarrow> (JSON 200 (ae_show e (MutedView ms)), s))"

definition sysH_MutedAdd :: "system_env \<Rightarrow> daemon handler" where
  "sysH_MutedAdd e cx r = with_body (body_field read_str ''domain'' [] r) (\<lambda>dom s.
     (case AddMuted (ae_faults e) dom (dm_log (sv_rest s)) (dm_tlog (sv_rest s)) of
        (None, t, l) \<Rightarrow> (JSONError 400 (ae_text e (StatementFailed ''mute'')), put_tlog l (put_log t s))
      | (Some i, t, l) \<Rightarrow> (JSON 200 (id_body i), audit (env_of e) ''traffic.mute'' (''domain='' @ dom) (put_tlog l (put_log t s)))))"

definition sysH_MutedRemove :: "system_env \<Rightarrow> daemon handler" where
  "sysH_MutedRemove e cx r = with_id ''id'' ''invalid id'' r (\<lambda>i s.
     (case RemoveMuted (ae_faults e) i (dm_log (sv_rest s)) (dm_tlog (sv_rest s)) of
        (False, t, l) \<Rightarrow> (statement_failed (env_of e) ''delete muted domain'', put_tlog l (put_log t s))
      | (True, t, l) \<Rightarrow> (JSON 200 ok_body, audit (env_of e) ''traffic.unmute'' (''id='' @ url_param r ''id'') (put_tlog l (put_log t s)))))"

definition sysH_StatsSummary :: "system_env \<Rightarrow> daemon handler" where
  "sysH_StatsSummary e cx r s =
     (JSON 200 (ae_show e (SummaryView (Summary (ae_faults e) (se_clock e) (query_get (rq_query r) ''range'') (dm_log (sv_rest s))))), s)"

definition stats_limit :: "request \<Rightarrow> int" where
  "stats_limit r = (let n = atoi (query_get (rq_query r) ''limit''); n = (if n \<le> 0 then 50 else n) in if n > 200 then 200 else n)"

definition sysH_StatsTopDomains :: "system_env \<Rightarrow> daemon handler" where
  "sysH_StatsTopDomains e cx r s =
     (let q = query_get (rq_query r) in
      (JSON 200 (ae_show e (CountsView (TopDomains (ae_faults e) (se_clock e) (q ''action'') (q ''range'') (q ''q'') (stats_limit r) (dm_log (sv_rest s))))), s))"

definition sysH_StatsTopClients :: "system_env \<Rightarrow> daemon handler" where
  "sysH_StatsTopClients e cx r s =
     (JSON 200 (ae_show e (CountsView (TopClients (ae_faults e) (se_clock e) (query_get (rq_query r) ''range'') (stats_limit r) (dm_log (sv_rest s))))), s)"

definition sysH_StatsTimeSeries :: "system_env \<Rightarrow> daemon handler" where
  "sysH_StatsTimeSeries e cx r s =
     (JSON 200 (se_series e (TimeSeries (ae_faults e) (se_clock e) (se_bucket e) (query_get (rq_query r) ''range'') (dm_log (sv_rest s)))), s)"

definition sysH_AuditLog :: "system_env \<Rightarrow> daemon handler" where
  "sysH_AuditLog e cx r s =
     (case Recent (ae_faults e) 50 s of
        Inl _ \<Rightarrow> (statement_failed (env_of e) ''query audit'', s)
      | Inr ls \<Rightarrow> (JSON 200 (ae_show e (AuditView ls)), s))"

subsection \<open>Handlers of the remote-access page\<close>

text \<open>\<^verbatim>\<open>decodeJSON\<close>: the value has to lie in the first 64 kilobytes of the body, and every key has to name a field.\<close>

definition decodeJSON :: "bool \<Rightarrow> string list \<Rightarrow> json option \<Rightarrow> (string \<times> json) list option" where
  "decodeJSON fits names j =
     (if \<not> fits then None
      else case json_object j of
        None \<Rightarrow> None
      | Some kvs \<Rightarrow> if list_all (\<lambda>(k, v). list_ex (json_key k) names) kvs then Some kvs else None)"

definition remote_failed :: "system_env \<Rightarrow> int \<Rightarrow> remote_error \<Rightarrow> response" where
  "remote_failed e status x = JSONError status (ae_text e (RemoteFailed x))"

definition put_cli :: "cli list \<Rightarrow> admin \<Rightarrow> admin" where
  "put_cli c s = s\<lparr>sv_rest := (sv_rest s)\<lparr>dm_cli := c\<rparr>\<rparr>"

definition audit_user :: "system_env \<Rightarrow> request_context \<Rightarrow> string \<Rightarrow> (string \<Rightarrow> string) \<Rightarrow> admin \<Rightarrow> admin" where
  "audit_user e cx act details s = (case GetUser cx of None \<Rightarrow> s | Some u \<Rightarrow> audit (env_of e) act (details (u_name u)) s)"

definition remote_status :: "system_env \<Rightarrow> admin \<Rightarrow> RemoteStatus \<times> bool \<times> admin" where
  "remote_status e s =
     (case Remote.Status (se_tail e) (se_serve e) (se_machine e) (se_installed e) (dm_cli (sv_rest s)) of
        (st, ok, c) \<Rightarrow> (st, ok, put_cli c s))"

definition run_remote :: "system_env \<Rightarrow> int \<Rightarrow> (machine \<Rightarrow> cli list \<Rightarrow> remote_error option \<times> cli list) \<Rightarrow>
    (admin \<Rightarrow> response \<times> admin) \<Rightarrow> admin \<Rightarrow> response \<times> admin" where
  "run_remote e status f k s =
     (case f (se_machine e) (dm_cli (sv_rest s)) of
        (Some x, c) \<Rightarrow> (remote_failed e status x, put_cli c s)
      | (None, c) \<Rightarrow> k (put_cli c s))"

definition ok_true :: json where
  "ok_true = JObj [(''ok'', JBool True)]"

definition remoteH_Status :: "system_env \<Rightarrow> daemon handler" where
  "remoteH_Status e cx r s =
     (case remote_status e s of (st, ok, s') \<Rightarrow>
        if \<not> ok then (statement_failed (env_of e) ''parse status'', s') else (JSON 200 (ae_show e (RemoteView st)), s'))"

definition remoteH_Install :: "system_env \<Rightarrow> daemon handler" where
  "remoteH_Install e cx r = run_remote e 500 Install (\<lambda>s.
     (JSON 200 ok_true, audit_user e cx ''remote.install'' (\<lambda>u. u @ '' installed Tailscale on the Pi'') s))"

definition remoteH_Up :: "system_env \<Rightarrow> daemon handler" where
  "remoteH_Up e cx r s =
     (case Option.bind (decodeJSON (se_fits e) [''auth_key''] (rq_json r)) (json_str ''auth_key'') of
        None \<Rightarrow> (JSONError 400 (ae_text e BodyRejected), s)
      | Some key \<Rightarrow> run_remote e 502 (\<lambda>m. Up m key) (\<lambda>s.
          (JSON 200 ok_true, audit_user e cx ''remote.up'' (\<lambda>u. u @ '' connected the Pi to a tailnet'') s)) s)"

definition funnel_done :: "system_env \<Rightarrow> request_context \<Rightarrow> string \<Rightarrow> string \<Rightarrow> admin \<Rightarrow> response \<times> admin" where
  "funnel_done e cx act what s =
     (case remote_status e (audit_user e cx act (\<lambda>u. u @ what) s) of (st, _, s') \<Rightarrow> (JSON 200 (ae_show e (RemoteView st)), s'))"

definition remoteH_EnableBLEFunnel :: "system_env \<Rightarrow> daemon handler" where
  "remoteH_EnableBLEFunnel e cx r =
     run_remote e 502 EnableBLEFunnel (funnel_done e cx ''remote.funnel.ble.enable'' '' exposed /api/ble via Tailscale Funnel'')"

definition remoteH_DisableBLEFunnel :: "system_env \<Rightarrow> daemon handler" where
  "remoteH_DisableBLEFunnel e cx r =
     run_remote e 502 DisableBLEFunnel (funnel_done e cx ''remote.funnel.ble.disable'' '' hid /api/ble from the public internet'')"

definition remoteH_Logout :: "system_env \<Rightarrow> daemon handler" where
  "remoteH_Logout e cx r = run_remote e 502 Logout_remote (\<lambda>s.
     (JSON 200 ok_true, audit_user e cx ''remote.logout'' (\<lambda>u. u @ '' disconnected the Pi from the tailnet'') s))"

subsection \<open>The dashboard\<close>

definition compactAge :: "time \<Rightarrow> string" where
  "compactAge d =
     (if d < 60 * 1000000000 then int_str (max 0 d div 1000000000) @ ''s''
      else if d < 3600 * 1000000000 then int_str (d div (60 * 1000000000)) @ ''m''
      else if d < 24 * 3600 * 1000000000 then int_str (d div (3600 * 1000000000)) @ ''h''
      else int_str (d div (24 * 3600 * 1000000000)) @ ''d'')"

text \<open>\<^verbatim>\<open>Truncate(time.Second).String()\<close>.\<close>

definition truncated :: "time \<Rightarrow> string" where
  "truncated d = (if d \<le> - 1000000000 then ''-'' @ seconds_str ((- d) div 1000000000) else seconds_str (max 0 d div 1000000000))"

definition middle_dot :: string where
  "middle_dot = [CHR '' '', CHR 0xC2, CHR 0xB7, CHR '' '']"

definition link_text :: "time \<Rightarrow> LockWatchStatus \<Rightarrow> string" where
  "link_text now w =
     (if st_SessionID w = [] then ''Not attached''
      else ''Attached'' @ (if st_AttachedSince w \<noteq> 0 then '' '' @ compactAge (now - st_AttachedSince w) else []) @
        middle_dot @ int_str (st_FramesSeen w) @ '' frame'' @ (if st_FramesSeen w \<noteq> 1 then ''s'' else []))"

definition lock_rows :: "time \<Rightarrow> LockWatchStatus \<Rightarrow> (string \<times> json) list" where
  "lock_rows now w =
     [(''lock_state'', JStr (if \<not> st_HaveStatus w then ''Unknown'' else if st_Locked w then ''Locked'' else ''Unlocked'')),
      (''lock_occupant'', JStr (if \<not> st_HaveStatus w then ''Unknown'' else if st_Present w then ''Present'' else ''Empty'')),
      (''lock_wifi_verdict'', JStr (if st_APShouldBeUp w then ''Should be UP'' else ''Should be DOWN'')),
      (''lock_last_signal'', JStr (if st_LastSignal w = 0 then ''never'' else truncated (now - st_LastSignal w) @ '' ago'')),
      (''lock_link'', JStr (link_text now w))]"

definition dashH_API :: "system_env \<Rightarrow> daemon handler" where
  "dashH_API e cx r s =
     (case GetInfo (ae_shell e) (ae_cfg e) (host_of_admin s) of (info, h) \<Rightarrow>
       let (on, total) = (case GetDeviceCount (ae_faults e) (secs (ae_now e)) (db_of s) of None \<Rightarrow> (0, 0) | Some c \<Rightarrow> c);
           rules = (case ListRules (ae_faults e) (db_of s) of None \<Rightarrow> [] | Some rs \<Rightarrow> rs);
           fs = (case List_filters (ae_faults e) (db_of s) of Inl _ \<Rightarrow> [] | Inr fs \<Rightarrow> fs);
           num = (\<lambda>n. JInt (int n)) in
       (JSON 200 (JObj ([(''devices_online'', num on), (''devices_total'', num total),
           (''firewall_rules'', num (length (filter r_enabled rules))), (''filters_total'', num (length fs)),
           (''filters_enabled'', num (length (filter f_enabled fs))), (''protected_deny'', num ProtectedDenyCount),
           (''blocked_24h'', num (CountByActionSince (ae_faults e) ''blocked'' (se_day_ago e) (dm_log (sv_rest s)))),
           (''allowed_24h'', num (CountByActionSince (ae_faults e) ''allowed'' (se_day_ago e) (dm_log (sv_rest s)))),
           (''wan_reachable'', JBool True), (''system'', se_info e info)] @
         lock_rows (ae_now e) (Lock_Watch.Status (ae_now e) (dm_watch (sv_rest s))))), put_host h s))"

subsection \<open>The series and the summary\<close>

lemma length_filter_partition:
  assumes "\<forall>e\<in>set es. b e \<in> Some ` set ks" "distinct ks"
  shows "sum_list (map (\<lambda>k. length (filter (\<lambda>e. b e = Some k \<and> P e) es)) ks) = length (filter P es)"
  using assms(1)
proof (induction es)
  case (Cons e es)
  then obtain k0 where k0: "b e = Some k0" "k0 \<in> set ks" by auto
  have "sum_list (map (\<lambda>k. length (filter (\<lambda>x. b x = Some k \<and> P x) (e # es))) ks) =
    sum_list (map (\<lambda>k. (if k = k0 \<and> P e then 1 else 0) + length (filter (\<lambda>x. b x = Some k \<and> P x) es)) ks)"
    by (intro arg_cong [where f = sum_list] map_cong) (auto simp: k0)
  also have "\<dots> = sum_list (map (\<lambda>k. if k = k0 \<and> P e then 1 else 0) ks) + length (filter P es)"
    using Cons by (simp add: sum_list_addf)
  also have "sum_list (map (\<lambda>k. if k = k0 \<and> P e then 1 else 0) ks) = (if P e then 1 else (0::nat))"
  proof -
    have "sum_list (map (\<lambda>k. if k = k0 then 1 else (0::nat)) ys) = count_list ys k0" for ys by (induction ys) auto
    moreover have "count_list ks k0 = 1" using assms(2) k0(2) by (induction ks) (auto simp: count_list_0_iff)
    ultimately show ?thesis by simp
  qed
  finally show ?case by simp
qed simp

lemma map_filter_iff: "k \<in> set (List.map_filter f xs) \<longleftrightarrow> (\<exists>x\<in>set xs. f x = Some k)"
  by (induction xs) (auto simp: List.map_filter_simps split: option.splits)

lemma same_range: "rng \<noteq> ''all'' \<Longrightarrow>
  timeWhereClause clock rng e = (case clock (series_since rng) of None \<Rightarrow> False | Some c \<Rightarrow> str_le c (te_timestamp e))"
  by (auto simp: timeWhereClause_def series_since_def Let_def)

text \<open>
  The chart and the counters agree.  For every range but \<^verbatim>\<open>all\<close>, when SQLite can read the timestamps, the points of the
  time series have distinct times in ascending order and their counts add up to the counts of the summary.
\<close>

theorem series_sums_to_summary:
  assumes "rng \<noteq> ''all''" "\<forall>e\<in>set (query_log t). bucket rng (te_timestamp e) \<noteq> None"
    and "ps = TimeSeries no_faults clock bucket rng t" "sm = Summary no_faults clock rng t"
  shows "distinct (map tp_time ps) \<and> sorted_wrt str_le (map tp_time ps) \<and>
    sum_list (map tp_queries ps) = ss_queries sm \<and> sum_list (map tp_allowed ps) = ss_allowed sm \<and>
    sum_list (map tp_blocked ps) = ss_blocked sm"
proof -
  let ?es = "filter (timeWhereClause clock rng) (query_log t)"
  let ?b = "\<lambda>e. bucket rng (te_timestamp e)"
  let ?ks = "sort_by str_le (remdups (List.map_filter ?b ?es))"
  have ps: "ps = map (\<lambda>k. \<lparr>tp_time = k, tp_queries = length (filter (\<lambda>e. ?b e = Some k \<and> te_source e = ''dns'') ?es),
      tp_allowed = length (filter (\<lambda>e. ?b e = Some k \<and> te_action e = ''allowed'') ?es),
      tp_blocked = length (filter (\<lambda>e. ?b e = Some k \<and> te_action e = ''blocked'') ?es)\<rparr>) ?ks"
    unfolding assms(3) TimeSeries_def no_faults_def Let_def same_range [OF assms(1), of clock, symmetric] if_False ..
  have d: "distinct ?ks" by (simp add: distinct_sort_by)
  have "\<forall>e\<in>set ?es. ?b e \<in> Some ` set ?ks"
  proof
    fix e assume e: "e \<in> set ?es"
    with assms(2) obtain k where k: "?b e = Some k" by auto
    with e have "k \<in> set (List.map_filter ?b ?es)" unfolding map_filter_iff by blast
    with k show "?b e \<in> Some ` set ?ks" by simp
  qed
  note sums = length_filter_partition [OF this d]
  have "map tp_time ps = ?ks" by (simp add: ps comp_def)
  moreover have "sorted_wrt str_le ?ks" by (rule sorted_sort_by [OF str_le_total str_le_trans])
  moreover have "sum_list (map tp_queries ps) = ss_queries sm" "sum_list (map tp_allowed ps) = ss_allowed sm"
      "sum_list (map tp_blocked ps) = ss_blocked sm"
    unfolding ps map_map comp_def TimePoint.simps sums by (simp_all add: assms(4) Summary_def no_faults_def Let_def)
  ultimately show ?thesis using d by simp
qed

text \<open>A log of two rows, of which the first is older than the range.\<close>

definition log_row :: "int \<Rightarrow> string \<Rightarrow> TrafficEntry" where
  "log_row i at = \<lparr>te_id = i, te_timestamp = at, te_src_ip = ''192.168.4.10'', te_dst_ip = [], te_dst_port = [],
     te_protocol = [], te_action = ''allowed'', te_src_mac = [], te_domain = ''maps.example.com'', te_source = ''dns'', te_policy = []\<rparr>"

definition two_days :: log_tables where
  "two_days = no_log\<lparr>query_log := [log_row 1 ''2026-01-01 10:00'', log_row 2 ''2026-01-02 10:30'', log_row 3 ''2026-01-02 11:00'']\<rparr>"

theorem series_sums_to_summary_witness:
  "sum_list (map tp_queries (TimeSeries no_faults (\<lambda>_. Some ''2026-01-02'') (\<lambda>_ ts. Some (take 10 ts)) ''24h'' two_days)) = 2"
proof -
  let ?b = "\<lambda>_ ts. Some (take 10 ts)" and ?c = "\<lambda>_. Some ''2026-01-02''"
  have "ss_queries (Summary no_faults ?c ''24h'' two_days) = 2"
    by (simp add: Summary_def two_days_def no_log_def log_row_def timeWhereClause_def no_faults_def Let_def)
  moreover have "\<forall>e\<in>set (query_log two_days). ?b ''24h'' (te_timestamp e) \<noteq> None" by simp
  ultimately show ?thesis
    using series_sums_to_summary [of "''24h''" two_days ?b _ ?c "Summary no_faults ?c ''24h'' two_days", OF _ _ refl refl] by simp
qed

end
