(* ===== verification/Go_Base64.thy ===== *)
theory Go_Base64
  imports Go_Crypto
begin

text \<open>
  \<^verbatim>\<open>base64.StdEncoding\<close>: the padded alphabet with plus and slash.  The decoder skips line breaks, wants
  whole groups of four and padding only at the end, and ignores the unused bits of the last digit,
  as the library's non-strict decoder does.
\<close>

definition std_digit :: "nat \<Rightarrow> char" where
  "std_digit d =
     (if d < 26 then char_of (65 + d) else if d < 52 then char_of (71 + d) else if d < 62 then char_of (d - 4)
      else if d = 62 then CHR ''+'' else CHR ''/'')"

definition sextet :: "char \<Rightarrow> nat option" where
  "sextet c =
     (let n = of_char c in
      if 65 \<le> n \<and> n \<le> 90 then Some (n - 65)
      else if 97 \<le> n \<and> n \<le> 122 then Some (n - 71)
      else if 48 \<le> n \<and> n \<le> 57 then Some (n + 4)
      else if c = CHR ''+'' then Some 62 else if c = CHR ''/'' then Some 63 else None)"

fun std_encode :: "bytes \<Rightarrow> string" where
  "std_encode (a # b # c # bs) =
     map std_digit [unat a div 4, unat a mod 4 * 16 + unat b div 16, unat b mod 16 * 4 + unat c div 64, unat c mod 64] @
     std_encode bs"
| "std_encode [a, b] = map std_digit [unat a div 4, unat a mod 4 * 16 + unat b div 16, unat b mod 16 * 4] @ ''=''"
| "std_encode [a] = map std_digit [unat a div 4, unat a mod 4 * 16] @ ''==''"
| "std_encode [] = []"

definition group3 :: "nat \<Rightarrow> nat \<Rightarrow> nat \<Rightarrow> nat \<Rightarrow> bytes" where
  "group3 w x y z = [word_of_nat (w * 4 + x div 16), word_of_nat (x mod 16 * 16 + y div 4), word_of_nat (y mod 4 * 64 + z)]"

fun decode_groups :: "string \<Rightarrow> bytes option" where
  "decode_groups [] = Some []"
| "decode_groups (a # b # c # d # r) =
     (case (sextet a, sextet b) of
        (Some w, Some x) \<Rightarrow>
          (if d = CHR ''='' \<and> r = [] then
             (if c = CHR ''='' then Some (take 1 (group3 w x 0 0))
              else case sextet c of None \<Rightarrow> None | Some y \<Rightarrow> Some (take 2 (group3 w x y 0)))
           else (case (sextet c, sextet d) of
             (Some y, Some z) \<Rightarrow> map_option (\<lambda>bs. group3 w x y z @ bs) (decode_groups r)
           | _ \<Rightarrow> None))
      | _ \<Rightarrow> None)"
| "decode_groups _ = None"

definition std_decode :: "string \<Rightarrow> bytes option" where
  "std_decode s = decode_groups (filter (\<lambda>c. c \<noteq> CHR 10 \<and> c \<noteq> CHR 13) s)"

lemma ord_std_digit:
  "d < 64 \<Longrightarrow> (of_char (std_digit d) :: nat) =
     (if d < 26 then 65 + d else if d < 52 then 71 + d else if d < 62 then d - 4 else if d = 62 then 43 else 47)"
  by (auto simp: std_digit_def of_char_of take_bit_eq_mod)

lemma sextet_digit: "d < 64 \<Longrightarrow> sextet (std_digit d) = Some d \<and> std_digit d \<noteq> CHR ''='' \<and> std_digit d \<noteq> CHR 10 \<and> std_digit d \<noteq> CHR 13"
proof -
  assume d: "d < 64"
  have "std_digit d \<noteq> c" if "(of_char (std_digit d) :: nat) \<noteq> of_char c" for c using that by auto
  then have "std_digit d \<noteq> CHR ''='' \<and> std_digit d \<noteq> CHR 10 \<and> std_digit d \<noteq> CHR 13" using ord_std_digit [OF d] by (auto split: if_splits)
  moreover have "sextet (std_digit d) = Some d"
  proof -
    consider "d < 62" | "d = 62" | "d = 63" using d by linarith
    then show ?thesis by cases (auto simp: sextet_def Let_def ord_std_digit std_digit_def [of 62] std_digit_def [of 63])
  qed
  ultimately show ?thesis by simp
qed

lemma byte_bound: "unat (a :: byte) < 256"
  using unsigned_less [of a, where 'a = nat] by simp

lemma sextet_bounds:
  "unat (a :: byte) div 4 < 64" "unat (a :: byte) mod 4 * 16 + unat (b :: byte) div 16 < 64"
  "unat (b :: byte) mod 16 * 4 + unat (c :: byte) div 64 < 64" "unat (c :: byte) mod 64 < 64"
  "unat (a :: byte) mod 4 * 16 < 64" "unat (b :: byte) mod 16 * 4 < 64"
  using byte_bound [of a] byte_bound [of b] byte_bound [of c] by auto

lemma group3_digits:
  "group3 (unat a div 4) (unat a mod 4 * 16 + unat b div 16) (unat b mod 16 * 4 + unat c div 64) (unat c mod 64) = [a, b, c]"
proof -
  have "unat b div 16 < 16" "unat c div 64 < 4" using byte_bound [of b] byte_bound [of c] by auto
  then have "unat a div 4 * 4 + (unat a mod 4 * 16 + unat b div 16) div 16 = unat a"
    "(unat a mod 4 * 16 + unat b div 16) mod 16 * 16 + (unat b mod 16 * 4 + unat c div 64) div 4 = unat b"
    "(unat b mod 16 * 4 + unat c div 64) mod 4 * 64 + unat c mod 64 = unat c"
    by (auto simp: div_mult_mod_eq)
  then show ?thesis by (simp add: group3_def)
qed

lemma decode_encode: "decode_groups (std_encode bs) = Some bs"
proof (induction bs rule: std_encode.induct)
  case (1 a b c bs)
  then show ?case
    using group3_digits [of a b c] by (simp add: sextet_digit sextet_bounds)
next
  case (2 a b)
  then show ?case
    using group3_digits [of a b 0] by (simp add: sextet_digit sextet_bounds)
next
  case (3 a)
  then show ?case
    using group3_digits [of a 0 0] by (simp add: sextet_digit sextet_bounds)
qed simp

lemma encode_no_breaks: "filter (\<lambda>c. c \<noteq> CHR 10 \<and> c \<noteq> CHR 13) (std_encode bs) = std_encode bs"
  by (induction bs rule: std_encode.induct) (simp_all add: sextet_digit sextet_bounds)

lemma std_decode_encode: "std_decode (std_encode bs) = Some bs"
  by (simp add: std_decode_def encode_no_breaks decode_encode)

end
