(* ===== verification/Ble_Api.thy ===== *)
theory Ble_Api
  imports System_Status Go_Base64 "HOL-Library.Sublist"
begin

text \<open>
  \<^verbatim>\<open>internal/handlers/tesla.go\<close>, \<^verbatim>\<open>tesla_session.go\<close> and \<^verbatim>\<open>tesla_tokens.go\<close>: the command API of the bearers and the
  administration of their tokens.  The radio, the key file and the SDK's request are in the record
  \<open>ble_env\<close>; so is the exchange of one frame, whose critical sections and their interleaving are in
  \<open>BLE_Service\<close>.
\<close>

record ble_env = system_env +
  be_pem :: "string option"
  be_seed :: bytes
  be_acquires :: "string \<Rightarrow> bool"
  be_rnd :: "string option"
  be_call :: nat
  be_exchange :: "string \<Rightarrow> bytes \<Rightarrow> time \<Rightarrow> BLESessionService \<Rightarrow> (ble_error + bytes) \<times> BLESessionService"
  be_on_curve :: "bytes \<Rightarrow> bool"
  be_add_key :: "string \<Rightarrow> bytes \<Rightarrow> bool"
  be_upgrades :: bool

abbreviation sys_of :: "ble_env \<Rightarrow> system_env" where "sys_of e \<equiv> system_env.truncate e"

definition put_ble :: "BLESessionService \<Rightarrow> admin \<Rightarrow> admin" where
  "put_ble b s = s\<lparr>sv_rest := (sv_rest s)\<lparr>dm_ble := b\<rparr>\<rparr>"

definition put_tokens :: "token_table \<Rightarrow> admin \<Rightarrow> admin" where
  "put_tokens t s = s\<lparr>sv_tokens := t\<rparr>"

definition no_content :: response where
  "no_content = \<lparr>rp_status = 204, rp_headers = [], rp_cookies = [], rp_body = NoBody\<rparr>"

definition strict_str :: "ble_env \<Rightarrow> string \<Rightarrow> request \<Rightarrow> string option" where
  "strict_str e k r = Option.bind (decodeJSON (se_fits e) [k] (rq_json r)) (json_str k)"

definition with_strict :: "ble_env \<Rightarrow> 'a option \<Rightarrow> ('a \<Rightarrow> admin \<Rightarrow> response \<times> admin) \<Rightarrow> admin \<Rightarrow> response \<times> admin" where
  "with_strict e v body s = (case v of None \<Rightarrow> (JSONError 400 (ae_text e BodyRejected), s) | Some x \<Rightarrow> body x s)"

subsection \<open>Configuration and enrolment\<close>

definition teslaH_PairingInfo :: "ble_env \<Rightarrow> daemon handler" where
  "teslaH_PairingInfo e cx r s =
     (JSON 200 (JObj [(''vin'', JStr (VIN (ae_faults e) (db_of s))), (''paired'', JBool (IsPaired (ae_faults e) (db_of s) (dm_tesla (sv_rest s)))),
        (''public_key_pem'', JStr (case be_pem e of None \<Rightarrow> [] | Some p \<Rightarrow> p))]), s)"

definition teslaH_SetVIN :: "ble_env \<Rightarrow> daemon handler" where
  "teslaH_SetVIN e cx r = with_strict e (strict_str e ''vin'' r) (\<lambda>vin s.
     (case SetVIN (ae_faults e) vin (db_of s) of
        (Some x, d) \<Rightarrow> (JSONError 400 (ae_text e (VinFailed x)), put_db d s)
      | (None, d) \<Rightarrow> (JSON 200 (JObj [(''vin'', JStr vin)]),
          audit_user (sys_of e) cx ''tesla.set_vin'' (\<lambda>u. u @ '' set VIN to '' @ vin) (put_db d s))))"

text \<open>\<^verbatim>\<open>RequestPairingExternal\<close>: the checks of the key and of the VIN, then the request over the radio.\<close>

datatype pair_error = BadPoint nat | NotOnCurve | NoVIN | SendFailed

definition RequestPairingExternal :: "(bytes \<Rightarrow> bool) \<Rightarrow> (string \<Rightarrow> bytes \<Rightarrow> bool) \<Rightarrow> faults \<Rightarrow> db \<Rightarrow> bytes \<Rightarrow> pair_error option" where
  "RequestPairingExternal on_curve add_key fails d pub =
     (if length pub \<noteq> 65 \<or> hd pub \<noteq> 4 then Some (BadPoint (length pub))
      else if \<not> on_curve pub then Some NotOnCurve
      else case requireVIN fails d of
        None \<Rightarrow> Some NoVIN
      | Some vin \<Rightarrow> if add_key vin pub then None else Some SendFailed)"

definition preempt_live :: "BLESessionService \<Rightarrow> BLESessionService" where
  "preempt_live b =
     (case CurrentSession b of
        None \<Rightarrow> b
      | Some i \<Rightarrow> (case Close i b of Inl _ \<Rightarrow> b | Inr (_, b') \<Rightarrow> b'))"

definition teslaH_PairExternalPubkey :: "(pair_error \<Rightarrow> string) \<Rightarrow> ble_env \<Rightarrow> daemon handler" where
  "teslaH_PairExternalPubkey text e cx r = with_strict e (strict_str e ''public_key_b64'' r) (\<lambda>b64 s.
     (case std_decode b64 of
        None \<Rightarrow> (JSONError 400 (''invalid base64: '' @ ae_text e BodyRejected), s)
      | Some pub \<Rightarrow>
          let s1 = put_ble (preempt_live (dm_ble (sv_rest s))) s in
          (case RequestPairingExternal (be_on_curve e) (be_add_key e) (ae_faults e) (db_of s1) pub of
             Some x \<Rightarrow> (JSONError 502 (text x), s1)
           | None \<Rightarrow> (JSON 200 (JObj [(''requested'', JBool True)]),
               audit_user (sys_of e) cx ''tesla.pair_request_external'' (\<lambda>u. u @ '' enrolled an external pubkey on the car'') s1))))"

definition teslaH_State :: "ble_env \<Rightarrow> daemon handler" where
  "teslaH_State e cx r s =
     (JSON 200 (JObj [(''snapshot'', JObj []),
        (''note'', JStr ''state polling moved to client-side (Thread C); this endpoint is a connectivity stub'')]), s)"

definition command_limit :: "string \<Rightarrow> int" where
  "command_limit v = (case parse_int64 v of Some n \<Rightarrow> if 0 < n \<and> n \<le> 200 then n else 20 | None \<Rightarrow> 20)"

definition teslaH_CommandLog :: "ble_env \<Rightarrow> daemon handler" where
  "teslaH_CommandLog e cx r s =
     (case CommandLog (ae_faults e) (command_limit (query_get (rq_query r) ''limit'')) (dm_tesla (sv_rest s)) of
        None \<Rightarrow> (statement_failed (env_of (sys_of e)) ''query command log'', s)
      | Some es \<Rightarrow> (JSON 200 (ae_show e (CommandsView es)), s))"

definition teslaH_LockWatchStatus :: "ble_env \<Rightarrow> daemon handler" where
  "teslaH_LockWatchStatus e cx r s =
     (JSON 200 (ae_show e (WatchView (Lock_Watch.Status (ae_now e) (dm_watch (sv_rest s))))), s)"

subsection \<open>Sessions\<close>

text \<open>A body that does not decode is ignored, but what the decoder stored before it stays: the fields it knows, of the
  right type, up to the end of a well-formed value.\<close>

definition tolerant_str :: "ble_env \<Rightarrow> string \<Rightarrow> request \<Rightarrow> string" where
  "tolerant_str e k r =
     (if \<not> se_fits e then []
      else case rq_json r of
        Some (JObj kvs) \<Rightarrow> fold (\<lambda>(n, v) z. case v of JStr x \<Rightarrow> if json_key n k then x else z | _ \<Rightarrow> z) kvs []
      | _ \<Rightarrow> [])"

definition ble_failed :: "ble_env \<Rightarrow> int \<Rightarrow> ble_error \<Rightarrow> response" where
  "ble_failed e status x = JSONError status (ae_text e (BleFailed x))"

definition teslaH_OpenBLESession :: "ble_env \<Rightarrow> daemon handler" where
  "teslaH_OpenBLESession e cx r s =
     (let vin = tolerant_str e ''vin'' r;
          owner = (case GetBLEClient cx of None \<Rightarrow> 0 | Some tok \<Rightarrow> ct_id tok);
          used = (if vin = [] then VIN (ae_faults e) (db_of s) else vin) in
      case BLE_Service.Open (requireVIN (ae_faults e) (db_of s)) (be_acquires e) (be_rnd e) (ae_now e) (be_call e) vin owner (dm_ble (sv_rest s)) of
        (Inl x, b) \<Rightarrow> (ble_failed e 502 x, put_ble b s)
      | (Inr i, b) \<Rightarrow> (JSON 200 (JObj [(''session_id'', JStr i), (''vin'', JStr used)]),
          audit_user (sys_of e) cx ''tesla.ble_session_open''
            (\<lambda>u. u @ '' opened BLE session '' @ i @ '' (vin='' @ used @ '')'') (put_ble b s)))"

text \<open>\<^verbatim>\<open>time.Duration(ms) * time.Millisecond\<close> wraps at 64 bits before it is clamped.\<close>

definition exchange_timeout :: "int \<Rightarrow> time" where
  "exchange_timeout ms =
     (let t = sint (word_of_int (ms * 1000000) :: 64 word) in
      let t = (if t \<le> 0 then 5 * 1000000000 else t) in
      if t > 30 * 1000000000 then 30 * 1000000000 else t)"

definition exchange_status :: "ble_error \<Rightarrow> int" where
  "exchange_status x = (case x of ErrBLESessionNotFound \<Rightarrow> 404 | ErrBLESessionTimeout \<Rightarrow> 504 | _ \<Rightarrow> 502)"

definition teslaH_ExchangeBLE :: "ble_env \<Rightarrow> daemon handler" where
  "teslaH_ExchangeBLE e cx r = with_strict e
     (Option.bind (decodeJSON (se_fits e) [''payload_b64'', ''timeout_ms''] (rq_json r)) (\<lambda>kvs.
        case (json_str ''payload_b64'' kvs, json_field read_int ''timeout_ms'' 0 kvs) of
          (Some b64, Some ms) \<Rightarrow> Some (b64, ms) | _ \<Rightarrow> None)) (\<lambda>(b64, ms) s.
     (case std_decode b64 of
        None \<Rightarrow> (JSONError 400 (''invalid base64 in payload_b64: '' @ ae_text e BodyRejected), s)
      | Some payload \<Rightarrow>
          (case be_exchange e (url_param r ''id'') payload (exchange_timeout ms) (dm_ble (sv_rest s)) of
             (Inl x, b) \<Rightarrow> (ble_failed e (exchange_status x) x, put_ble b s)
           | (Inr resp, b) \<Rightarrow> (JSON 200 (JObj [(''response_b64'', JStr (std_encode resp))]), put_ble b s))))"

definition teslaH_CloseBLESession :: "ble_env \<Rightarrow> daemon handler" where
  "teslaH_CloseBLESession e cx r s =
     (let i = url_param r ''id'' in
      case Close i (dm_ble (sv_rest s)) of
        Inl ErrBLESessionNotFound \<Rightarrow> (ble_failed e 404 ErrBLESessionNotFound, s)
      | Inl x \<Rightarrow> (ble_failed e 500 x, s)
      | Inr (_, b) \<Rightarrow> (no_content,
          audit_user (sys_of e) cx ''tesla.ble_session_close'' (\<lambda>u. u @ '' closed BLE session '' @ i) (put_ble b s)))"

text \<open>\<^verbatim>\<open>EventsBLE\<close> up to the upgrade: its answer before it, or the subscription that the stream reads.\<close>

datatype upgrade = Refused response | NotUpgraded | Streaming nat nat

definition teslaH_EventsBLE :: "ble_env \<Rightarrow> request \<Rightarrow> admin \<Rightarrow> upgrade \<times> admin" where
  "teslaH_EventsBLE e r s =
     (case Validate_token (ae_faults e) (ae_now e) (query_get (rq_query r) ''token'') (sv_tokens s) of
        (Inl _, t) \<Rightarrow> (Refused (JSONError 401 ''unauthorized''), put_tokens t s)
      | (Inr _, t) \<Rightarrow>
          let s = put_tokens t s; i = url_param r ''id'' in
          (case Subscribe i (dm_ble (sv_rest s)) of
             Inl ErrBLESessionNotFound \<Rightarrow> (Refused (ble_failed e 404 ErrBLESessionNotFound), s)
           | Inl x \<Rightarrow> (Refused (ble_failed e 502 x), s)
           | Inr ((sub, ch), b) \<Rightarrow>
               if be_upgrades e then (Streaming sub ch, put_ble b s)
               else (NotUpgraded, put_ble (Unsubscribe i sub b) s)))"

text \<open>The stream: what wakes its loop, and the messages it writes until it ends.  A write or a ping that fails ends it.\<close>

datatype stream_event = FrameIn bytes bool | ChannelClosed | Tick bool | PeerGone

fun events_loop :: "stream_event list \<Rightarrow> json list" where
  "events_loop [] = []"
| "events_loop (FrameIn f written # es) =
     (if written then JObj [(''frame_b64'', JStr (std_encode f))] # events_loop es else [])"
| "events_loop (Tick ponged # es) = (if ponged then events_loop es else [])"
| "events_loop (ChannelClosed # es) = []"
| "events_loop (PeerGone # es) = []"

subsection \<open>Tokens\<close>

definition token_failed :: "ble_env \<Rightarrow> int \<Rightarrow> token_error \<Rightarrow> response" where
  "token_failed e status x = JSONError status (ae_text e (TokenFailed x))"

definition not_found_or_500 :: "token_error \<Rightarrow> int" where
  "not_found_or_500 x = (if x = ErrTeslaTokenNotFound then 404 else 500)"

definition teslaH_ListTokens :: "ble_env \<Rightarrow> daemon handler" where
  "teslaH_ListTokens e cx r s =
     (case List_tokens (ae_faults e) (sv_tokens s) of
        Inl x \<Rightarrow> (token_failed e 500 x, s)
      | Inr ts \<Rightarrow> (JSON 200 (JObj [(''tokens'', ae_show e (TokensView ts))]), s))"

definition teslaH_IssueToken :: "ble_env \<Rightarrow> daemon handler" where
  "teslaH_IssueToken e cx r = with_strict e (strict_str e ''name'' r) (\<lambda>name s.
     (case Issue (ae_faults e) (be_seed e) (ae_now e) name (sv_tokens s) of
        (Inl x, t) \<Rightarrow> (token_failed e 400 x, put_tokens t s)
      | (Inr iss, t) \<Rightarrow> (JSON 200 (JObj [(''token'', ae_show e (TokenView (ti_token iss))), (''plain'', JStr (ti_plain iss))]),
          audit_user (sys_of e) cx ''tesla.token_issue''
            (\<lambda>u. u @ '' issued BLE client token '' @ [CHR 0x27] @ ct_name (ti_token iss) @ [CHR 0x27]) (put_tokens t s))))"

definition teslaH_MyTokenInfo :: "ble_env \<Rightarrow> daemon handler" where
  "teslaH_MyTokenInfo e cx r s =
     (case GetBLEClient cx of
        None \<Rightarrow> (JSONError 401 ''no bearer context'', s)
      | Some tok \<Rightarrow> (JSON 200 (ae_show e (TokenView tok)), s))"

definition close_for :: "int \<Rightarrow> admin \<Rightarrow> admin" where
  "close_for i s = put_ble (snd (CloseForToken i (dm_ble (sv_rest s)))) s"

definition teslaH_RevokeMyToken :: "ble_env \<Rightarrow> daemon handler" where
  "teslaH_RevokeMyToken e cx r s =
     (case GetBLEClient cx of
        None \<Rightarrow> (JSONError 401 ''no bearer context'', s)
      | Some tok \<Rightarrow>
          (case Revoke (ae_faults e) (ae_now e) (ct_id tok) (sv_tokens s) of
             (Some x, t) \<Rightarrow> (token_failed e (not_found_or_500 x) x, put_tokens t s)
           | (None, t) \<Rightarrow> (no_content, audit (env_of (sys_of e)) ''tesla.token_self_revoke''
               (''client:'' @ ct_name tok @ '' self-revoked their own token'') (close_for (ct_id tok) (put_tokens t s)))))"

definition teslaH_RevokeToken :: "ble_env \<Rightarrow> daemon handler" where
  "teslaH_RevokeToken e cx r = with_id ''id'' ''invalid token id'' r (\<lambda>i s.
     (case Delete_token (ae_faults e) i (sv_tokens s) of
        (Some x, t) \<Rightarrow> (token_failed e (not_found_or_500 x) x, put_tokens t s)
      | (None, t) \<Rightarrow> (no_content, audit_user (sys_of e) cx ''tesla.token_delete''
          (\<lambda>u. u @ '' deleted BLE client token id='' @ url_param r ''id'') (close_for i (put_tokens t s)))))"

subsection \<open>The event stream\<close>

definition frames_in :: "stream_event list \<Rightarrow> bytes list" where
  "frames_in es = concat (map (\<lambda>x. case x of FrameIn f _ \<Rightarrow> [f] | _ \<Rightarrow> []) es)"

definition frame_message :: "bytes \<Rightarrow> json" where
  "frame_message f = JObj [(''frame_b64'', JStr (std_encode f))]"

text \<open>The messages that a stream writes are an initial part of the frames of the session, in order, and each
  decodes back to its frame.\<close>

theorem stream_is_prefix:
  "\<exists>fs. events_loop es = map frame_message fs \<and> prefix fs (frames_in es) \<and>
     (\<forall>f\<in>set fs. \<exists>x. frame_message f = JObj [(''frame_b64'', JStr x)] \<and> std_decode x = Some f)"
proof -
  have "\<exists>fs. events_loop es = map frame_message fs \<and> prefix fs (frames_in es)"
  proof (induction es rule: events_loop.induct)
    case (2 f written es)
    then show ?case
    proof (cases written)
      case True
      with 2 obtain fs where "events_loop es = map frame_message fs" "prefix fs (frames_in es)" by auto
      with True show ?thesis by (intro exI [of _ "f # fs"]) (simp add: frames_in_def frame_message_def)
    qed simp
  qed (auto simp: frames_in_def)
  then show ?thesis by (auto simp: frame_message_def std_decode_encode)
qed

subsection \<open>The end of a token\<close>

lemma close_ids_sessions:
  "BLESessionService.sessions (snd (close_ids is b)) = filter (\<lambda>p. fst p \<notin> set is) (BLESessionService.sessions b)"
proof -
  have "BLESessionService.sessions (snd (fold (\<lambda>i (n, b). case Close i b of Inl _ \<Rightarrow> (n, b) | Inr (_, b') \<Rightarrow> (n + 1, b')) is (n, b))) =
    filter (\<lambda>p. fst p \<notin> set is) (BLESessionService.sessions b)" for n
  proof (induction "is" arbitrary: n b)
    case (Cons i "is")
    show ?case
    proof (cases "map_of (BLESessionService.sessions b) i")
      case None
      then have "\<forall>p\<in>set (BLESessionService.sessions b). fst p \<noteq> i" by (auto simp: map_of_eq_None_iff)
      with None Cons [of n b] show ?thesis by (auto simp: Close_def intro!: filter_cong)
    next
      case (Some v)
      with Cons [of "n + 1" "delete_session i b"] show ?thesis
        by (auto simp: Close_def delete_session_def intro!: filter_cong)
    qed
  qed simp
  then show ?thesis by (simp add: close_ids_def)
qed

lemma CloseForToken_sessions:
  "i \<noteq> 0 \<Longrightarrow> p \<in> set (BLESessionService.sessions (snd (CloseForToken i b))) \<Longrightarrow> s_owner (snd p) \<noteq> i"
  by (force simp: CloseForToken_def closeForToken_begin_def Let_def close_ids_sessions split: if_splits)

text \<open>A bearer that is accepted has a row with its hash.\<close>

lemma accepted_row:
  assumes "Validate_token fails now plain t = (Inr tok, t')"
  shows "\<exists>r\<in>set (tokens t). tk_hash r = hashTeslaToken (trim_space plain) \<and> tk_id r = ct_id tok \<and> tk_revoked r = None"
  using assms
  by (auto simp: Validate_token_def Let_def accepts_def find_Some_iff split: if_splits option.splits)

lemma no_row_refused:
  assumes "\<forall>r\<in>set (tokens t). tk_hash r = hashTeslaToken (trim_space plain) \<longrightarrow> tk_revoked r \<noteq> None"
  shows "\<exists>x. Validate_token fails now plain t = (Inl x, t)"
proof -
  have "find (accepts now (hashTeslaToken (trim_space plain))) (tokens t) = None" using assms by (auto simp: find_None_iff accepts_def)
  then show ?thesis by (simp add: Validate_token_def Let_def)
qed

definition locked_out :: "string \<Rightarrow> int \<Rightarrow> admin \<Rightarrow> bool" where
  "locked_out plain i s \<longleftrightarrow>
     (\<forall>fails now h cx r. rq_authorization r = ''Bearer '' @ plain \<longrightarrow>
        BLEBearerRequired fails now h cx r s = (JSONError 401 ''unauthorized'', s)) \<and>
     (\<forall>e r. query_get (rq_query r) ''token'' = plain \<longrightarrow> teslaH_EventsBLE e r s = (Refused (JSONError 401 ''unauthorized''), s)) \<and>
     (\<forall>p\<in>set (BLESessionService.sessions (dm_ble (sv_rest s))). s_owner (snd p) \<noteq> i)"

lemma locked_outI:
  assumes "\<forall>r\<in>set (tokens (sv_tokens s)). tk_hash r = hashTeslaToken (trim_space plain) \<longrightarrow> tk_revoked r \<noteq> None"
    and "\<forall>p\<in>set (BLESessionService.sessions (dm_ble (sv_rest s))). s_owner (snd p) \<noteq> i"
  shows "locked_out plain i s"
proof -
  have no: "\<exists>x. Validate_token f n plain (sv_tokens s) = (Inl x, sv_tokens s)" for f n using no_row_refused [OF assms(1)] by blast
  have "BLEBearerRequired fails now h cx r s = (JSONError 401 ''unauthorized'', s)" if "rq_authorization r = ''Bearer '' @ plain" for fails now h cx r
    using no [of fails now] that by (auto simp: BLEBearerRequired_def has_prefix_def)
  moreover have "teslaH_EventsBLE e r s = (Refused (JSONError 401 ''unauthorized''), s)" if "query_get (rq_query r) ''token'' = plain" for e r
    using no [of "ae_faults e" "ae_now e"] that by (auto simp: teslaH_EventsBLE_def put_tokens_def)
  ultimately show ?thesis using assms(2) by (simp add: locked_out_def)
qed

lemma Revoke_rows:
  assumes "Revoke fails now i t = (None, t')" "r \<in> set (tokens t')"
  shows "tk_id r = i \<Longrightarrow> tk_revoked r \<noteq> None" "\<exists>r'\<in>set (tokens t). tk_id r = tk_id r' \<and> tk_hash r = tk_hash r'"
proof -
  let ?u = "\<lambda>r. if tk_id r = i \<and> tk_revoked r = None then r\<lparr>tk_revoked := Some (secs now)\<rparr> else r"
  have u: "tk_id (?u x) = tk_id x \<and> tk_hash (?u x) = tk_hash x" for x by simp
  consider "tokens t' = map ?u (tokens t)" | "tokens t' = tokens t" "\<forall>x\<in>set (tokens t). tk_id x = i \<longrightarrow> tk_revoked x \<noteq> None"
    using assms(1) by (auto simp: Revoke_def list_ex_iff split: if_splits)
  then have "(tk_id r = i \<longrightarrow> tk_revoked r \<noteq> None) \<and> (\<exists>r'\<in>set (tokens t). tk_id r = tk_id r' \<and> tk_hash r = tk_hash r')"
  proof cases
    case 1
    with assms(2) obtain x where "x \<in> set (tokens t)" "r = ?u x" by auto
    with u [of x] show ?thesis by auto
  qed (use assms(2) in auto)
  then show "tk_id r = i \<Longrightarrow> tk_revoked r \<noteq> None" "\<exists>r'\<in>set (tokens t). tk_id r = tk_id r' \<and> tk_hash r = tk_hash r'" by auto
qed

lemma rest_of_audit: "sv_tokens (audit e a b s) = sv_tokens s" "sv_rest (audit e a b s) = sv_rest s"
  "sv_tokens (audit_user e2 cx a f s) = sv_tokens s" "sv_rest (audit_user e2 cx a f s) = sv_rest s"
  by (simp_all add: audit_def audit_user_def Log_def split: option.split)


text \<open>A client with an open session is removed.\<close>

definition paired_admin :: "'r \<Rightarrow> 'r server" where
  "paired_admin d = \<lparr>sv_auth = admin_db, sv_attempts = Map.empty, sv_tokens = \<lparr>tokens = [demo_row], tokens_seq = 1\<rparr>, sv_audit = [], sv_audit_seq = 0, sv_rest = d\<rparr>"

definition remove_request :: request where
  "remove_request = stale_request\<lparr>rq_params := [(''id'', ''1'')]\<rparr>"


end
