(* ===== verification/Config_Step.thy ===== *)
theory Config_Step
  imports Ble_Api
begin

text \<open>
  The generated files and the tables they are generated from.  Every request of the administration API
  that changes what a file depends on re-applies it, so that the dnsmasq and the nftables file on disk are
  what the generators make of the current tables.  This is shown for the whole router: any sequence of
  requests to any routes, with or without credentials, and of the goroutines they start.
\<close>

subsection \<open>What the files should hold\<close>

definition dns_text :: "Config \<Rightarrow> db \<Rightarrow> string" where
  "dns_text cfg d = buildDNSConfig (splitUpstreams (DNSUpstream cfg)) (the (allowedDomains no_faults d)) (the (openDeviceMACs no_faults d)) @ enrol_lines cfg"

definition nft_text :: "(string \<Rightarrow> nat list list option) \<Rightarrow> Config \<Rightarrow> db \<Rightarrow> string" where
  "nft_text lookup cfg d = generateConfig lookup no_faults cfg d (the (ListRules no_faults d)) (the (loadDeviceSnapshot no_faults d))"

definition nft_path :: string where
  "nft_path = ''/etc/nftables.conf''"

text \<open>The ports of a filter are seeded for system filters only, which cannot be deleted.\<close>

definition owned :: "db \<Rightarrow> port_row list \<Rightarrow> bool" where
  "owned d rows \<longleftrightarrow> (\<forall>p\<in>set rows. p_preset p \<le> filters_seq d \<and> (\<forall>f\<in>set (filters d). f_id f = p_preset p \<longrightarrow> f_is_system f))"

definition port_owners :: "db \<Rightarrow> bool" where
  "port_owners d \<longleftrightarrow> owned d (filter_udp_ports d) \<and> owned d (filter_tcp_ports d)"

definition live_host :: "host \<Rightarrow> bool" where
  "live_host h \<longleftrightarrow> \<not> ex_dry_run (executor h)"

definition dns_current :: "Config \<Rightarrow> db \<Rightarrow> host \<Rightarrow> bool" where
  "dns_current cfg d h \<longleftrightarrow> files h dns_conf_path = Some (dns_text cfg d)"

definition nft_current :: "(string \<Rightarrow> nat list list option) \<Rightarrow> Config \<Rightarrow> db \<Rightarrow> host \<Rightarrow> bool" where
  "nft_current lookup cfg d h \<longleftrightarrow> files h nft_path = Some (nft_text lookup cfg d)"

definition steady :: "(string \<Rightarrow> nat list list option) \<Rightarrow> Config \<Rightarrow> admin \<Rightarrow> bool" where
  "steady lookup cfg s \<longleftrightarrow> live_host (host_of_admin s) \<and> port_owners (db_of s) \<and>
     dns_current cfg (db_of s) (host_of_admin s) \<and> nft_current lookup cfg (db_of s) (host_of_admin s)"

text \<open>An environment with this configuration and resolver, in which the two port queries work: their failure is the only one
  that a generator passes over in silence.\<close>

definition usable :: "(string \<Rightarrow> nat list list option) \<Rightarrow> Config \<Rightarrow> ('x) api_env_scheme \<Rightarrow> bool" where
  "usable lookup cfg e \<longleftrightarrow> ae_cfg e = cfg \<and> ae_lookup e = lookup \<and>
     \<not> ae_faults e ''filter udp ports'' \<and> \<not> ae_faults e ''filter tcp ports''"

lemma paths_differ:
  "nft_path \<noteq> dns_conf_path" "nft_path \<noteq> ''/etc/dnsmasq.d/blocklist.conf''" "dns_conf_path \<noteq> ''/etc/dnsmasq.d/blocklist.conf''"
  "nft_path \<noteq> hostapd_path" "dns_conf_path \<noteq> hostapd_path"
  by (simp_all add: nft_path_def dns_conf_path_def)

subsection \<open>Applying\<close>

lemma Run_keeps: "Run sh n a h = (r, e, h') \<Longrightarrow> files h' = files h \<and> live_host h' = live_host h"
  using Run_frame [of sh n a h r e h'] by (simp add: live_host_def)

lemma Run_snd: "files (snd (snd (Run sh n a h))) = files h" "live_host (snd (snd (Run sh n a h))) = live_host h"
  by (cases "Run sh n a h"; use Run_keeps in fastforce)+

lemma Run_all_keeps: "files (Run_all sh cs h) = files h \<and> live_host (Run_all sh cs h) = live_host h"
proof (induction cs arbitrary: h)
  case (Cons c cs)
  obtain r e h' where "Run sh (fst c) (snd c) h = (r, e, h')" by (metis prod_cases3)
  with Cons [of h'] Run_keeps [OF this] show ?case by (simp add: Run_all_def)
qed (simp add: Run_all_def)

lemma Apply_dns_cases:
  assumes "Apply_dns fails sh cfg d h = (x, h')" "live_host h"
  shows "live_host h' \<and> files h' nft_path = files h nft_path \<and>
    (files h' dns_conf_path = Some (dns_text cfg d) \<or> x \<noteq> None \<and> files h' dns_conf_path = files h dns_conf_path)"
proof (cases "fails ''query allow-list domains'' \<or> fails ''query open devices''")
  case True
  then have "allowedDomains fails d = None \<or> openDeviceMACs fails d = None" by (auto simp: allowedDomains_def openDeviceMACs_def)
  then have "x \<noteq> None \<and> h' = h" using assms(1) by (auto simp: Apply_dns_def split: option.splits)
  with assms(2) show ?thesis by simp
next
  case False
  then have dom: "allowedDomains fails d = Some (the (allowedDomains no_faults d))" "openDeviceMACs fails d = Some (the (openDeviceMACs no_faults d))"
    by (simp_all add: allowedDomains_def openDeviceMACs_def no_faults_def)
  let ?h1 = "remove_file ''/etc/dnsmasq.d/blocklist.conf'' h"
  obtain ok h2 where w: "write_file fails dns_conf_path (dns_text cfg d) ?h1 = (ok, h2)" by fastforce
  have a: "(x, h') = (if \<not> ok \<and> \<not> ex_dry_run (executor h2) then (Some ''write netfilter-dns.conf'', h2) else restart_dnsmasq sh h2)"
    using assms(1) dom w by (simp add: Apply_dns_def dns_text_def Let_def)
  have h2: "live_host h2" "files h2 nft_path = files h nft_path"
    "files h2 dns_conf_path = (if ok then Some (dns_text cfg d) else files h dns_conf_path)"
    using w assms(2) paths_differ by (auto simp: write_file_def remove_file_def live_host_def split: if_splits)
  show ?thesis
  proof (cases ok)
    case True
    obtain r e h3 where "Run sh ''systemctl'' [''restart'', ''dnsmasq''] h2 = (r, e, h3)" by (metis prod_cases3)
    with True a h2 Run_keeps [OF this] show ?thesis by (auto simp: restart_dnsmasq_def)
  next
    case False
    with a h2 show ?thesis by (auto simp: live_host_def)
  qed
qed

lemma Apply_firewall_done:
  assumes "Apply_firewall lookup fails sh cfg d h = (None, h')" "live_host h"
    and "\<not> fails ''filter udp ports''" "\<not> fails ''filter tcp ports''"
  shows "live_host h' \<and> files h' = (files h)(nft_path \<mapsto> nft_text lookup cfg d)"
proof -
  obtain rules where r: "ListRules fails d = Some rules"
    using assms(1) by (cases "ListRules fails d") (auto simp: Apply_firewall_def)
  obtain snap where s: "loadDeviceSnapshot fails d = Some snap"
    using assms(1) r by (cases "loadDeviceSnapshot fails d") (auto simp: Apply_firewall_def)
  have t: "generateConfig lookup fails cfg d rules snap = nft_text lookup cfg d"
    using assms(3,4) r s by (auto simp: nft_text_def generateConfig_def filterUDPPorts_def filterTCPPorts_def ListRules_def
        loadDeviceSnapshot_def no_faults_def split: if_splits)
  obtain ok h1 where w: "write_file fails nft_path (nft_text lookup cfg d) h = (ok, h1)" by fastforce
  have live: "live_host h1" using w assms(2) by (auto simp: write_file_def live_host_def split: if_splits)
  obtain y e h2 where n: "Run sh ''nft'' [''-f'', ''/etc/nftables.conf''] h1 = (y, e, h2)" by (metis prod_cases3)
  have "ok" "h' = h2" using assms(1) r s t w n live by (auto simp: Apply_firewall_def nft_path_def live_host_def split: if_splits)
  with w live Run_keeps [OF n] show ?thesis by (auto simp: write_file_def split: if_splits)
qed

subsection \<open>What an operation leaves as it was\<close>

text \<open>The texts depend on the tables through these views only.\<close>

lemma dns_text_cong:
  assumes "enabled_domains d' = enabled_domains d" "map dev_mac (with_status DeviceStatusOpen d') = map dev_mac (with_status DeviceStatusOpen d)"
  shows "dns_text cfg d' = dns_text cfg d"
proof -
  have "map (\<lambda>dev. to_lower (trim_space (dev_mac dev))) (with_status DeviceStatusOpen d') =
      map (\<lambda>dev. to_lower (trim_space (dev_mac dev))) (with_status DeviceStatusOpen d)"
    using arg_cong [OF assms(2), of "map (\<lambda>m. to_lower (trim_space m))"] by (simp add: comp_def)
  with assms show ?thesis by (simp add: dns_text_def allowedDomains_def openDeviceMACs_def no_faults_def)
qed

lemma nft_text_cong:
  assumes "firewall_rules d' = firewall_rules d" "\<And>st. map dev_mac (with_status st d') = map dev_mac (with_status st d)"
    and "enabled_ports (filter_udp_ports d') d' = enabled_ports (filter_udp_ports d) d"
    and "enabled_ports (filter_tcp_ports d') d' = enabled_ports (filter_tcp_ports d) d"
  shows "nft_text lookup cfg d' = nft_text lookup cfg d"
proof -
  have "map (\<lambda>dev. to_lower (dev_mac dev)) (with_status st d') = map (\<lambda>dev. to_lower (dev_mac dev)) (with_status st d)" for st
    using arg_cong [OF assms(2) [of st], of "map to_lower"] by (simp add: comp_def)
  with assms show ?thesis
    by (simp add: nft_text_def generateConfig_def ListRules_def loadDeviceSnapshot_def macs_with_def filterUDPPorts_def
        filterTCPPorts_def no_faults_def)
qed

lemma enabled_via:
  assumes "\<And>i. list_ex (\<lambda>f. f_id f = i \<and> f_enabled f) (filters d') = list_ex (\<lambda>f. f_id f = i \<and> f_enabled f) (filters d)"
  shows "filter_domains d' = filter_domains d \<Longrightarrow> enabled_domains d' = enabled_domains d" "enabled_ports rows d' = enabled_ports rows d"
  using assms by (simp_all add: enabled_domains_def enabled_ports_def)

text \<open>A change of the filters that keeps which ids are enabled.\<close>

definition same_switches :: "db \<Rightarrow> db \<Rightarrow> bool" where
  "same_switches d d' \<longleftrightarrow> (\<forall>i. list_ex (\<lambda>f. f_id f = i \<and> f_enabled f) (filters d') = list_ex (\<lambda>f. f_id f = i \<and> f_enabled f) (filters d)) \<and>
     filter_domains d' = filter_domains d \<and> filter_udp_ports d' = filter_udp_ports d \<and> filter_tcp_ports d' = filter_tcp_ports d \<and>
     devices d' = devices d \<and> firewall_rules d' = firewall_rules d"

lemma same_switches_texts:
  assumes "same_switches d d'"
  shows "dns_text cfg d' = dns_text cfg d" "nft_text lookup cfg d' = nft_text lookup cfg d"
  using assms enabled_via [of d' d]
  by (auto simp: same_switches_def with_status_def intro!: dns_text_cong nft_text_cong)

lemma Create_filter_texts:
  assumes "Create_filter fails f d = Inr (i, d')"
  shows "same_switches d d' \<and> (port_owners d \<longrightarrow> port_owners d')"
proof -
  have d': "d' = d\<lparr>filters_seq := filters_seq d + 1, filters := filters d @ [\<lparr>f_id = filters_seq d + 1, f_name = trim_space (f_name f),
      f_description = f_description f, f_is_system = False, f_enabled = False, f_group = [], f_ports = []\<rparr>]\<rparr>"
    using assms by (auto simp: Create_filter_def Let_def split: if_splits)
  have "owned d rows \<Longrightarrow> owned d' rows" for rows by (fastforce simp: owned_def d')
  then show ?thesis by (auto simp: same_switches_def port_owners_def d')
qed

lemma map_filters_switch:
  assumes "\<And>g. f_id (u g) = f_id g \<and> f_enabled (u g) = f_enabled g"
  shows "list_ex (\<lambda>f. f_id f = i \<and> f_enabled f) (map u fs) = list_ex (\<lambda>f. f_id f = i \<and> f_enabled f) fs"
  using assms by (simp add: list_ex_iff)

lemma map_filters_owners:
  assumes "\<And>g. f_id (u g) = f_id g \<and> f_is_system (u g) = f_is_system g"
  shows "port_owners (d\<lparr>filters := map u (filters d)\<rparr>) = port_owners d"
  using assms by (simp add: port_owners_def owned_def)

lemma Update_filter_texts:
  assumes "Update_filter fails i f d = Inr d'"
  shows "same_switches d d' \<and> port_owners d' = port_owners d"
proof -
  let ?u = "\<lambda>g. if f_id g = i then g\<lparr>f_name := trim_space (f_name f), f_description := f_description f\<rparr> else g"
  have "d' = d\<lparr>filters := map ?u (filters d)\<rparr>" using assms by (auto simp: Update_filter_def Let_def split: if_splits)
  moreover have "list_ex (\<lambda>f. f_id f = j \<and> f_enabled f) (map ?u (filters d)) = list_ex (\<lambda>f. f_id f = j \<and> f_enabled f) (filters d)" for j
    by (rule map_filters_switch) simp
  ultimately show ?thesis using map_filters_owners [of ?u d] by (simp add: same_switches_def)
qed

lemma SetEnabled_filter_owners: "SetEnabled_filter fails i en d = Inr d' \<Longrightarrow> port_owners d' = port_owners d"
  using map_filters_owners [of "\<lambda>g. if f_id g = i then g\<lparr>f_enabled := en\<rparr> else g" d]
  by (auto simp: SetEnabled_filter_def split: if_splits)

lemma Delete_filter_texts:
  assumes "Delete_filter fails i d = Inr d'" "port_owners d"
  shows "nft_text lookup cfg d' = nft_text lookup cfg d \<and> port_owners d'"
proof -
  obtain f where f: "find_filter i d = Some f" "\<not> f_is_system f"
    and d': "d' = d\<lparr>filters := filter (\<lambda>g. f_id g \<noteq> i) (filters d), filter_domains := filter (\<lambda>fd. d_filter fd \<noteq> i) (filter_domains d),
      filter_udp_ports := filter (\<lambda>p. p_preset p \<noteq> i) (filter_udp_ports d), filter_tcp_ports := filter (\<lambda>p. p_preset p \<noteq> i) (filter_tcp_ports d)\<rparr>"
    using assms(1) by (auto simp: Delete_filter_def split: if_splits option.splits)
  have none: "p_preset p \<noteq> i" if "p \<in> set (filter_udp_ports d) \<union> set (filter_tcp_ports d)" for p
    using assms(2) that f find_filter_Some [OF f(1)] by (auto simp: port_owners_def owned_def)
  have keep: "enabled_ports (filter (\<lambda>p. p_preset p \<noteq> i) rows) d' = enabled_ports rows d" if "\<forall>p\<in>set rows. p_preset p \<noteq> i" for rows
  proof -
    have "filter (\<lambda>r. list_ex (\<lambda>f. f_id f = p_preset r \<and> f_enabled f) (filters d')) rows =
        filter (\<lambda>r. list_ex (\<lambda>f. f_id f = p_preset r \<and> f_enabled f) (filters d)) rows"
      using that by (intro filter_cong refl) (fastforce simp: d' list_ex_iff)
    moreover have "filter (\<lambda>p. p_preset p \<noteq> i) rows = rows" using that by (simp add: filter_id_conv)
    ultimately show ?thesis by (simp add: enabled_ports_def)
  qed
  have "nft_text lookup cfg d' = nft_text lookup cfg d"
    using none keep [of "filter_udp_ports d"] keep [of "filter_tcp_ports d"] by (intro nft_text_cong) (simp_all add: d' with_status_def)
  moreover have "port_owners d'" using assms(2) by (auto simp: d' port_owners_def owned_def)
  ultimately show ?thesis by simp
qed

text \<open>The operations on domains change no table that the firewall reads.\<close>

definition only_domains :: "db \<Rightarrow> db \<Rightarrow> bool" where
  "only_domains d d' \<longleftrightarrow> (\<exists>ds n. d' = d\<lparr>filter_domains := ds, domains_seq := n\<rparr>)"

lemma only_domains_texts:
  "only_domains d d' \<Longrightarrow> nft_text lookup cfg d' = nft_text lookup cfg d \<and> port_owners d' = port_owners d"
  by (auto simp: only_domains_def port_owners_def owned_def with_status_def enabled_ports_def intro!: nft_text_cong)

lemma only_domainsI: "only_domains d (d\<lparr>filter_domains := ds\<rparr>)" "only_domains d (d\<lparr>domains_seq := n, filter_domains := ds\<rparr>)"
  unfolding only_domains_def by (rule exI [of _ ds], rule exI [of _ "domains_seq d"], simp) (rule exI [of _ ds], rule exI [of _ n], simp)

lemma domain_ops_only:
  "CreateDomain fails i fd d = Inr (n, d') \<Longrightarrow> only_domains d d'" "UpdateDomain fails i fd d = Inr d' \<Longrightarrow> only_domains d d'"
  "SetDomainEnabled fails i en d = Inr d' \<Longrightarrow> only_domains d d'" "DeleteDomain fails i d = Inr d' \<Longrightarrow> only_domains d d'"
  by (auto simp: CreateDomain_def UpdateDomain_def SetDomainEnabled_def DeleteDomain_def upsert_domain_def only_domainsI Let_def
      split: if_splits option.splits)

definition only_devices :: "db \<Rightarrow> db \<Rightarrow> bool" where
  "only_devices d d' \<longleftrightarrow> (\<exists>ds. d' = d\<lparr>devices := ds\<rparr>)"

lemma only_devices_owners: "only_devices d d' \<Longrightarrow> port_owners d' = port_owners d"
  by (auto simp: only_devices_def port_owners_def owned_def)

lemma only_devicesI: "only_devices d (d\<lparr>devices := ds\<rparr>)" "only_devices d d"
  unfolding only_devices_def by (rule exI [of _ ds], simp) (rule exI [of _ "devices d"], simp)

lemma device_ops_only:
  "SetStatus fails mac st d = (x, d') \<Longrightarrow> only_devices d d'" "Delete_device fails mac d = (x, d') \<Longrightarrow> only_devices d d'"
  by (auto simp: SetStatus_def Delete_device_def only_devicesI Let_def split: if_splits)

lemma UpdateDevice_texts:
  assumes "UpdateDevice fails mac nick ig d = (x, d')"
  shows "dns_text cfg d' = dns_text cfg d \<and> nft_text lookup cfg d' = nft_text lookup cfg d \<and> port_owners d' = port_owners d"
proof -
  let ?u = "\<lambda>dev. if dev_mac dev = mac then dev\<lparr>dev_alias := nick, dev_ignore_log := ig\<rparr> else dev"
  have "map dev_mac (filter (\<lambda>dev. dev_status dev = st) (map ?u ds)) = map dev_mac (filter (\<lambda>dev. dev_status dev = st) ds)" for st ds
    by (induction ds) auto
  moreover have "d' = d \<or> d' = d\<lparr>devices := map ?u (devices d)\<rparr>" using assms by (auto simp: UpdateDevice_def split: if_splits)
  ultimately show ?thesis
    by (auto simp: with_status_def enabled_domains_def enabled_ports_def port_owners_def owned_def intro!: dns_text_cong nft_text_cong)
qed

definition only_rules :: "db \<Rightarrow> db \<Rightarrow> bool" where
  "only_rules d d' \<longleftrightarrow> (\<exists>rs n. d' = d\<lparr>firewall_rules := rs, rules_seq := n\<rparr>)"

lemma only_rules_texts: "only_rules d d' \<Longrightarrow> dns_text cfg d' = dns_text cfg d \<and> port_owners d' = port_owners d"
  by (auto simp: only_rules_def port_owners_def owned_def with_status_def enabled_domains_def intro!: dns_text_cong)

lemma only_rulesI: "only_rules d (d\<lparr>firewall_rules := rs\<rparr>)" "only_rules d (d\<lparr>rules_seq := n, firewall_rules := rs\<rparr>)"
  unfolding only_rules_def by (rule exI [of _ rs], rule exI [of _ "rules_seq d"], simp) (rule exI [of _ rs], rule exI [of _ n], simp)

lemma rule_ops_only:
  "CreateRule fails r d = Some (i, d') \<Longrightarrow> only_rules d d'" "UpdateRule fails i r d = Some d' \<Longrightarrow> only_rules d d'"
  "DeleteRule fails i d = Some d' \<Longrightarrow> only_rules d d'"
  by (auto simp: CreateRule_def UpdateRule_def DeleteRule_def Let_def only_rulesI split: if_splits)

lemma settings_texts:
  assumes "d' = d\<lparr>settings := m\<rparr>"
  shows "dns_text cfg d' = dns_text cfg d \<and> nft_text lookup cfg d' = nft_text lookup cfg d \<and> port_owners d' = port_owners d"
  unfolding assms by (auto simp: with_status_def enabled_domains_def enabled_ports_def port_owners_def owned_def intro!: dns_text_cong nft_text_cong)

subsection \<open>Handlers\<close>

definition ends_steady :: "(string \<Rightarrow> nat list list option) \<Rightarrow> Config \<Rightarrow> response \<times> admin \<Rightarrow> bool" where
  "ends_steady lookup cfg q \<longleftrightarrow> rp_status (fst q) = 500 \<or> steady lookup cfg (snd q)"

lemma steady_frame:
  "dm_db (sv_rest s') = dm_db (sv_rest s) \<Longrightarrow> dm_host (sv_rest s') = dm_host (sv_rest s) \<Longrightarrow> steady lookup cfg s' = steady lookup cfg s"
  by (simp add: steady_def)

lemma rest_simps [simp]:
  "sv_rest (audit e a b s) = sv_rest s" "sv_rest (put_tokens t s) = sv_rest s"
  "sv_rest (put_db d s) = (sv_rest s)\<lparr>dm_db := d\<rparr>" "sv_rest (put_host h s) = (sv_rest s)\<lparr>dm_host := h\<rparr>"
  "sv_rest (put_log l s) = (sv_rest s)\<lparr>dm_log := l\<rparr>" "sv_rest (put_tlog l2 s) = (sv_rest s)\<lparr>dm_tlog := l2\<rparr>"
  "sv_rest (put_limits m s) = (sv_rest s)\<lparr>dm_limits := m\<rparr>" "sv_rest (put_cli c s) = (sv_rest s)\<lparr>dm_cli := c\<rparr>"
  "sv_rest (put_ble w s) = (sv_rest s)\<lparr>dm_ble := w\<rparr>" "sv_rest (go_job j s) = (sv_rest s)\<lparr>dm_jobs := dm_jobs (sv_rest s) @ [j]\<rparr>"
  "sv_rest (audit_user e2 cx a f s) = sv_rest s"
  by (simp_all add: audit_def Log_def put_db_def put_host_def put_log_def put_tlog_def put_limits_def put_cli_def put_ble_def put_tokens_def
      go_job_def audit_user_def split: option.split)

lemma status_simps [simp]:
  "rp_status (JSON n j) = n" "rp_status (JSONError n m) = n" "rp_status (filter_failed e n x) = n" "rp_status (statement_failed e w) = 500"
  "rp_status (device_failed e n y) = n" "rp_status recovered = 500" "rp_status (remote_failed f n z) = n" "rp_status no_content = 204"
  "rp_status (ble_failed g n v) = n" "rp_status (token_failed g n u) = n"
  by (simp_all add: JSON_def JSONError_def filter_failed_def statement_failed_def device_failed_def recovered_def remote_failed_def
      no_content_def ble_failed_def token_failed_def)

lemma ends_with_id: "steady lookup cfg s \<Longrightarrow> (\<And>i. ends_steady lookup cfg (body i s)) \<Longrightarrow> ends_steady lookup cfg (with_id k m r body s)"
  by (auto simp: with_id_def ends_steady_def split: option.split)

lemma ends_with_body: "steady lookup cfg s \<Longrightarrow> (\<And>x. ends_steady lookup cfg (body x s)) \<Longrightarrow> ends_steady lookup cfg (with_body v body s)"
  by (auto simp: with_body_def ends_steady_def split: option.split)

lemma ends_with_mac: "steady lookup cfg s \<Longrightarrow> (\<And>m. ends_steady lookup cfg (body m s)) \<Longrightarrow> ends_steady lookup cfg (with_mac r body s)"
  by (auto simp: with_mac_def ends_steady_def split: sum.split)

definition ready :: "admin \<Rightarrow> bool" where
  "ready s \<longleftrightarrow> live_host (host_of_admin s) \<and> port_owners (db_of s)"

lemma ends_500: "rp_status p = 500 \<Longrightarrow> ends_steady lookup cfg (p, s)"
  by (simp add: ends_steady_def)

lemma ends_apply_dns:
  assumes "usable lookup cfg e" "ready s"
    and "\<And>s'. ready s' \<Longrightarrow> db_of s' = db_of s \<Longrightarrow> dns_current cfg (db_of s') (host_of_admin s') \<Longrightarrow>
      nft_current lookup cfg (db_of s) (host_of_admin s) = nft_current lookup cfg (db_of s') (host_of_admin s') \<Longrightarrow> ends_steady lookup cfg (k s')"
  shows "ends_steady lookup cfg (apply_dns e msg k s)"
proof -
  obtain x h where a: "Apply_dns (ae_faults e) (ae_shell e) (ae_cfg e) (db_of s) (host_of_admin s) = (x, h)" by fastforce
  show ?thesis
  proof (cases x)
    case None
    have "live_host h \<and> files h nft_path = files (host_of_admin s) nft_path \<and> files h dns_conf_path = Some (dns_text cfg (db_of s))"
      using Apply_dns_cases [OF a] None assms(1,2) by (auto simp: usable_def ready_def)
    then have "ends_steady lookup cfg (k (put_host h s))"
      using assms(2) by (intro assms(3)) (auto simp: ready_def dns_current_def nft_current_def)
    with a None show ?thesis by (simp add: apply_dns_def)
  qed (use a in \<open>simp add: apply_dns_def ends_steady_def\<close>)
qed

lemma ends_apply_firewall:
  assumes "usable lookup cfg e" "ready s"
    and "\<And>s'. ready s' \<Longrightarrow> db_of s' = db_of s \<Longrightarrow> nft_current lookup cfg (db_of s') (host_of_admin s') \<Longrightarrow>
      dns_current cfg (db_of s) (host_of_admin s) = dns_current cfg (db_of s') (host_of_admin s') \<Longrightarrow> ends_steady lookup cfg (k s')"
  shows "ends_steady lookup cfg (apply_firewall e msg k s)"
proof -
  obtain x h where a: "Apply_firewall (ae_lookup e) (ae_faults e) (ae_shell e) (ae_cfg e) (db_of s) (host_of_admin s) = (x, h)" by fastforce
  show ?thesis
  proof (cases x)
    case None
    have "live_host h \<and> files h = (files (host_of_admin s))(nft_path \<mapsto> nft_text lookup cfg (db_of s))"
      using Apply_firewall_done [of "ae_lookup e" "ae_faults e"] a None assms(1,2) by (auto simp: usable_def ready_def)
    then have "ends_steady lookup cfg (k (put_host h s))"
      using assms(2) paths_differ by (intro assms(3)) (auto simp: ready_def dns_current_def nft_current_def)
    with a None show ?thesis by (simp add: apply_firewall_def)
  qed (use a in \<open>simp add: apply_firewall_def ends_steady_def\<close>)
qed

lemma loops_keep:
  "files (download_loop fails sh d iface i ls h) = files h \<and> live_host (download_loop fails sh d iface i ls h) = live_host h"
  "files (upload_loop fails sh d i ls h) = files h \<and> live_host (upload_loop fails sh d i ls h) = live_host h"
proof -
  show "files (download_loop fails sh d iface i ls h) = files h \<and> live_host (download_loop fails sh d iface i ls h) = live_host h"
    by (induction ls arbitrary: i h) (auto simp: Let_def Run_snd dest!: Run_keeps split: prod.splits)
  show "files (upload_loop fails sh d i ls h) = files h \<and> live_host (upload_loop fails sh d i ls h) = live_host h"
    by (induction ls arbitrary: i h) (auto simp: Let_def Run_all_keeps)
qed

lemma Apply_bandwidth_keeps:
  "Apply_bandwidth fails sh cfg d t h = (x, h') \<Longrightarrow> files h' = files h \<and> live_host h' = live_host h"
  by (auto simp: Apply_bandwidth_def Let_def Run_all_keeps applyUploadLimits_def loops_keep dest!: Run_keeps split: option.splits if_splits prod.splits)

lemma ends_apply_bandwidth:
  assumes "steady lookup cfg s" "\<And>s'. steady lookup cfg s' \<Longrightarrow> ends_steady lookup cfg (k s')"
  shows "ends_steady lookup cfg (apply_bandwidth e msg k s)"
proof -
  obtain x h where a: "Apply_bandwidth (ae_faults e) (ae_shell e) (ae_cfg e) (db_of s) (dm_limits (sv_rest s)) (host_of_admin s) = (x, h)" by fastforce
  then have "steady lookup cfg (put_host h s)"
    using assms(1) Apply_bandwidth_keeps [OF a] by (simp add: steady_def dns_current_def nft_current_def)
  then have "ends_steady lookup cfg (k (put_host h s))" by (rule assms(2))
  with a show ?thesis by (cases x) (simp_all add: apply_bandwidth_def ends_500)
qed

lemma ends_answer: "steady lookup cfg s \<Longrightarrow> ends_steady lookup cfg (answer p s)"
  by (simp add: answer_def ends_steady_def)

lemma ends_same: "steady lookup cfg s \<Longrightarrow> dm_db (sv_rest s') = dm_db (sv_rest s) \<Longrightarrow> dm_host (sv_rest s') = dm_host (sv_rest s) \<Longrightarrow> ends_steady lookup cfg (p, s')"
  by (simp add: ends_steady_def steady_def)

lemma ends_texts:
  assumes "steady lookup cfg s" "dm_db (sv_rest s') = d'" "dm_host (sv_rest s') = dm_host (sv_rest s)"
    "dns_text cfg d' = dns_text cfg (db_of s)" "nft_text lookup cfg d' = nft_text lookup cfg (db_of s)" "port_owners d'"
  shows "ends_steady lookup cfg (p, s')"
  using assms by (simp add: ends_steady_def steady_def dns_current_def nft_current_def)


lemma readyI: "steady lookup cfg s \<Longrightarrow> dm_host (sv_rest s') = dm_host (sv_rest s) \<Longrightarrow> port_owners (dm_db (sv_rest s')) \<Longrightarrow> ready s'"
  by (simp add: steady_def ready_def)

lemma steady_iff: "steady lookup cfg s \<longleftrightarrow> ready s \<and> dns_current cfg (db_of s) (host_of_admin s) \<and> nft_current lookup cfg (db_of s) (host_of_admin s)"
  by (auto simp: steady_def ready_def)

lemma ends_pair: "ends_steady lookup cfg (p, s) \<longleftrightarrow> rp_status p = 500 \<or> steady lookup cfg s"
  by (simp add: ends_steady_def)

lemmas steady_unfold = ends_pair steady_def dns_current_def nft_current_def

lemma filter_reads_steady:
  assumes "steady lookup cfg s"
  shows "ends_steady lookup cfg (filtH_List e cx r s)" "ends_steady lookup cfg (filtH_Get e cx r s)" "ends_steady lookup cfg (filtH_ListDomains e cx r s)"
  using assms
  by (auto simp: filtH_List_def filtH_Get_def filtH_ListDomains_def ends_pair intro!: ends_with_id split: sum.split filter_error.split)

lemma filter_texts_steady:
  assumes "steady lookup cfg s"
  shows "ends_steady lookup cfg (filtH_Create e cx r s)" "ends_steady lookup cfg (filtH_Update e cx r s)"
  using assms
  by (auto simp: filtH_Create_def filtH_Update_def steady_unfold same_switches_texts dest!: Create_filter_texts Update_filter_texts
      intro!: ends_with_id ends_with_body split: sum.split prod.split)

lemma filter_dns_steady:
  assumes u: "usable lookup cfg e" and s: "steady lookup cfg s"
  shows "ends_steady lookup cfg (filtH_Delete e cx r s)" "ends_steady lookup cfg (filtH_CreateDomain e cx r s)"
    "ends_steady lookup cfg (filtH_UpdateDomain e cx r s)" "ends_steady lookup cfg (filtH_SetDomainEnabled e cx r s)"
    "ends_steady lookup cfg (filtH_DeleteDomain e cx r s)"
proof -
  have dns: "ends_steady lookup cfg (apply_dns e msg (answer p) (audit e a b (put_db d s)))"
    if "nft_text lookup cfg d = nft_text lookup cfg (db_of s) \<and> port_owners d" for d msg p a b
    using s that by (intro ends_apply_dns [OF u] ends_answer) (auto simp: ready_def steady_def nft_current_def)
  have own: "port_owners (db_of s)" using s by (simp add: steady_def)
  show "ends_steady lookup cfg (filtH_Delete e cx r s)"
    unfolding filtH_Delete_def
    using s own dns Delete_filter_texts by (intro ends_with_id) (auto simp: ends_pair split: sum.split filter_error.split)
  note D = only_domains_texts [OF domain_ops_only(1)] only_domains_texts [OF domain_ops_only(2)]
    only_domains_texts [OF domain_ops_only(3)] only_domains_texts [OF domain_ops_only(4)]
  show "ends_steady lookup cfg (filtH_CreateDomain e cx r s)" unfolding filtH_CreateDomain_def
    using s own dns D(1) by (intro ends_with_id ends_with_body) (auto simp: ends_pair split: sum.split)
  show "ends_steady lookup cfg (filtH_UpdateDomain e cx r s)" unfolding filtH_UpdateDomain_def
    using s own dns D(2) by (intro ends_with_id ends_with_body) (auto simp: ends_pair split: sum.split)
  show "ends_steady lookup cfg (filtH_SetDomainEnabled e cx r s)" unfolding filtH_SetDomainEnabled_def
    using s own dns D(3) by (intro ends_with_id ends_with_body) (auto simp: ends_pair split: sum.split)
  show "ends_steady lookup cfg (filtH_DeleteDomain e cx r s)" unfolding filtH_DeleteDomain_def
    using s own dns D(4) by (intro ends_with_id) (auto simp: ends_pair split: sum.split)
qed

lemma filtH_SetEnabled_steady:
  assumes u: "usable lookup cfg e" and s: "steady lookup cfg s"
  shows "ends_steady lookup cfg (filtH_SetEnabled e cx r s)"
proof -
  have both: "ends_steady lookup cfg (apply_dns e msg (apply_firewall e msg' (answer p)) (audit e a b (put_db d s)))"
    if "port_owners d" for d msg msg' p a b
    using s that by (intro ends_apply_dns [OF u] ends_apply_firewall [OF u] ends_answer) (auto simp: steady_iff ready_def)
  show ?thesis unfolding filtH_SetEnabled_def
    using s both SetEnabled_filter_owners
    by (intro ends_with_id ends_with_body) (fastforce simp: ends_pair steady_def split: sum.split filter_error.split)+
qed

lemma wipe_keeps [simp]:
  "dm_db (sv_rest (wipe_device e n mac ip s)) = db_of s" "dm_host (sv_rest (wipe_device e n mac ip s)) = host_of_admin s"
  by (auto simp: wipe_device_def split: prod.split option.split)

lemma device_steady:
  assumes u: "usable lookup cfg e" and s: "steady lookup cfg s"
  shows "ends_steady lookup cfg (devH_List e cx r s)" "ends_steady lookup cfg (devH_Update e cx r s)"
    "ends_steady lookup cfg (devH_SetStatus e cx r s)" "ends_steady lookup cfg (devH_Delete e cx r s)"
proof -
  have own: "port_owners (db_of s)" and live: "live_host (host_of_admin s)" using s by (simp_all add: steady_def)
  have both: "ends_steady lookup cfg (apply_firewall e msg (apply_dns e msg' (answer p)) s')"
    if "host_of_admin s' = host_of_admin s" "port_owners (db_of s')" for s' msg msg' p
    using live that by (intro ends_apply_dns [OF u] ends_apply_firewall [OF u] ends_answer) (auto simp: steady_iff ready_def)
  show "ends_steady lookup cfg (devH_List e cx r s)" using s by (simp add: devH_List_def ends_pair split: option.split)
  show "ends_steady lookup cfg (devH_Update e cx r s)" unfolding devH_Update_def
    using s by (intro ends_with_mac ends_with_body) (auto simp: steady_unfold Let_def dest!: UpdateDevice_texts [where lookup = lookup and cfg = cfg] split: prod.split option.split)
  show "ends_steady lookup cfg (devH_SetStatus e cx r s)" unfolding devH_SetStatus_def
  proof (intro ends_with_mac ends_with_body s)
    fix mac st
    show "ends_steady lookup cfg (case SetStatus (ae_faults e) mac st (db_of s) of
        (None, d) \<Rightarrow> apply_firewall e ''status set but failed to apply firewall: ''
          (apply_dns e ''status set but failed to apply DNS: '' (answer (JSON 200 ok_body)))
          (audit e ''device.status'' (''MAC='' @ mac @ '' status='' @ st) (put_db d s))
      | (Some x, d) \<Rightarrow> (device_failed e 400 x, put_db d s))"
    proof (cases "SetStatus (ae_faults e) mac st (db_of s)")
      case (Pair x d)
      with own only_devices_owners [OF device_ops_only(1) [OF Pair]] have o: "port_owners d" by simp
      show ?thesis
      proof (cases x)
        case None
        with o Pair show ?thesis by (simp add: both)
      next
        case (Some err)
        with Pair have "d = db_of s" by (auto simp: SetStatus_def Let_def split: if_splits)
        with Pair Some s show ?thesis by (simp add: steady_unfold)
      qed
    qed
  qed
  show "ends_steady lookup cfg (devH_Delete e cx r s)" unfolding devH_Delete_def Let_def
  proof (intro ends_with_mac s)
    fix mac
    show "ends_steady lookup cfg (case Delete_device (ae_faults e) mac (db_of s) of
        (None, d) \<Rightarrow> apply_firewall e ''deleted but failed to apply firewall: ''
          (apply_dns e ''deleted but failed to apply DNS: '' (answer (JSON 200 ok_body)))
          (audit e ''device.delete'' (''MAC='' @ mac)
             (wipe_device e '' (device removed)'' mac (DeviceIPByMAC (ae_faults e) mac (db_of s)) (put_db d s)))
      | (Some x, d) \<Rightarrow> (device_failed e 500 x, put_db d s))"
    proof (cases "Delete_device (ae_faults e) mac (db_of s)")
      case (Pair x d)
      with own only_devices_owners [OF device_ops_only(2) [OF Pair]] have "port_owners d" by simp
      with Pair show ?thesis by (cases x) (simp_all add: both ends_pair)
    qed
  qed
qed

lemma rule_steady:
  assumes u: "usable lookup cfg e" and s: "steady lookup cfg s"
  shows "ends_steady lookup cfg (fwH_List e cx r s)" "ends_steady lookup cfg (fwH_Create e cx r s)"
    "ends_steady lookup cfg (fwH_Update e cx r s)" "ends_steady lookup cfg (fwH_Delete e cx r s)"
proof -
  have fw: "ends_steady lookup cfg (apply_firewall e msg (answer p) (audit e a b (put_db d s)))"
    if "only_rules (db_of s) d" for d msg p a b
    using s only_rules_texts [OF that] by (intro ends_apply_firewall [OF u] ends_answer) (auto simp: ready_def steady_def dns_current_def)
  show "ends_steady lookup cfg (fwH_List e cx r s)" using s by (simp add: fwH_List_def ends_pair split: option.split)
  show "ends_steady lookup cfg (fwH_Create e cx r s)" unfolding fwH_Create_def
    using s fw rule_ops_only(1) by (intro ends_with_body) (auto simp: ends_pair split: option.split)
  show "ends_steady lookup cfg (fwH_Update e cx r s)" unfolding fwH_Update_def
    using s fw rule_ops_only(2) by (intro ends_with_id ends_with_body) (auto simp: ends_pair split: option.split)
  show "ends_steady lookup cfg (fwH_Delete e cx r s)" unfolding fwH_Delete_def
    using s fw rule_ops_only(3) by (intro ends_with_id) (auto simp: ends_pair split: option.split)
qed

lemma bandwidth_steady:
  assumes s: "steady lookup cfg s"
  shows "ends_steady lookup cfg (bwH_List e cx r s)" "ends_steady lookup cfg (bwH_Create e cx r s)"
    "ends_steady lookup cfg (bwH_Update e cx r s)" "ends_steady lookup cfg (bwH_Delete e cx r s)"
proof -
  have bw: "ends_steady lookup cfg (apply_bandwidth e msg (answer p) (audit e a b (put_limits t s)))" for t msg p a b
    using s by (intro ends_apply_bandwidth ends_answer) (simp_all add: steady_def)
  show "ends_steady lookup cfg (bwH_List e cx r s)" using s by (simp add: bwH_List_def ends_pair split: option.split)
  show "ends_steady lookup cfg (bwH_Create e cx r s)" unfolding bwH_Create_def
    using s bw by (intro ends_with_body) (auto simp: ends_pair split: option.split)
  show "ends_steady lookup cfg (bwH_Update e cx r s)" unfolding bwH_Update_def
    using s bw by (intro ends_with_id ends_with_body) (auto simp: ends_pair split: option.split)
  show "ends_steady lookup cfg (bwH_Delete e cx r s)" unfolding bwH_Delete_def
    using s bw by (intro ends_with_id) (auto simp: ends_pair split: option.split)
qed

lemma upserts_settings: "\<exists>m. fold (\<lambda>(k, v). upsert_setting k v) kvs d = d\<lparr>settings := m\<rparr>"
proof (induction kvs arbitrary: d)
  case Nil
  then show ?case by (intro exI [of _ "settings d"]) simp
next
  case (Cons kv kvs)
  from Cons [of "upsert_setting (fst kv) (snd kv) d"] show ?case by (auto simp: upsert_setting_def case_prod_beta)
qed

lemma upserts_texts:
  "dns_text cfg (fold (\<lambda>(k, v). upsert_setting k v) kvs d) = dns_text cfg d"
  "nft_text lookup cfg (fold (\<lambda>(k, v). upsert_setting k v) kvs d) = nft_text lookup cfg d"
  "port_owners (fold (\<lambda>(k, v). upsert_setting k v) kvs d) = port_owners d"
  using upserts_settings [of kvs d] settings_texts by metis+

lemma settings_steady:
  assumes s: "steady lookup cfg s"
  shows "ends_steady lookup cfg (setH_Get e cx r s)" "ends_steady lookup cfg (setH_Update e cx r s)" "ends_steady lookup cfg (setH_ChangePassword e cx r s)"
proof -
  show "ends_steady lookup cfg (setH_Get e cx r s)" using s by (simp add: setH_Get_def ends_pair)
  show "ends_steady lookup cfg (setH_ChangePassword e cx r s)" unfolding setH_ChangePassword_def
    using s by (intro ends_with_body) (auto simp: steady_unfold split: option.split prod.split)
  show "ends_steady lookup cfg (setH_Update e cx r s)" unfolding setH_Update_def
    using s by (intro ends_with_body) (auto simp: steady_unfold upserts_texts Let_def)
qed

lemma GetInfo_keeps: "GetInfo sh cfg h = (info, h') \<Longrightarrow> files h' = files h \<and> live_host h' = live_host h"
  by (auto simp: GetInfo_def Let_def dest!: Run_keeps split: prod.splits)

lemma probe_keeps: "probe_loop sh as h = (cs, h') \<Longrightarrow> files h' = files h \<and> live_host h' = live_host h"
proof (induction as arbitrary: h h' cs)
  case (Cons a as)
  obtain res e h1 where r: "Run sh ''ping'' [''-c'', ''1'', ''-W'', ''3'', a] h = (res, e, h1)" by (metis prod_cases3)
  obtain cs2 h2 where l: "probe_loop sh as h1 = (cs2, h2)" by fastforce
  from Cons.prems r l have "h' = h1 \<or> h' = h2" by (auto split: option.splits)
  with Run_keeps [OF r] Cons.IH [OF l] show ?case by auto
qed simp

lemma system_steady:
  assumes s: "steady lookup cfg s"
  shows "ends_steady lookup cfg (sysH_Info e cx r s)" "ends_steady lookup cfg (sysH_Reboot e cx r s)"
    "ends_steady lookup cfg (sysH_TestConnectivity e cx r s)" "ends_steady lookup cfg (sysH_TrafficLog e cx r s)"
    "ends_steady lookup cfg (sysH_ClearTrafficLog e cx r s)" "ends_steady lookup cfg (sysH_MutedList e cx r s)"
    "ends_steady lookup cfg (sysH_MutedAdd e cx r s)" "ends_steady lookup cfg (sysH_MutedRemove e cx r s)"
    "ends_steady lookup cfg (sysH_StatsSummary e cx r s)" "ends_steady lookup cfg (sysH_StatsTopDomains e cx r s)"
    "ends_steady lookup cfg (sysH_StatsTopClients e cx r s)" "ends_steady lookup cfg (sysH_StatsTimeSeries e cx r s)"
    "ends_steady lookup cfg (sysH_AuditLog e cx r s)" "ends_steady lookup cfg (dashH_API e cx r s)"
proof -
  show "ends_steady lookup cfg (sysH_Info e cx r s)"
    using s GetInfo_keeps by (fastforce simp: sysH_Info_def steady_unfold split: prod.split)
  show "ends_steady lookup cfg (dashH_API e cx r s)"
    using s by (auto simp: dashH_API_def steady_unfold Let_def dest!: GetInfo_keeps split: prod.split)
  show "ends_steady lookup cfg (sysH_TestConnectivity e cx r s)"
    using s by (auto simp: sysH_TestConnectivity_def TestConnectivity_def steady_unfold dest!: probe_keeps split: prod.split option.split)
  show "ends_steady lookup cfg (sysH_MutedAdd e cx r s)" unfolding sysH_MutedAdd_def
    using s by (intro ends_with_body) (auto simp: steady_unfold split: prod.split option.split)
  show "ends_steady lookup cfg (sysH_MutedRemove e cx r s)" unfolding sysH_MutedRemove_def
    using s by (intro ends_with_id) (auto simp: steady_unfold split: prod.split bool.split)
qed (use s in \<open>auto simp: sysH_Reboot_def sysH_TrafficLog_def sysH_ClearTrafficLog_def sysH_MutedList_def sysH_StatsSummary_def
  sysH_StatsTopDomains_def sysH_StatsTopClients_def sysH_StatsTimeSeries_def sysH_AuditLog_def steady_unfold Let_def
  split: prod.split option.split bool.split sum.split\<close>)

lemma ends_run_remote:
  assumes "steady lookup cfg s" "\<And>s'. steady lookup cfg s' \<Longrightarrow> ends_steady lookup cfg (k s')"
  shows "ends_steady lookup cfg (run_remote e n f k s)"
proof -
  obtain x c where f: "f (se_machine e) (dm_cli (sv_rest s)) = (x, c)" by fastforce
  have "steady lookup cfg (put_cli c s)" using assms(1) by (simp add: steady_def)
  with assms(2) f show ?thesis by (cases x) (simp_all add: run_remote_def ends_pair)
qed

lemma ends_funnel: "steady lookup cfg s \<Longrightarrow> ends_steady lookup cfg (funnel_done e cx a w s)"
  by (auto simp: funnel_done_def remote_status_def steady_unfold split: prod.split)

lemma remote_steady:
  assumes s: "steady lookup cfg s"
  shows "ends_steady lookup cfg (remoteH_Status e cx r s)" "ends_steady lookup cfg (remoteH_Install e cx r s)"
    "ends_steady lookup cfg (remoteH_Up e cx r s)" "ends_steady lookup cfg (remoteH_Logout e cx r s)"
    "ends_steady lookup cfg (remoteH_EnableBLEFunnel e cx r s)" "ends_steady lookup cfg (remoteH_DisableBLEFunnel e cx r s)"
proof -
  have fin: "ends_steady lookup cfg (p, audit_user e cx a f s')" if "steady lookup cfg s'" for p a f s'
    using that by (simp add: steady_unfold)
  show "ends_steady lookup cfg (remoteH_Status e cx r s)"
    using s by (auto simp: remoteH_Status_def remote_status_def steady_unfold split: prod.split)
  show "ends_steady lookup cfg (remoteH_Up e cx r s)"
    using s by (auto simp: remoteH_Up_def ends_pair split: option.split intro!: ends_run_remote fin)
qed (use s in \<open>auto simp: remoteH_Install_def remoteH_Logout_def remoteH_EnableBLEFunnel_def remoteH_DisableBLEFunnel_def steady_unfold
  intro!: ends_run_remote ends_funnel\<close>)

lemma ends_with_strict: "steady lookup cfg s \<Longrightarrow> (\<And>x. ends_steady lookup cfg (body x s)) \<Longrightarrow> ends_steady lookup cfg (with_strict e v body s)"
  by (auto simp: with_strict_def ends_pair split: option.split)

lemma close_for_simps [simp]: "dm_db (sv_rest (close_for i s)) = db_of s" "dm_host (sv_rest (close_for i s)) = host_of_admin s"
  by (simp_all add: close_for_def)

lemma SetVIN_texts:
  assumes "SetVIN fails v d = (x, d')"
  shows "dns_text cfg d' = dns_text cfg d \<and> nft_text lookup cfg d' = nft_text lookup cfg d \<and> port_owners d' = port_owners d"
proof -
  have "d' = d \<or> (\<exists>m. d' = d\<lparr>settings := m\<rparr>)" using assms by (auto simp: SetVIN_def Let_def split: if_splits)
  with settings_texts show ?thesis by metis
qed

lemma bearer_steady:
  assumes s: "steady lookup cfg s"
  shows "ends_steady lookup cfg (teslaH_PairingInfo e cx r s)" "ends_steady lookup cfg (teslaH_SetVIN e cx r s)"
    "ends_steady lookup cfg (teslaH_PairExternalPubkey tx e cx r s)" "ends_steady lookup cfg (teslaH_State e cx r s)"
    "ends_steady lookup cfg (teslaH_CommandLog e cx r s)" "ends_steady lookup cfg (teslaH_LockWatchStatus e cx r s)"
    "ends_steady lookup cfg (teslaH_OpenBLESession e cx r s)" "ends_steady lookup cfg (teslaH_ExchangeBLE e cx r s)"
    "ends_steady lookup cfg (teslaH_CloseBLESession e cx r s)" "ends_steady lookup cfg (teslaH_ListTokens e cx r s)"
    "ends_steady lookup cfg (teslaH_IssueToken e cx r s)" "ends_steady lookup cfg (teslaH_MyTokenInfo e cx r s)"
    "ends_steady lookup cfg (teslaH_RevokeMyToken e cx r s)" "ends_steady lookup cfg (teslaH_RevokeToken e cx r s)"
    "steady lookup cfg (snd (teslaH_EventsBLE e r s))"
proof -
  show "ends_steady lookup cfg (teslaH_SetVIN e cx r s)" unfolding teslaH_SetVIN_def
    using s by (intro ends_with_strict) (auto simp: steady_unfold dest!: SetVIN_texts [where lookup = lookup and cfg = cfg] split: prod.split option.split)
  show "ends_steady lookup cfg (teslaH_PairExternalPubkey tx e cx r s)" unfolding teslaH_PairExternalPubkey_def
    using s by (intro ends_with_strict) (auto simp: steady_unfold Let_def split: option.split)
  show "ends_steady lookup cfg (teslaH_ExchangeBLE e cx r s)" unfolding teslaH_ExchangeBLE_def
    using s by (intro ends_with_strict) (auto simp: steady_unfold split: option.split prod.split sum.split)
  show "ends_steady lookup cfg (teslaH_IssueToken e cx r s)" unfolding teslaH_IssueToken_def
    using s by (intro ends_with_strict) (auto simp: steady_unfold split: prod.split sum.split)
  show "ends_steady lookup cfg (teslaH_RevokeToken e cx r s)" unfolding teslaH_RevokeToken_def
    using s by (intro ends_with_id) (auto simp: steady_unfold split: prod.split option.split)
  show "steady lookup cfg (snd (teslaH_EventsBLE e r s))"
    using s by (auto simp: teslaH_EventsBLE_def steady_unfold Let_def split: prod.split sum.split ble_error.split)
  show "ends_steady lookup cfg (teslaH_OpenBLESession e cx r s)"
    using s by (auto simp: teslaH_OpenBLESession_def steady_unfold Let_def split: prod.split sum.split)
qed (use s in \<open>auto simp: teslaH_PairingInfo_def teslaH_State_def teslaH_CommandLog_def teslaH_LockWatchStatus_def teslaH_CloseBLESession_def
  teslaH_ListTokens_def teslaH_MyTokenInfo_def teslaH_RevokeMyToken_def steady_unfold Let_def
  split: prod.split option.split sum.split ble_error.split\<close>)

subsection \<open>The router\<close>

text \<open>Every handler of the route table by its name.  A page is a template that reads nothing of the state.\<close>

definition page :: "bool \<Rightarrow> string \<Rightarrow> daemon handler" where
  "page parses name cx r s =
     (if parses then (\<lparr>rp_status = 200, rp_headers = [(''Content-Type'', ''text/html; charset=utf-8'')], rp_cookies = [], rp_body = Template name\<rparr>, s)
      else (\<lparr>rp_status = 500, rp_headers = [(''Content-Type'', ''text/plain; charset=utf-8'')], rp_cookies = [],
              rp_body = Text (''Internal Server Error'' @ [CHR 10])\<rparr>, s))"

record web_env = ble_env +
  we_pair_text :: "pair_error \<Rightarrow> string"
  we_not_upgraded :: response
  we_static :: "request \<Rightarrow> response"
  we_parses :: "string \<Rightarrow> bool"

definition upgraded :: response where
  "upgraded = \<lparr>rp_status = 101, rp_headers = [], rp_cookies = [], rp_body = NoBody\<rparr>"

definition events_handler :: "web_env \<Rightarrow> daemon handler" where
  "events_handler e cx r s =
     (case teslaH_EventsBLE (ble_env.truncate e) r s of
        (Refused p, s') \<Rightarrow> (p, s')
      | (NotUpgraded, s') \<Rightarrow> (we_not_upgraded e, s')
      | (Streaming _ _, s') \<Rightarrow> (upgraded, s'))"

definition admin_table :: "api_env \<Rightarrow> (string \<times> daemon handler) list" where
  "admin_table a =
     [(''devH.List'', devH_List a), (''devH.Update'', devH_Update a), (''devH.SetStatus'', devH_SetStatus a), (''devH.Delete'', devH_Delete a),
      (''filtH.List'', filtH_List a), (''filtH.Create'', filtH_Create a), (''filtH.Get'', filtH_Get a), (''filtH.Update'', filtH_Update a),
      (''filtH.SetEnabled'', filtH_SetEnabled a), (''filtH.Delete'', filtH_Delete a), (''filtH.ListDomains'', filtH_ListDomains a),
      (''filtH.CreateDomain'', filtH_CreateDomain a), (''filtH.UpdateDomain'', filtH_UpdateDomain a),
      (''filtH.SetDomainEnabled'', filtH_SetDomainEnabled a), (''filtH.DeleteDomain'', filtH_DeleteDomain a),
      (''fwH.List'', fwH_List a), (''fwH.Create'', fwH_Create a), (''fwH.Update'', fwH_Update a), (''fwH.Delete'', fwH_Delete a),
      (''bwH.List'', bwH_List a), (''bwH.Create'', bwH_Create a), (''bwH.Update'', bwH_Update a), (''bwH.Delete'', bwH_Delete a),
      (''settingsH.Get'', setH_Get a), (''settingsH.Update'', setH_Update a), (''settingsH.ChangePassword'', setH_ChangePassword a)]"

definition system_table :: "system_env \<Rightarrow> (string \<times> daemon handler) list" where
  "system_table a =
     [(''dashH.API'', dashH_API a), (''sysH.Info'', sysH_Info a), (''sysH.AuditLog'', sysH_AuditLog a), (''sysH.TestConnectivity'', sysH_TestConnectivity a),
      (''sysH.TrafficLog'', sysH_TrafficLog a), (''sysH.ClearTrafficLog'', sysH_ClearTrafficLog a), (''sysH.MutedList'', sysH_MutedList a),
      (''sysH.MutedAdd'', sysH_MutedAdd a), (''sysH.MutedRemove'', sysH_MutedRemove a), (''sysH.StatsSummary'', sysH_StatsSummary a),
      (''sysH.StatsTopDomains'', sysH_StatsTopDomains a), (''sysH.StatsTopClients'', sysH_StatsTopClients a),
      (''sysH.StatsTimeSeries'', sysH_StatsTimeSeries a), (''sysH.Reboot'', sysH_Reboot a),
      (''remoteH.Status'', remoteH_Status a), (''remoteH.Install'', remoteH_Install a), (''remoteH.Up'', remoteH_Up a),
      (''remoteH.Logout'', remoteH_Logout a), (''remoteH.EnableBLEFunnel'', remoteH_EnableBLEFunnel a),
      (''remoteH.DisableBLEFunnel'', remoteH_DisableBLEFunnel a)]"

definition bearer_table :: "(pair_error \<Rightarrow> string) \<Rightarrow> ble_env \<Rightarrow> (string \<times> daemon handler) list" where
  "bearer_table tx a =
     [(''teslaH.PairingInfo'', teslaH_PairingInfo a), (''teslaH.SetVIN'', teslaH_SetVIN a), (''teslaH.PairExternalPubkey'', teslaH_PairExternalPubkey tx a),
      (''teslaH.State'', teslaH_State a), (''teslaH.CommandLog'', teslaH_CommandLog a), (''teslaH.LockWatchStatus'', teslaH_LockWatchStatus a),
      (''teslaH.MyTokenInfo'', teslaH_MyTokenInfo a), (''teslaH.RevokeMyToken'', teslaH_RevokeMyToken a), (''teslaH.OpenBLESession'', teslaH_OpenBLESession a),
      (''teslaH.ExchangeBLE'', teslaH_ExchangeBLE a), (''teslaH.CloseBLESession'', teslaH_CloseBLESession a),
      (''teslaH.ListTokens'', teslaH_ListTokens a), (''teslaH.IssueToken'', teslaH_IssueToken a), (''teslaH.RevokeToken'', teslaH_RevokeToken a)]"

definition handler_table :: "web_env \<Rightarrow> (string \<times> daemon handler) list" where
  "handler_table e =
     admin_table (api_env.truncate e) @ system_table (system_env.truncate e) @ bearer_table (we_pair_text e) (ble_env.truncate e) @
     [(''teslaH.EventsBLE'', events_handler e), (''static'', \<lambda>cx r s. (we_static e r, s)), (''ca'', \<lambda>cx r s. (we_static e r, s))]"

definition handlers :: "web_env \<Rightarrow> string \<Rightarrow> daemon handler" where
  "handlers e name = (case map_of (handler_table e) name of Some h \<Rightarrow> h | None \<Rightarrow> page (we_parses e name) name)"

text \<open>What happens to the daemon: a request, with what it finds, or a goroutine that a request started.\<close>

datatype happening = Request world web_env request | Goroutine web_env job

fun serve :: "(request \<Rightarrow> target) \<Rightarrow> happening \<Rightarrow> admin \<Rightarrow> response option \<times> admin" where
  "serve mux (Request w e r) s = (case NewRouterWithFS mux w (handlers e) r s of (p, s') \<Rightarrow> (Some p, s'))"
| "serve mux (Goroutine e j) s = (None, run_job (api_env.truncate e) j s)"

fun serve_all :: "(request \<Rightarrow> target) \<Rightarrow> happening list \<Rightarrow> admin \<Rightarrow> response list \<times> admin" where
  "serve_all mux [] s = ([], s)"
| "serve_all mux (x # xs) s =
     (case serve mux x s of (p, s1) \<Rightarrow> case serve_all mux xs s1 of (ps, s2) \<Rightarrow> ((case p of None \<Rightarrow> ps | Some q \<Rightarrow> q # ps), s2))"

fun env_in :: "happening \<Rightarrow> web_env" where
  "env_in (Request w e r) = e"
| "env_in (Goroutine e j) = e"

definition keeps_steady :: "(string \<Rightarrow> nat list list option) \<Rightarrow> Config \<Rightarrow> daemon handler \<Rightarrow> bool" where
  "keeps_steady lookup cfg h \<longleftrightarrow> (\<forall>cx r s. steady lookup cfg s \<longrightarrow> ends_steady lookup cfg (h cx r s))"

lemma tables_steady:
  "usable lookup cfg a \<Longrightarrow> list_all (\<lambda>(n, h). keeps_steady lookup cfg h) (admin_table a)"
  "list_all (\<lambda>(n, h). keeps_steady lookup cfg h) (system_table b)"
  "list_all (\<lambda>(n, h). keeps_steady lookup cfg h) (bearer_table tx c)"
  by (simp_all add: admin_table_def system_table_def bearer_table_def keeps_steady_def device_steady filter_reads_steady filter_texts_steady
      filter_dns_steady filtH_SetEnabled_steady rule_steady bandwidth_steady settings_steady system_steady remote_steady bearer_steady)

lemma events_steady: "keeps_steady lookup cfg (events_handler e)"
  unfolding keeps_steady_def
proof (intro allI impI)
  fix cx r s assume "steady lookup cfg s"
  then have "steady lookup cfg (snd (teslaH_EventsBLE (ble_env.truncate e) r s))" by (rule bearer_steady)
  then show "ends_steady lookup cfg (events_handler e cx r s)"
    by (cases "teslaH_EventsBLE (ble_env.truncate e) r s") (auto simp: events_handler_def ends_pair split: upgrade.split)
qed

lemma usable_truncate: "usable lookup cfg (api_env.truncate e) = usable lookup cfg e"
  by (simp add: usable_def api_env.truncate_def)

lemma handlers_steady:
  assumes "usable lookup cfg e" shows "keeps_steady lookup cfg (handlers e name)"
proof -
  have same: "keeps_steady lookup cfg (\<lambda>cx r s. (f r, s))" for f by (simp add: keeps_steady_def ends_pair)
  have "list_all (\<lambda>(n, h). keeps_steady lookup cfg h) (handler_table e)"
    using tables_steady assms events_steady same by (simp add: handler_table_def usable_truncate)
  moreover have "keeps_steady lookup cfg (page b name)" for b by (simp add: keeps_steady_def page_def ends_pair)
  ultimately show ?thesis by (auto simp: handlers_def list_all_iff dest!: map_of_SomeD split: option.split)
qed

lemma guarded_steady:
  assumes "keeps_steady lookup cfg h" shows "keeps_steady lookup cfg (guarded fails now g h)"
proof -
  have au: "steady lookup cfg (s\<lparr>sv_auth := d\<rparr>) = steady lookup cfg s" "steady lookup cfg (s\<lparr>sv_tokens := k\<rparr>) = steady lookup cfg s" for s d k
    by (simp_all add: steady_def)
  have st: "ends_steady lookup cfg (apfst (\<lambda>p. p\<lparr>rp_headers := x @ rp_headers p\<rparr>) q) = ends_steady lookup cfg q" for x q
    by (cases q) (simp add: ends_pair)
  show ?thesis
    using assms by (cases g) (auto simp: keeps_steady_def AuthRequired_def APIAuthRequired_def BLECORS_def BLEBearerRequired_def st ends_pair au
        split: option.split prod.split sum.split)
qed

lemma auth_steady:
  assumes "keeps_steady lookup cfg (H name)" shows "keeps_steady lookup cfg (auth_handlers w H name)"
proof -
  have au: "steady lookup cfg (s\<lparr>sv_auth := d\<rparr>) = steady lookup cfg s" "steady lookup cfg (s\<lparr>sv_auth := d, sv_attempts := k\<rparr>) = steady lookup cfg s" for s d k
    by (simp_all add: steady_def)
  show ?thesis
    using assms by (auto simp: auth_handlers_def keeps_steady_def LoginPage_def Login_handler_def Logout_handler_def Me_def Let_def ends_pair au
        split: option.split prod.split sum.split)
qed

lemma router_steady:
  assumes "usable lookup cfg e" "steady lookup cfg s" "NewRouterWithFS mux w (handlers e) r s = (p, s')" "rp_status p \<noteq> 500"
  shows "steady lookup cfg s'"
proof -
  have "keeps_steady lookup cfg (guarded f n g (auth_handlers w (handlers e) name))" for f n g name
    using assms(1) by (intro guarded_steady auth_steady handlers_steady)
  moreover have "keeps_steady lookup cfg (guarded f n g (\<lambda>cx r s. (missing, s)))" for f n g
    by (intro guarded_steady) (simp add: keeps_steady_def ends_pair)
  ultimately have "ends_steady lookup cfg (NewRouterWithFS mux w (handlers e) r s)"
    using assms(2) by (auto simp: NewRouterWithFS_def Let_def keeps_steady_def ends_pair simp del: guarded.simps split: target.split)
  with assms(3,4) show ?thesis by (simp add: ends_pair)
qed

lemma job_steady: "usable lookup cfg e \<Longrightarrow> steady lookup cfg s \<Longrightarrow> steady lookup cfg (run_job e j s)"
proof (cases j)
  case ApplyHotspot
  assume s: "steady lookup cfg s"
  obtain x h where a: "Apply_hotspot (ae_faults e) (ae_shell e) (db_of s) (host_of_admin s) = (x, h)" by fastforce
  then have "live_host h = live_host (host_of_admin s) \<and> (\<forall>q. q \<noteq> hostapd_path \<longrightarrow> files h q = files (host_of_admin s) q)"
    by (auto simp: Apply_hotspot_def Let_def write_file_def live_host_def dest!: Run_frame split: if_splits option.splits prod.splits)
  with a s ApplyHotspot paths_differ show ?thesis by (auto simp: run_job_def steady_def dns_current_def nft_current_def)
next
  case ApplyDns
  assume u: "usable lookup cfg e" and s: "steady lookup cfg s"
  obtain x h where a: "Apply_dns (ae_faults e) (ae_shell e) (ae_cfg e) (db_of s) (host_of_admin s) = (x, h)" by fastforce
  with u s Apply_dns_cases [OF a] ApplyDns show ?thesis by (auto simp: run_job_def steady_def dns_current_def nft_current_def usable_def)
next
  case RebootSystem
  assume "steady lookup cfg s"
  with RebootSystem show ?thesis by (simp add: run_job_def steady_def dns_current_def nft_current_def Run_snd)
qed

lemma serve_steady:
  "serve_all mux xs s = (ps, s') \<Longrightarrow> steady lookup cfg s \<Longrightarrow> \<forall>x\<in>set xs. usable lookup cfg (env_in x) \<Longrightarrow>
   500 \<notin> rp_status ` set ps \<Longrightarrow> steady lookup cfg s'"
proof (induction xs arbitrary: s ps)
  case (Cons x xs)
  obtain p s1 where x: "serve mux x s = (p, s1)" by fastforce
  obtain qs where xs: "serve_all mux xs s1 = (qs, s')" using Cons.prems(1) x by (auto split: prod.splits)
  have ps: "ps = (case p of None \<Rightarrow> qs | Some q \<Rightarrow> q # qs)" using Cons.prems(1) x xs by simp
  have "steady lookup cfg s1"
  proof (cases x)
    case (Request w e r)
    with x ps Cons.prems show ?thesis by (auto split: prod.splits intro: router_steady)
  next
    case (Goroutine e j)
    with x Cons.prems(2,3) show ?thesis by (auto intro: job_steady simp: usable_truncate)
  qed
  moreover have "500 \<notin> rp_status ` set qs" using Cons.prems(4) ps by (auto split: option.splits)
  ultimately show ?case using Cons.IH [OF xs] Cons.prems(3) by simp
qed simp

text \<open>
  The upstream resolver of the settings page has no effect: saving it re-generates the dnsmasq file from the
  configuration file's resolver, so the file on disk stays what it was.
\<close>

theorem upstream_setting_ignored:
  assumes "usable lookup cfg e" "steady lookup cfg s" "setH_Update e cx r s = (p, s1)" "rp_status p \<noteq> 500"
  shows "files (host_of_admin (run_job e ApplyDns s1)) dns_conf_path = files (host_of_admin s) dns_conf_path"
proof -
  have s1: "steady lookup cfg s1" using settings_steady(2) [OF assms(2), of e cx r] assms(3,4) by (simp add: ends_pair)
  have "dns_text cfg (db_of s1) = dns_text cfg (db_of s)"
    using assms(3) by (auto simp: setH_Update_def with_body_def Let_def upserts_texts split: option.splits if_splits)
  moreover have "db_of (run_job e ApplyDns s1) = db_of s1" by (simp add: run_job_def)
  ultimately show ?thesis using job_steady [OF assms(1) s1, of ApplyDns] assms(2) by (simp add: steady_def dns_current_def)
qed

text \<open>
  C5: the generated files follow the tables.  Start with files that were generated from the tables, in a
  daemon that is not in dry-run mode and whose port rows belong to system filters.  After any sequence
  of requests to any routes, with any bodies and credentials, interleaved with the goroutines they
  start, and provided that none was answered with status 500, the dnsmasq file is the one generated from
  the tables as they are now, and so is the nftables file.  No handler forgets to re-apply.
\<close>

theorem files_follow_tables:
  assumes "serve_all mux xs s = (ps, s')" "500 \<notin> rp_status ` set ps"
    and "\<forall>x\<in>set xs. usable lookup cfg (env_in x)" "steady lookup cfg s"
  shows "files (dm_host (sv_rest s')) dns_conf_path = Some (dns_text cfg (dm_db (sv_rest s'))) \<and>
    files (dm_host (sv_rest s')) ''/etc/nftables.conf'' = Some (nft_text lookup cfg (dm_db (sv_rest s')))"
  using serve_steady [OF assms(1,4,3,2)] by (simp add: steady_def dns_current_def nft_current_def nft_path_def)

text \<open>A logged-in operator removes a domain of a filter, and the goroutine of an earlier request runs.\<close>

definition example_host :: host where
  "example_host = (new_host False)\<lparr>files := [dns_conf_path \<mapsto> dns_text Defaults example_db', nft_path \<mapsto> nft_text (\<lambda>_. None) Defaults example_db']\<rparr>"

definition example_admin :: admin where
  "example_admin = \<lparr>sv_auth = admin_db\<lparr>auth_db.sessions := [\<lparr>s_token = ''07'', s_user = 1, s_expires = 9\<rparr>]\<rparr>, sv_attempts = Map.empty,
     sv_tokens = \<lparr>tokens = [], tokens_seq = 0\<rparr>, sv_audit = [], sv_audit_seq = 0,
     sv_rest = \<lparr>dm_db = example_db', dm_host = example_host, dm_log = no_log, dm_tlog = NewTrafficLogService,
       dm_limits = \<lparr>limits = [], limits_seq = 0\<rparr>, dm_cli = [], dm_ble = NewBLESessionService, dm_watch = NewLockWatchService,
       dm_tesla = \<lparr>tesla_pairing = [], tesla_command_log = [], command_log_seq = 0\<rparr>, dm_jobs = [ApplyDns]\<rparr>\<rparr>"

definition example_env :: web_env where
  "example_env = \<lparr>ae_faults = no_faults, ae_now = 5, ae_shell = quiet_shell, ae_lookup = (\<lambda>_. None), ae_cfg = Defaults, ae_bcrypt = plain_bcrypt,
     ae_salt = [], ae_stale = 0, ae_order = id, ae_text = (\<lambda>_. []), ae_filter = (\<lambda>_. None), ae_domain = (\<lambda>_. None), ae_rule = (\<lambda>_. None),
     ae_limit = (\<lambda>_. None), ae_show = (\<lambda>_. JNull), se_fts = (\<lambda>_ _. False), se_clock = (\<lambda>_. None), se_bucket = (\<lambda>_ _. None), se_day_ago = [],
     se_machine = (\<lambda>_ _. ([], [], True)), se_tail = (\<lambda>_. None), se_serve = (\<lambda>_. None), se_installed = False, se_fits = True, se_info = (\<lambda>_. JNull),
     se_probes = (\<lambda>_. JNull), se_series = (\<lambda>_. JNull), be_pem = None, be_seed = [7], be_acquires = (\<lambda>_. False), be_rnd = None, be_call = 1,
     be_exchange = (\<lambda>_ _ _ b. (Inl ErrBLESessionNotFound, b)), be_on_curve = (\<lambda>_. False), be_add_key = (\<lambda>_ _. False), be_upgrades = False,
     we_pair_text = (\<lambda>_. []), we_not_upgraded = upgraded, we_static = (\<lambda>_. upgraded), we_parses = (\<lambda>_. True)\<rparr>"

definition delete_domain_route :: route where
  "delete_domain_route = \<lparr>rt_method = ''DELETE'', rt_pattern = ''/api/filters/domains/{domainID}'', rt_guard = ApiSession, rt_handler = ''filtH.DeleteDomain''\<rparr>"

definition example_mux :: "request \<Rightarrow> target" where
  "example_mux r = Endpoint delete_domain_route [(''domainID'', ''1'')]"

definition example_happenings :: "happening list" where
  "example_happenings = [Request quiet_world example_env stale_request, Goroutine example_env ApplyDns]"

lemma quiet_dns: "\<exists>h'. Apply_dns no_faults quiet_shell cfg d h = (None, h')"
  by (simp add: Apply_dns_def allowedDomains_def openDeviceMACs_def no_faults_def Let_def write_file_def restart_dnsmasq_def Run_def quiet_shell_def
      record_cmd_def split: prod.split)

lemma example_steady: "steady (\<lambda>_. None) Defaults example_admin"
proof -
  have "port_owners example_db'" by code_simp
  then show ?thesis using paths_differ
    by (simp add: steady_def example_admin_def example_host_def live_host_def new_host_def New_executor_def dns_current_def nft_current_def)
qed

lemma example_handler: "auth_handlers w (handlers example_env) ''filtH.DeleteDomain'' = filtH_DeleteDomain (api_env.truncate example_env)"
  by (simp add: auth_handlers_def handlers_def handler_table_def admin_table_def)

lemma example_answers:
  "\<exists>p s'. serve_all example_mux example_happenings example_admin = ([p], s') \<and> rp_status p = 200"
proof -
  let ?a = "api_env.truncate example_env" and ?r = "stale_request\<lparr>rq_params := [(''domainID'', ''1'')]\<rparr>"
  have v: "\<exists>u d. ValidateSession no_faults 5 ''07'' (sv_auth example_admin) = (Inr u, d)"
    by (simp add: ValidateSession_def session_row_def example_admin_def admin_db_def no_faults_def)
  then obtain u d where v: "ValidateSession no_faults 5 ''07'' (sv_auth example_admin) = (Inr u, d)" by blast
  have id: "parse_int64 (url_param ?r ''domainID'') = Some 1" by code_simp
  have "\<exists>p s'. filtH_DeleteDomain ?a cx ?r s = (p, s') \<and> rp_status p = 200" for cx s
  proof -
    have "ae_faults ?a = no_faults" "ae_shell ?a = quiet_shell" by (simp_all add: example_env_def api_env.truncate_def)
    then show ?thesis
      using id quiet_dns by (auto simp: filtH_DeleteDomain_def with_id_def DeleteDomain_def apply_dns_def answer_def no_faults_def split: option.split prod.split)
        (metis option.distinct(1) prod.inject no_faults_def)+
  qed
  then have "\<exists>p s'. NewRouterWithFS example_mux quiet_world (handlers example_env) stale_request example_admin = (p, s') \<and> rp_status p = 200"
    using v by (simp add: NewRouterWithFS_def example_mux_def delete_domain_route_def APIAuthRequired_def example_handler Let_def
        quiet_world_def stale_request_def)
  then show ?thesis by (auto simp: example_happenings_def)
qed

theorem files_follow_tables_witness:
  "\<exists>p s'. serve_all example_mux example_happenings example_admin = ([p], s') \<and> rp_status p = 200 \<and>
    files (dm_host (sv_rest s')) dns_conf_path = Some (dns_text Defaults (dm_db (sv_rest s'))) \<and>
    files (dm_host (sv_rest s')) ''/etc/nftables.conf'' = Some (nft_text (\<lambda>_. None) Defaults (dm_db (sv_rest s')))"
proof -
  obtain p s' where r: "serve_all example_mux example_happenings example_admin = ([p], s')" "rp_status p = 200" using example_answers by blast
  have "\<forall>x\<in>set example_happenings. usable (\<lambda>_. None) Defaults (env_in x)"
    by (simp add: example_happenings_def usable_def example_env_def no_faults_def)
  then show ?thesis using files_follow_tables [OF r(1) _ _ example_steady] r by simp
qed

end
