(* ===== verification/Schema.thy ===== *)
theory Schema
  imports DNS_Config Tesla_Service Traffic_Log Bandwidth Console
begin

text \<open>
  The statements of \<^verbatim>\<open>internal/database/migrations.go\<close> and the rows they seed.  A statement is a partial function
  on the store of all tables, undefined when a constraint fails.

  The tables are those of the other theories.  A column that a later version adds is a field from the
  start, and \<^verbatim>\<open>ALTER TABLE\<close> sets it to its default in every row; a table that does not exist yet, or no more, is
  empty.  The tables of the old policy model are fields of their own.  Foreign keys are enforced, as
  \<^verbatim>\<open>Open\<close> demands before it migrates.  Indexes and triggers change no row.
\<close>

subsection \<open>The store\<close>

record policy_row =
  pol_id :: int
  pol_name :: string
  pol_mode :: string
  pol_description :: string
  pol_default :: bool

record store =
  st_schema :: "nat list option"
  st_db :: db
  st_auth :: auth_db
  st_limits :: limit_table
  st_tokens :: token_table
  st_log :: log_tables
  st_audit :: "AuditLog list"
  st_audit_seq :: int
  st_tesla :: tesla_tables
  st_adblock :: "string list"
  st_allowed :: "string list"
  st_blocked :: "(string \<times> string \<times> string) list"
  st_policies :: "policy_row list"
  st_policies_seq :: int
  st_policy_domains :: "(int \<times> string \<times> string) list"
  st_device_policies :: "(string \<times> int) list"
  st_device_presets :: "(string \<times> int) list"

definition empty_store :: store where
  "empty_store = \<lparr>st_schema = None, st_db = empty_db, st_auth = \<lparr>users = [], users_seq = 0, sessions = []\<rparr>,
     st_limits = \<lparr>limits = [], limits_seq = 0\<rparr>, st_tokens = \<lparr>tokens = [], tokens_seq = 0\<rparr>, st_log = no_log,
     st_audit = [], st_audit_seq = 0, st_tesla = \<lparr>tesla_pairing = [], tesla_command_log = [], command_log_seq = 0\<rparr>,
     st_adblock = [], st_allowed = [], st_blocked = [], st_policies = [], st_policies_seq = 0, st_policy_domains = [],
     st_device_policies = [], st_device_presets = []\<rparr>"

type_synonym statement = "store \<Rightarrow> store option"

fun run :: "statement list \<Rightarrow> statement" where
  "run [] s = Some s"
| "run (f # fs) s = Option.bind (f s) (run fs)"

definition change :: "(db \<Rightarrow> db) \<Rightarrow> statement" where
  "change f s = Some (s\<lparr>st_db := f (st_db s)\<rparr>)"

subsection \<open>Statements on the filters\<close>

text \<open>The name is unique, so a subquery by name gives at most one row.  An ignored row uses up its id.\<close>

definition filter_named :: "string \<Rightarrow> db \<Rightarrow> Filter option" where
  "filter_named n d = find (\<lambda>f. f_name f = n) (filters d)"

definition append_filter :: "string \<Rightarrow> string \<Rightarrow> bool \<Rightarrow> bool \<Rightarrow> string \<Rightarrow> db \<Rightarrow> db" where
  "append_filter n desc sys en grp d =
     d\<lparr>filters := filters d @ [\<lparr>f_id = filters_seq d + 1, f_name = n, f_description = desc, f_is_system = sys, f_enabled = en,
          f_group = grp, f_ports = []\<rparr>], filters_seq := filters_seq d + 1\<rparr>"

definition insert_filter :: "string \<Rightarrow> string \<Rightarrow> bool \<Rightarrow> bool \<Rightarrow> string \<Rightarrow> statement" where
  "insert_filter n desc sys en grp s =
     (if filter_named n (st_db s) = None then change (append_filter n desc sys en grp) s else None)"

definition insert_or_ignore_filter :: "string \<Rightarrow> string \<Rightarrow> bool \<Rightarrow> bool \<Rightarrow> string \<Rightarrow> statement" where
  "insert_or_ignore_filter n desc sys en grp s =
     change (if filter_named n (st_db s) = None then append_filter n desc sys en grp else (\<lambda>d. d\<lparr>filters_seq := filters_seq d + 1\<rparr>)) s"

definition insert_missing_filter :: "string \<Rightarrow> string \<Rightarrow> bool \<Rightarrow> bool \<Rightarrow> string \<Rightarrow> statement" where
  "insert_missing_filter n desc sys en grp s =
     (if filter_named n (st_db s) = None then change (append_filter n desc sys en grp) s else Some s)"

definition update_named :: "string \<Rightarrow> (Filter \<Rightarrow> Filter) \<Rightarrow> db \<Rightarrow> db" where
  "update_named n g d = d\<lparr>filters := map (\<lambda>f. if f_name f = n then g f else f) (filters d)\<rparr>"

text \<open>A new name that another row has violates \<^verbatim>\<open>UNIQUE\<close>.\<close>

definition rename_filter :: "string \<Rightarrow> string \<Rightarrow> string \<Rightarrow> string \<Rightarrow> statement" where
  "rename_filter old new desc grp s =
     (if filter_named old (st_db s) \<noteq> None \<and> filter_named new (st_db s) \<noteq> None then None
      else change (update_named old (\<lambda>f. f\<lparr>f_name := new, f_description := desc, f_group := grp\<rparr>)) s)"

definition in_filter :: "string \<Rightarrow> db \<Rightarrow> int \<Rightarrow> bool" where
  "in_filter n d i \<longleftrightarrow> (case filter_named n d of None \<Rightarrow> False | Some f \<Rightarrow> f_id f = i)"

text \<open>The foreign keys cascade.\<close>

definition delete_named :: "string \<Rightarrow> db \<Rightarrow> db" where
  "delete_named n d =
     d\<lparr>filters := filter (\<lambda>f. f_name f \<noteq> n) (filters d),
       filter_domains := filter (\<lambda>x. \<not> in_filter n d (d_filter x)) (filter_domains d),
       filter_udp_ports := filter (\<lambda>p. \<not> in_filter n d (p_preset p)) (filter_udp_ports d),
       filter_tcp_ports := filter (\<lambda>p. \<not> in_filter n d (p_preset p)) (filter_tcp_ports d)\<rparr>"

text \<open>\<^verbatim>\<open>INSERT INTO filter_domains SELECT id, ... FROM filters WHERE name = ...\<close>, with or without \<^verbatim>\<open>OR IGNORE\<close>: a row is
  the filter's name, the domain, its description and whether it is enabled.\<close>

fun add_domain :: "bool \<Rightarrow> string \<times> string \<times> string \<times> bool \<Rightarrow> db \<Rightarrow> db option" where
  "add_domain ignore (n, site, desc, en) d =
     (case filter_named n d of
        None \<Rightarrow> Some d
      | Some f \<Rightarrow>
          if list_ex (\<lambda>x. d_filter x = f_id f \<and> d_domain x = site) (filter_domains d)
          then (if ignore then Some (d\<lparr>domains_seq := domains_seq d + 1\<rparr>) else None)
          else Some (d\<lparr>domains_seq := domains_seq d + 1, filter_domains := filter_domains d @
                 [\<lparr>d_id = domains_seq d + 1, d_filter = f_id f, d_domain = site, d_description = desc, d_enabled = en\<rparr>]\<rparr>))"

fun add_domains :: "bool \<Rightarrow> (string \<times> string \<times> string \<times> bool) list \<Rightarrow> db \<Rightarrow> db option" where
  "add_domains ignore [] d = Some d"
| "add_domains ignore (x # xs) d = Option.bind (add_domain ignore x d) (add_domains ignore xs)"

definition insert_domains :: "bool \<Rightarrow> (string \<times> string \<times> string \<times> bool) list \<Rightarrow> statement" where
  "insert_domains ignore rows s = map_option (\<lambda>d. s\<lparr>st_db := d\<rparr>) (add_domains ignore rows (st_db s))"

definition delete_domain :: "string \<Rightarrow> string \<Rightarrow> db \<Rightarrow> db" where
  "delete_domain site n d = d\<lparr>filter_domains := filter (\<lambda>x. \<not> (d_domain x = site \<and> in_filter n d (d_filter x))) (filter_domains d)\<rparr>"

definition enable_domain :: "string \<Rightarrow> string \<Rightarrow> db \<Rightarrow> db" where
  "enable_domain site n d =
     d\<lparr>filter_domains := map (\<lambda>x. if d_domain x = site \<and> in_filter n d (d_filter x) then x\<lparr>d_enabled := True\<rparr> else x) (filter_domains d)\<rparr>"

definition with_port :: "string \<Rightarrow> int \<Rightarrow> db \<Rightarrow> port_row list \<Rightarrow> port_row list" where
  "with_port n p d rows =
     (case filter_named n d of
        None \<Rightarrow> rows
      | Some f \<Rightarrow> if list_ex (\<lambda>r. p_preset r = f_id f \<and> p_port r = p) rows then rows
                   else rows @ [\<lparr>p_preset = f_id f, p_port = p, p_description = []\<rparr>])"

definition insert_udp :: "string \<Rightarrow> int \<Rightarrow> db \<Rightarrow> db" where
  "insert_udp n p d = d\<lparr>filter_udp_ports := with_port n p d (filter_udp_ports d)\<rparr>"

definition insert_tcp :: "string \<Rightarrow> int \<Rightarrow> db \<Rightarrow> db" where
  "insert_tcp n p d = d\<lparr>filter_tcp_ports := with_port n p d (filter_tcp_ports d)\<rparr>"

definition described :: "string \<Rightarrow> int \<Rightarrow> string \<Rightarrow> db \<Rightarrow> port_row list \<Rightarrow> port_row list" where
  "described n p text d = map (\<lambda>r. if p_port r = p \<and> in_filter n d (p_preset r) then r\<lparr>p_description := text\<rparr> else r)"

definition describe_udp :: "string \<Rightarrow> int \<Rightarrow> string \<Rightarrow> db \<Rightarrow> db" where
  "describe_udp n p text d = d\<lparr>filter_udp_ports := described n p text d (filter_udp_ports d)\<rparr>"

definition describe_tcp :: "string \<Rightarrow> int \<Rightarrow> string \<Rightarrow> db \<Rightarrow> db" where
  "describe_tcp n p text d = d\<lparr>filter_tcp_ports := described n p text d (filter_tcp_ports d)\<rparr>"

subsection \<open>Statements on the other tables\<close>

definition seed_setting :: "string \<times> string \<Rightarrow> db \<Rightarrow> db" where
  "seed_setting kv d = (if fst kv \<in> fst ` set (settings d) then d else d\<lparr>settings := settings d @ [kv]\<rparr>)"

definition seed_settings :: "(string \<times> string) list \<Rightarrow> statement" where
  "seed_settings kvs = change (fold seed_setting kvs)"

definition update_devices :: "(Device \<Rightarrow> bool) \<Rightarrow> (Device \<Rightarrow> Device) \<Rightarrow> db \<Rightarrow> db" where
  "update_devices P g d = d\<lparr>devices := map (\<lambda>x. if P x then g x else x) (devices d)\<rparr>"

definition seed_blocked :: "(string \<times> string \<times> string) list \<Rightarrow> statement" where
  "seed_blocked rows s =
     Some (s\<lparr>st_blocked := fold (\<lambda>r rs. if fst r \<in> fst ` set rs then rs else rs @ [r]) rows (st_blocked s)\<rparr>)"

text \<open>The name of a policy is unique, and at most one policy is the default.\<close>

definition seed_policy :: "string \<Rightarrow> string \<Rightarrow> string \<Rightarrow> bool \<Rightarrow> statement" where
  "seed_policy n mode desc def s =
     Some (s\<lparr>st_policies_seq := st_policies_seq s + 1,
        st_policies := (if list_ex (\<lambda>p. pol_name p = n \<or> def \<and> pol_default p) (st_policies s) then st_policies s
          else st_policies s @ [\<lparr>pol_id = st_policies_seq s + 1, pol_name = n, pol_mode = mode, pol_description = desc, pol_default = def\<rparr>])\<rparr>)"

definition seed_policy_domain :: "string \<Rightarrow> string \<Rightarrow> statement" where
  "seed_policy_domain site desc s =
     Some (case find (\<lambda>p. pol_name p = ''Tesla'') (st_policies s) of
        None \<Rightarrow> s
      | Some p \<Rightarrow> if list_ex (\<lambda>x. fst x = pol_id p \<and> fst (snd x) = site) (st_policy_domains s) then s
                  else s\<lparr>st_policy_domains := st_policy_domains s @ [(pol_id p, site, desc)]\<rparr>)"

definition lower_ascii :: "string \<Rightarrow> string" where
  "lower_ascii = map lower_char"

text \<open>Dropping a table deletes its rows first, and the foreign keys of \<^verbatim>\<open>policy_allowed_domains\<close> and
  \<^verbatim>\<open>device_policies\<close> cascade.  The copy keeps the ids, and its counter is the largest of them.\<close>

definition rebuild_policies :: statement where
  "rebuild_policies s =
     (let gone = pol_id ` set (st_policies s) in
      Some (s\<lparr>st_policies_seq := foldr max (map pol_id (st_policies s)) 0,
        st_policy_domains := filter (\<lambda>x. fst x \<notin> gone) (st_policy_domains s),
        st_device_policies := filter (\<lambda>x. snd x \<notin> gone) (st_device_policies s)\<rparr>))"

text \<open>The MACs with a policy of which the mode is as asked.\<close>

definition assigned :: "(string \<Rightarrow> bool) \<Rightarrow> store \<Rightarrow> string list" where
  "assigned P s =
     map (\<lambda>x. lower_ascii (fst x))
       (filter (\<lambda>x. list_ex (\<lambda>p. pol_id p = snd x \<and> P (pol_mode p)) (st_policies s)) (st_device_policies s))"

definition classify_devices :: "(string \<Rightarrow> bool) \<Rightarrow> string \<Rightarrow> statement" where
  "classify_devices P st s = change (update_devices (\<lambda>x. lower_ascii (dev_mac x) \<in> set (assigned P s)) (\<lambda>x. x\<lparr>dev_status := st\<rparr>)) s"

definition attach_nav :: statement where
  "attach_nav s =
     Some (case (find (\<lambda>p. pol_name p = ''Tesla'') (st_policies s), filter_named ''Tesla AP/Nav'' (st_db s)) of
        (Some p, Some f) \<Rightarrow> s\<lparr>st_device_presets := remdups (st_device_presets s @
           map (\<lambda>x. (lower_ascii (fst x), f_id f)) (filter (\<lambda>x. snd x = pol_id p) (st_device_policies s)))\<rparr>
      | _ \<Rightarrow> s)"

definition enable_attached :: statement where
  "enable_attached s =
     change (\<lambda>d. d\<lparr>filters := map (\<lambda>f. if f_id f \<in> snd ` set (st_device_presets s) then f\<lparr>f_enabled := True\<rparr> else f) (filters d)\<rparr>) s"

definition enable_nav_domains :: "db \<Rightarrow> db" where
  "enable_nav_domains d =
     d\<lparr>filter_domains := map (\<lambda>x. if in_filter ''Tesla AP/Nav'' d (d_filter x) \<and>
          list_ex (\<lambda>f. f_name f = ''Tesla AP/Nav'' \<and> f_enabled f) (filters d) \<and> \<not> d_enabled x
        then x\<lparr>d_enabled := True\<rparr> else x) (filter_domains d)\<rparr>"

definition old_hole :: "FirewallRule \<Rightarrow> bool" where
  "old_hole r \<longleftrightarrow> r_direction r = ''forward'' \<and> r_action r = ''accept'' \<and>
     (r_protocol r = ''udp'' \<and> r_dest_port r \<in> {''443'', ''19302''} \<or> r_protocol r = ''tcp'' \<and> r_dest_port r \<in> {''5228'', ''4070''})"

subsection \<open>Seeded rows\<close>

definition v5_blocked :: "(string \<times> string \<times> string) list" where
  "v5_blocked =
    [(''ota.vn.tesla.services'', ''exact'', ''Tesla firmware update channel''),
     (''ota.cn.tesla.services'', ''exact'', ''Tesla firmware update channel (China)''),
     (''firmware.vn.tesla.services'', ''suffix'', ''Tesla firmware metadata''),
     (''software-update.tesla.com'', ''suffix'', ''Tesla update orchestration''),
     (''dl.tesla.com'', ''exact'', ''Tesla firmware blob CDN''),
     (''tesla-cdn.com'', ''suffix'', ''Tesla asset and firmware CDN''),
     (''tesla-cdn.net'', ''suffix'', ''Tesla asset and firmware CDN''),
     (''diag.vn.tesla.services'', ''exact'', ''Tesla remote diagnostics''),
     (''remote-diagnostics.tesla.com'', ''suffix'', ''Tesla remote service access'')]"

definition v10_blocked :: "(string \<times> string \<times> string) list" where
  "v10_blocked =
    [(''mothership.vn.teslamotors.com'', ''suffix'', ''Tesla fleet command/sync (Preset B)''),
     (''firmware-ota.vn.teslamotors.com'', ''suffix'', ''Tesla OTA push orchestration''),
     (''firmware-bundles.vn.teslamotors.com'', ''suffix'', ''Tesla OTA firmware bundle CDN''),
     (''firmware-media.vn.teslamotors.com'', ''suffix'', ''Tesla firmware media assets''),
     (''firmware-media-adapter.vn.teslamotors.com'', ''suffix'', ''Tesla firmware media adapter''),
     (''hermes-prd.ap.tesla.services'', ''suffix'', ''Tesla Hermes mTLS command WebSocket''),
     (''hermes-api.prd.aus07.vn.cloud.tesla.com'', ''suffix'', ''Tesla Hermes REST companion''),
     (''hermes-stream-api.prd.aus07.vn.cloud.tesla.com'', ''suffix'', ''Tesla Hermes streaming pipeline''),
     (''hermes-prd1.i.tslans.net'', ''suffix'', ''Tesla Hermes cellular fallback''),
     (''hermes-stream-prd1.i.tslans.net'', ''suffix'', ''Tesla Hermes stream cellular''),
     (''apf-api.prd.vn.cloud.tesla.com'', ''suffix'', ''Tesla AP Firmware API''),
     (''telemetry-prd.ap.tesla.services'', ''suffix'', ''Tesla AP telemetry live stream''),
     (''telemetry-prd.vn.tesla.services'', ''suffix'', ''Tesla MCU interaction telemetry''),
     (''logupload-prod.vn.tesla.services'', ''suffix'', ''Tesla car log upload''),
     (''x1.ap.tesla.services'', ''suffix'', ''Tesla FSD parking-lot data upload''),
     (''x3-prod.obs.tesla.com'', ''suffix'', ''Tesla Sentry / dashcam cloud upload''),
     (''x3-static.obs.tesla.com'', ''suffix'', ''Tesla Sentry static assets''),
     (''s3.ap.tesla.services'', ''exact'', ''Tesla S3 bulk upload''),
     (''tesla-hermes-snapshot.s3.us-west-2.amazonaws.com'', ''exact'', ''Tesla Sentry snapshot bucket (US)''),
     (''tesla-hermes-snapshot-eu.s3.eu-central-1.amazonaws.com'', ''exact'', ''Tesla Sentry snapshot bucket (EU)''),
     (''fake.hypnos.vn.tesla.services'', ''suffix'', ''Tesla a/b test + feature-flag sink''),
     (''remote-access-registry.ap.teslamotors.com'', ''suffix'', ''Tesla engineering remote SSH gateway''),
     (''info-server.mo.tesla.services'', ''suffix'', ''Tesla manufacturing info server''),
     (''mes.mo.tesla.services'', ''suffix'', ''Tesla Manufacturing Execution System''),
     (''sim-fac.mo.tesla.services'', ''suffix'', ''Tesla SIM provisioning registry''),
     (''api-prd.ap.tesla.services'', ''suffix'', ''Tesla AP diagnostic log API''),
     (''api-eng.ap.tesla.services'', ''suffix'', ''Tesla engineering AP API''),
     (''hermes-eng.ap.tesla.services'', ''suffix'', ''Tesla engineering Hermes''),
     (''telemetry-eng.ap.tesla.services'', ''suffix'', ''Tesla engineering AP telemetry''),
     (''telemetry-eng.vn.tesla.services'', ''suffix'', ''Tesla engineering VN telemetry''),
     (''logupload-eng.vn.tesla.services'', ''suffix'', ''Tesla engineering log upload''),
     (''x3-eng.obs.tesla.com'', ''suffix'', ''Tesla engineering object storage''),
     (''apf-api.eng.vn.cloud.tesla.com'', ''suffix'', ''Tesla engineering AP firmware''),
     (''webapp-eng.vn.cloud.tesla.com'', ''suffix'', ''Tesla engineering webapps''),
     (''navsrv.eng.go.tesla.services'', ''suffix'', ''Tesla engineering nav (beats go.tesla.services allow)''),
     (''api-fac-vn-tesla-services.i.tslans.net'', ''suffix'', ''Tesla factory provisioning''),
     (''tesla-hermes-snapshot-eng.s3.us-west-2.amazonaws.com'', ''exact'', ''Tesla engineering snapshot bucket''),
     (''tesla-hermes-snapshot-eng-eu.s3.eu-central-1.amazonaws.com'', ''exact'', ''Tesla engineering snapshot bucket EU''),
     (''typhoon.fw.teslamotors.com'', ''suffix'', ''Tesla internal Jenkins build server''),
     (''github-fw.tesla.com'', ''suffix'', ''Tesla internal GitHub''),
     (''stash.teslamotors.com'', ''exact'', ''Tesla internal Bitbucket''),
     (''confluence.teslamotors.com'', ''exact'', ''Tesla internal wiki''),
     (''artifactory.teslamotors.com'', ''exact'', ''Tesla internal artifactory''),
     (''toolbox.tesla.com'', ''exact'', ''Tesla Toolbox service portal''),
     (''toolbox.teslamotors.com'', ''exact'', ''Tesla Toolbox service portal''),
     (''toolbox-beta.teslamotors.com'', ''suffix'', ''Tesla Toolbox beta''),
     (''toolbox-stg.teslamotors.com'', ''suffix'', ''Tesla Toolbox staging''),
     (''toolbox-external-stg.teslamotors.com'', ''suffix'', ''Tesla Toolbox external staging''),
     (''toolbox-mfg.teslamotors.com'', ''suffix'', ''Tesla Toolbox manufacturing''),
     (''va.teslamotors.com'', ''exact'', ''Tesla internal va service''),
     (''epc.tesla.com'', ''exact'', ''Tesla Electronic Parts Catalog''),
     (''parts.tesla.com'', ''exact'', ''Tesla parts portal'')]"

definition v15_domains :: "(string \<times> string \<times> string \<times> bool) list" where
  "v15_domains =
    [(''Tesla AP/Nav'', ''daws.tesla.services'', ''Tesla nav data '' @ em_dash @ '' single-name cert on CloudFront, audited safe'', True),
     (''Tesla AP/Nav'', ''apmv3.go.tesla.services'', ''Tesla Autopilot map data v3 '' @ em_dash @ '' single-name cert on Akamai, audited safe'', True),
     (''Tesla AP/Nav'', ''maps-eu-prd.go.tesla.services'', ''Tesla EU maps backend '' @ em_dash @ '' mTLS, 4-SAN cert (regional map servers, no wildcard)'', True),
     (''Tesla AP/Nav'', ''maps.googleapis.com'', ''Google maps / geocoding fallback '' @ em_dash @ '' wildcard, but no Tesla overlap'', True),
     (''YouTube'', ''youtube.com'', ''YouTube web app + API'', True),
     (''YouTube'', ''googlevideo.com'', ''YouTube video CDN (segments)'', True),
     (''YouTube'', ''ytimg.com'', ''YouTube thumbnails'', True),
     (''YouTube'', ''ggpht.com'', ''YouTube channel avatars'', True),
     (''YouTube'', ''youtu.be'', ''YouTube short-URL redirects'', True),
     (''Netflix'', ''netflix.com'', ''Netflix web/app + API'', True),
     (''Netflix'', ''nflxvideo.net'', ''Netflix video CDN'', True),
     (''Netflix'', ''nflximg.com'', ''Netflix images / box-art'', True),
     (''Netflix'', ''nflxext.com'', ''Netflix external assets'', True),
     (''Netflix'', ''nflxso.net'', ''Netflix static origin'', True),
     (''Disney+'', ''disneyplus.com'', ''Disney+ web/app'', True),
     (''Disney+'', ''disney-plus.net'', ''Disney+ related origin'', True),
     (''Disney+'', ''dssott.com'', ''Disney Streaming Services origin / token API'', True),
     (''Disney+'', ''bamgrid.com'', ''BAMTech / Disney Streaming Services CDN'', True)]"

definition v18_youtube :: "(string \<times> string \<times> string \<times> bool) list" where
  "v18_youtube =
    [(''YouTube'', ''accounts.google.bg'', ''BG branch of accounts.google.com'', True),
     (''YouTube'', ''accounts.google.com'', ''login'', True),
     (''YouTube'', ''fonts.googleapis.com'', ''fonts'', True),
     (''YouTube'', ''fonts.gstatic.com'', ''fonts'', True),
     (''YouTube'', ''gds.google.com'', ''OAuth2 login'', True),
     (''YouTube'', ''www.google.com'', ''needed for youtube to play videos'', True),
     (''YouTube'', ''www.gstatic.com'', ''static content'', True),
     (''YouTube'', ''youtube-ui.l.google.com'', ''used by Tesla'', True)]"

definition v18_maps :: "(string \<times> string \<times> string \<times> bool) list" where
  "v18_maps =
    [(''Maps & Time'', ''mt.l.google.com'', ''Map Tiles'', True),
     (''Maps & Time'', ''tile.googleapis.com'', ''Map Tiles'', True),
     (''Maps & Time'', ''maps.googleapis.com'', ''Maps'', True),
     (''Maps & Time'', ''places.googleapis.com'', ''Search in Maps'', True),
     (''Maps & Time'', ''pool.ntp.org'', ''Time Sync'', True)]"

definition v19_maps :: "(string \<times> string \<times> string \<times> bool) list" where
  "v19_maps =
    [(''Maps & Time'', ''mt0.google.com'', ''internal Map Tile service'', True),
     (''Maps & Time'', ''mt1.google.com'', ''internal Map Tile Service'', True),
     (''Maps & Time'', ''mt2.google.com'', ''internal Map Tile Service'', True),
     (''Maps & Time'', ''mt3.google.com'', ''internal Map Tile Service'', True),
     (''Maps & Time'', ''www.googleapis.com'', ''Terrain Maps'', True)]"

definition v19_youtube :: "(string \<times> string \<times> string \<times> bool) list" where
  "v19_youtube =
    [(''YouTube'', ''lh3.googleusercontent.com'', ''google cdn'', True),
     (''YouTube'', ''oauth2.googleapis.com'', ''YT Music auth'', False)]"

definition v19_twitch :: "(string \<times> string \<times> string \<times> bool) list" where
  "v19_twitch =
    [(''Twitch'', ''ext-twitch.tv'', ''interactive twitch extensions isolated from main site'', True),
     (''Twitch'', ''jtvw.net'', ''cdn'', True),
     (''Twitch'', ''live-video.net'', ''cdn'', True),
     (''Twitch'', ''static-cdn.jtvnw.net'', ''cdn'', True),
     (''Twitch'', ''ttvnw.net'', ''twitch per user service'', True),
     (''Twitch'', ''ttvw.net'', ''cdn'', True),
     (''Twitch'', ''twitch.map.fastly.net'', ''twitch service'', True),
     (''Twitch'', ''twitch.tv'', ''main twitch endpoint'', True),
     (''Twitch'', ''twitchcdn.net'', ''cdn'', True)]"

definition v22_grok :: "(string \<times> string \<times> string \<times> bool) list" where
  "v22_grok =
    [(''Grok'', ''assistant-api.prd.euw1.vn.cloud.tesla.com'', ''Grok / voice assistant endpoint '' @ em_dash @ '' EU (euw1)'', True),
     (''Grok'', ''assistant-api.prd.na.vn.cloud.tesla.com'', ''Grok / voice assistant endpoint '' @ em_dash @ '' NA'', True)]"

definition v22_connectivity :: "(string \<times> string \<times> string \<times> bool) list" where
  "v22_connectivity =
    [(''Connectivity'', ''www.google.com'', ''Car online/reachability check'', True),
     (''Connectivity'', ''google.com'', ''Car online/reachability check'', True)]"

definition v23_system :: "(string \<times> string \<times> string \<times> bool) list" where
  "v23_system =
    [(''Connectivity'', ''adtrafficquality.google'', ''Chrome'', True),
     (''Connectivity'', ''api.radiotime.com'', ''Radio'', True),
     (''Connectivity'', ''controlplane.tailscale.com'', ''tailscale'', True),
     (''Connectivity'', ''edgedl.me.gvt1.com'', ''chrome extensions'', True),
     (''Connectivity'', ''google-analytics.com'', ''Chrome'', True),
     (''Connectivity'', ''google.de'', ''Google'', True),
     (''Connectivity'', ''googleadservices.com'', ''Chrome'', True),
     (''Connectivity'', ''googletagmanager.com'', ''Chrome extensions'', True),
     (''Connectivity'', ''googleusercontent.com'', ''Chrome extension downloads'', True),
     (''Connectivity'', ''gstatic.com'', ''Chrome'', True),
     (''Connectivity'', ''log.tailscale.com'', ''tailscale'', True),
     (''Connectivity'', ''mobile.events.data.microsoft.com'', ''msft'', True),
     (''Connectivity'', ''pagead2.googlesyndication.com'', ''Chrome'', True),
     (''Connectivity'', ''www.microsoft.com'', ''microsoft'', True),
     (''Grok'', ''speechcontainerpipeline.blob.core.windows.net'', ''Speech'', True),
     (''Netflix'', ''ae.nflximg.net'', ''netflix imgs'', True),
     (''Netflix'', ''onetrust.com'', ''Netflix'', True),
     (''Netflix'', ''onetrust.io'', ''Netflix'', True),
     (''YouTube'', ''cnrd.io'', ''yt music'', True),
     (''YouTube'', ''content-autofill.googleapis.com'', ''consent'', True),
     (''YouTube'', ''googleapis.com'', ''allow all google apis'', True),
     (''YouTube'', ''t1.cnrd.io'', ''music'', True)]"

definition v23_apps :: "(string \<times> string \<times> string \<times> bool) list" where
  "v23_apps =
    [(''F1'', ''formula1.com'', ''formula 1'', True),
     (''Hulu'', ''adobedtm.com'', ''CDN'', True),
     (''Hulu'', ''bamgrid.com'', ''disney'', True),
     (''Hulu'', ''browser-intake-datadoghq.com'', ''browser'', True),
     (''Hulu'', ''cdn.cookielaw.org'', ''CDN'', True),
     (''Hulu'', ''cdn.jsdelivr.net'', ''cdn'', True),
     (''Hulu'', ''clientsdk.launchdarkly.com'', ''cdn'', True),
     (''Hulu'', ''consent-api.onetrust.com'', ''consent'', True),
     (''Hulu'', ''conviva.com'', ''hulu videos'', True),
     (''Hulu'', ''demdex.net'', ''CDN'', True),
     (''Hulu'', ''disney-plus.net'', ''disney'', True),
     (''Hulu'', ''disney.com'', ''disney'', True),
     (''Hulu'', ''disneyplus.com'', ''disney'', True),
     (''Hulu'', ''dssott.com'', ''watching videos'', True),
     (''Hulu'', ''espn.com'', ''espn'', True),
     (''Hulu'', ''events.launchdarkly.com'', ''events'', True),
     (''Hulu'', ''hulu.com'', ''hulu'', True),
     (''Hulu'', ''log.go.com'', ''login'', True),
     (''Hulu'', ''prod-static.disney-plus.net'', ''disney'', True),
     (''Hulu'', ''registerdisney.go.com'', ''disney'', True),
     (''Hulu'', ''unpkg.com'', ''unpkg'', True),
     (''Hulu'', ''www.disneyplus.com'', ''disney'', True),
     (''Hulu'', ''www.hulu.com'', ''Hulu'', True),
     (''Max'', ''1rx.io'', ''Hbo'', True),
     (''Max'', ''33across.com'', ''Hbo'', True),
     (''Max'', ''360yield.com'', ''Hbo'', True),
     (''Max'', ''3lift.com'', ''Hbo'', True),
     (''Max'', ''ad-stir.com'', ''Hbo'', True),
     (''Max'', ''adingo.jp'', ''Hbo'', True),
     (''Max'', ''admixer.net'', ''Hbo'', True),
     (''Max'', ''adnxs.com'', ''Hbo'', True),
     (''Max'', ''adsrvr.org'', ''js'', True),
     (''Max'', ''adtarget.com.tr'', ''Hbo'', True),
     (''Max'', ''adtech.ink'', ''Hbo'', True),
     (''Max'', ''amplitude.com'', ''Hbo'', True),
     (''Max'', ''app.link'', ''Hbo'', True),
     (''Max'', ''atlas.ngtv.io'', ''max'', True),
     (''Max'', ''bidence.net'', ''Hbo'', True),
     (''Max'', ''bing.com'', ''Hbo'', True),
     (''Max'', ''branch.io'', ''Hbo'', True),
     (''Max'', ''braze-images.com'', ''max images'', True),
     (''Max'', ''braze.com'', ''images'', True),
     (''Max'', ''brightline.tv'', ''hbo'', True),
     (''Max'', ''byspotify.com'', ''Hbo'', True),
     (''Max'', ''casalemedia.com'', ''Hbo'', True),
     (''Max'', ''ck-ie.com'', ''Hbo'', True),
     (''Max'', ''connectad.io'', ''Hbo'', True),
     (''Max'', ''contextweb.com'', ''Hbo'', True),
     (''Max'', ''creativecdn.com'', ''Cdn'', True),
     (''Max'', ''discomax.com'', ''images max'', True),
     (''Max'', ''dmxleo.com'', ''Hbo'', True),
     (''Max'', ''doubleclick.net'', ''Ads'', True),
     (''Max'', ''e-planning.net'', ''Hbo'', True),
     (''Max'', ''e.hbo'', ''hbo video'', True),
     (''Max'', ''feroot.com'', ''Max'', True),
     (''Max'', ''fwmrm.net'', ''hbo video'', True),
     (''Max'', ''go-mpulse.net'', ''Hbo'', True),
     (''Max'', ''google.bg'', ''Max'', True),
     (''Max'', ''googlesyndication.com'', ''Max'', True),
     (''Max'', ''gssprt.jp'', ''Hbo'', True),
     (''Max'', ''gumgum.com'', ''Hbo'', True),
     (''Max'', ''hbomax.com'', ''hbomax'', True),
     (''Max'', ''inmobi.com'', ''Hbo'', True),
     (''Max'', ''lijit.com'', ''Hbo'', True),
     (''Max'', ''loopme.me'', ''Hbo'', True),
     (''Max'', ''max.com'', ''max'', True),
     (''Max'', ''media.net'', ''Hbo'', True),
     (''Max'', ''mediamelon.com'', ''hbo video'', True),
     (''Max'', ''mgid.com'', ''Hbo'', True),
     (''Max'', ''microad.jp'', ''Hbo'', True),
     (''Max'', ''missena.io'', ''Hbo'', True),
     (''Max'', ''mobon.net'', ''Hbo'', True),
     (''Max'', ''ne.jp'', ''Hbo'', True),
     (''Max'', ''nexx360.io'', ''Hbo'', True),
     (''Max'', ''onetag-sys.com'', ''Hbo'', True),
     (''Max'', ''openx.net'', ''Hbo'', True),
     (''Max'', ''opera.com'', ''Hbo'', True),
     (''Max'', ''outbrain.com'', ''Hbo'', True),
     (''Max'', ''pinimg.com'', ''Hbo'', True),
     (''Max'', ''pinterest.com'', ''Hbo'', True),
     (''Max'', ''pubmatic.com'', ''Hbo'', True),
     (''Max'', ''rakuten.com'', ''Hbo'', True),
     (''Max'', ''reddit.com'', ''Hbo'', True),
     (''Max'', ''redditstatic.com'', ''Cdn'', True),
     (''Max'', ''rubiconproject.com'', ''Hbo'', True),
     (''Max'', ''s.go-mpulse.net'', ''max'', True),
     (''Max'', ''seedtag.com'', ''Hbo'', True),
     (''Max'', ''sharethrough.com'', ''Hbo'', True),
     (''Max'', ''smaato.net'', ''Hbo'', True),
     (''Max'', ''smartadserver.com'', ''Hbo'', True),
     (''Max'', ''socdm.com'', ''Hbo'', True),
     (''Max'', ''sonobi.com'', ''Hbo'', True),
     (''Max'', ''taboola.com'', ''Hbo'', True),
     (''Max'', ''teads.tv'', ''Max'', True),
     (''Max'', ''tiktokw.us'', ''Hbo'', True),
     (''Max'', ''tpmn.co.kr'', ''Hbo'', True),
     (''Max'', ''udmserve.net'', ''Hbo'', True),
     (''Max'', ''www.hbomax.com'', ''max domain'', True),
     (''Max'', ''www.max.com'', ''main domain'', True),
     (''Max'', ''yieldmo.com'', ''Hbo'', True),
     (''Prime'', ''primevideo.com'', ''Prime'', True),
     (''Spotify'', ''spotify.com'', ''spotify'', True),
     (''TikTok'', ''tiktok.com'', ''tiktok main'', True),
     (''TikTok'', ''tiktokcdn-eu.com'', ''tiktok eu cdn'', True),
     (''TikTok'', ''tiktokcdn.com'', ''tiktok cdn'', True),
     (''TikTok'', ''www.tiktok.com'', ''tiktok main domain'', True)]"

subsection \<open>The seeded domains\<close>

text \<open>A quick test that implies the well-formedness of a domain: one pass over the labels, and no protected
  name is an ending of it or the other way round.\<close>

datatype place = LabelStart | AfterAlnum | AfterHyphen

fun scan_labels :: "place \<Rightarrow> string \<Rightarrow> bool" where
  "scan_labels p [] = (p = AfterAlnum)"
| "scan_labels p (c # s) =
     (if lower_alnum c then scan_labels AfterAlnum s
      else if c = CHR ''-'' then p \<noteq> LabelStart \<and> scan_labels AfterHyphen s
      else c = CHR ''.'' \<and> p = AfterAlnum \<and> scan_labels LabelStart s)"

fun is_prefix :: "string \<Rightarrow> string \<Rightarrow> bool" where
  "is_prefix [] t = True"
| "is_prefix (c # s) [] = False"
| "is_prefix (c # s) (e # t) = (c = e \<and> is_prefix s t)"

definition deny_rev :: "string list" where
  "deny_rev = map rev protectedDeny"

definition clear_of_floor :: "string \<Rightarrow> bool" where
  "clear_of_floor s = (let r = rev s in list_all (\<lambda>p. \<not> is_prefix p r \<and> \<not> is_prefix r p) deny_rev)"

fun seed_ok :: "string \<times> string \<times> string \<times> bool \<Rightarrow> bool" where
  "seed_ok (n, site, desc, en) \<longleftrightarrow> scan_labels LabelStart site \<and> length site \<le> 253 \<and> desc \<noteq> [] \<and>
     (clear_of_floor site \<or> site \<in> set assistantExempt)"

definition rest_ok :: "place \<Rightarrow> string \<Rightarrow> bool" where
  "rest_ok p w \<longleftrightarrow> (case p of
       LabelStart \<Rightarrow> label_ok w
     | AfterAlnum \<Rightarrow> list_all label_char w \<and> (w \<noteq> [] \<longrightarrow> lower_alnum (last w))
     | AfterHyphen \<Rightarrow> w \<noteq> [] \<and> list_all label_char w \<and> lower_alnum (last w))"

lemma scan_labels_split:
  "scan_labels p s \<Longrightarrow> \<exists>w ws. split_on (CHR ''.'') s = w # ws \<and> rest_ok p w \<and> list_all label_ok ws"
proof (induction p s rule: scan_labels.induct)
  case (2 p c s)
  consider (alnum) "lower_alnum c" | (hyphen) "\<not> lower_alnum c" "c = CHR ''-''" | (dot) "\<not> lower_alnum c" "c = CHR ''.''"
    using 2(4) by (cases "lower_alnum c"; cases "c = CHR ''-''") simp_all
  then show ?case
  proof cases
    case alnum
    then have "c \<noteq> CHR ''.''" by (auto simp: lower_alnum_def is_digit_def)
    moreover obtain w ws where "split_on (CHR ''.'') s = w # ws" "rest_ok AfterAlnum w" "list_all label_ok ws"
      using 2(1) 2(4) alnum by auto
    ultimately show ?thesis
      using alnum by (auto simp: rest_ok_def label_ok_def [of "c # w" for w] lower_alnum_label split: place.splits)
  next
    case hyphen
    moreover obtain w ws where "split_on (CHR ''.'') s = w # ws" "rest_ok AfterHyphen w" "list_all label_ok ws"
      using 2(2) 2(4) hyphen by (auto split: if_splits)
    moreover have "label_char (CHR ''-'')" by (simp add: label_char_def)
    ultimately show ?thesis
      using 2(4) by (auto simp: rest_ok_def split: place.splits if_splits)
  next
    case dot
    then have "p = AfterAlnum" "scan_labels LabelStart s" using 2(4) by (auto split: if_splits)
    moreover have "\<exists>w ws. split_on (CHR ''.'') s = w # ws \<and> rest_ok LabelStart w \<and> list_all label_ok ws"
      using 2(3) 2(4) dot by (auto split: if_splits)
    ultimately show ?thesis using dot by (auto simp: rest_ok_def)
  qed
qed (auto simp: rest_ok_def)

lemma is_prefix_iff: "is_prefix s t \<longleftrightarrow> prefix s t"
  by (induction s t rule: is_prefix.induct) auto

lemma seed_ok_domain:
  assumes "seed_ok (n, site, desc, en)"
  shows "ValidDomain site \<and> \<not> isProtectedDenied site \<and> \<not> isProtectedAncestor site \<and> desc \<noteq> []"
proof -
  have scan: "scan_labels LabelStart site" using assms by simp
  then have "site \<noteq> []" by auto
  with scan_labels_split [OF scan] assms have v: "ValidDomain site"
    by (auto simp: ValidDomain_iff rest_ok_def)
  then have id: "to_lower (trim_space site) = site" by (simp add: ValidDomain_trim ValidDomain_lower)
  have ends: "\<not> suffix p site \<and> \<not> suffix site p" if "clear_of_floor site" "p \<in> set protectedDeny" for p
    using that by (auto simp: clear_of_floor_def Let_def deny_rev_def list_all_iff is_prefix_iff suffix_to_prefix)
  have "\<exists>p\<in>set protectedDeny. suffix p site" if "isProtectedDenied site"
    using that unfolding isProtectedDenied_def Let_def id list_ex_iff has_suffix_iff by (auto split: if_splits dest: suffix_ConsD)
  moreover have "\<exists>p\<in>set protectedDeny. suffix site p" if "isProtectedAncestor site"
    using that unfolding isProtectedAncestor_def Let_def id list_ex_iff has_suffix_iff by (auto split: if_splits dest: suffix_ConsD)
  ultimately have "\<not> isProtectedDenied site \<and> \<not> isProtectedAncestor site" if "clear_of_floor site"
    using ends [OF that] by blast
  moreover have "list_all (\<lambda>e. \<not> isProtectedDenied e \<and> \<not> isProtectedAncestor e) assistantExempt" by code_simp
  ultimately show ?thesis using assms v by (auto simp: list_all_iff)
qed

lemma seeds_ok:
  "list_all seed_ok v15_domains" "list_all seed_ok v18_youtube" "list_all seed_ok v18_maps" "list_all seed_ok v19_maps"
  "list_all seed_ok v19_youtube" "list_all seed_ok v19_twitch" "list_all seed_ok v22_grok" "list_all seed_ok v22_connectivity"
  "list_all seed_ok v23_system"
  by code_simp+

lemma apps_ok: "list_all seed_ok v23_apps"
  by code_simp

subsection \<open>What every statement keeps\<close>

text \<open>\<open>good S N\<close>: the tables are well-formed, the devices have a status in \<open>S\<close>, and no filter has a name in \<open>N\<close>.\<close>

definition rows_ok :: "db \<Rightarrow> port_row list \<Rightarrow> bool" where
  "rows_ok d rows \<longleftrightarrow> distinct (map (\<lambda>p. (p_preset p, p_port p)) rows) \<and>
     (\<forall>p\<in>set rows. p_preset p \<in> f_id ` set (filters d) \<and> 1 \<le> p_port p \<and> p_port p \<le> 65535)"

definition good :: "string set \<Rightarrow> string set \<Rightarrow> db \<Rightarrow> bool" where
  "good S N d \<longleftrightarrow> filters_wf d \<and> rows_ok d (filter_udp_ports d) \<and> rows_ok d (filter_tcp_ports d) \<and>
     dev_status ` set (devices d) \<subseteq> S \<and> f_name ` set (filters d) \<inter> N = {}"

text \<open>A triple: from a store with \<open>P\<close> the statement leads to one with \<open>Q\<close>, and it cannot fail when \<open>t\<close> holds.\<close>

definition triple :: "bool \<Rightarrow> (db \<Rightarrow> bool) \<Rightarrow> statement \<Rightarrow> (db \<Rightarrow> bool) \<Rightarrow> bool" where
  "triple t P f Q \<longleftrightarrow> (\<forall>s. P (st_db s) \<longrightarrow> (case f s of None \<Rightarrow> \<not> t | Some s' \<Rightarrow> Q (st_db s')))"

named_theorems triples

lemma triple_Nil: "triple t P (run []) P"
  by (simp add: triple_def)

lemma triple_Cons:
  assumes "triple t P f Q" "triple t Q (run fs) R" shows "triple t P (run (f # fs)) R"
  unfolding triple_def
proof (intro allI impI)
  fix s :: store assume "P (st_db s)"
  with assms(1) have f: "case f s of None \<Rightarrow> \<not> t | Some s' \<Rightarrow> Q (st_db s')" by (simp add: triple_def)
  show "case run (f # fs) s of None \<Rightarrow> \<not> t | Some s' \<Rightarrow> R (st_db s')"
    using f assms(2) by (cases "f s") (simp_all add: triple_def)
qed

lemma triple_change: "(\<And>d. P d \<Longrightarrow> Q (f d)) \<Longrightarrow> triple t P (change f) Q"
  by (simp add: triple_def change_def)

lemma triple_other: "(\<And>s. st_db (f s) = st_db s) \<Longrightarrow> triple t P (\<lambda>s. Some (f s)) P"
  by (simp add: triple_def)

lemma triple_weaken: "triple t P f Q \<Longrightarrow> (\<And>d. P' d \<Longrightarrow> P d) \<Longrightarrow> (\<And>d. Q d \<Longrightarrow> Q' d) \<Longrightarrow> triple t P' f Q'"
  by (fastforce simp: triple_def split: option.splits)

lemma good_mono: "good S N d \<Longrightarrow> S \<subseteq> S' \<Longrightarrow> N' \<subseteq> N \<Longrightarrow> good S' N' d"
  by (auto simp: good_def)

lemma filter_named_None: "filter_named n d = None \<longleftrightarrow> n \<notin> f_name ` set (filters d)"
  by (auto simp: filter_named_def find_None_iff)

lemma filter_named_Some: "filter_named n d = Some f \<Longrightarrow> f \<in> set (filters d) \<and> f_name f = n"
  by (auto simp: filter_named_def find_Some_iff)

lemma good_append:
  assumes "good S N d" "filter_named n d = None"
  shows "good S (N - {n}) (append_filter n desc sys en grp d)"
proof -
  have "filters_seq d + 1 \<notin> f_id ` set (filters d)" "\<forall>f\<in>set (filters d). f_id f \<le> filters_seq d + 1"
    using assms(1) by (fastforce simp: good_def filters_wf_def)+
  with assms show ?thesis by (auto simp: good_def filters_wf_def rows_ok_def append_filter_def filter_named_None)
qed

lemma good_seq: "good S N d \<Longrightarrow> good S N (d\<lparr>filters_seq := filters_seq d + 1\<rparr>)"
  by (fastforce simp: good_def filters_wf_def rows_ok_def)

lemma triple_insert_filter [triples]:
  "(t \<Longrightarrow> n \<in> N) \<Longrightarrow> triple t (good S N) (insert_filter n desc sys en grp) (good S (N - {n}))"
  by (auto simp: triple_def insert_filter_def change_def filter_named_None good_append) (auto simp: good_def)

lemma triple_insert_or_ignore [triples]:
  "n \<notin> N \<Longrightarrow> triple t (good S N) (insert_or_ignore_filter n desc sys en grp) (good S N)"
  using good_append [of S N _ n] good_seq by (auto simp: triple_def insert_or_ignore_filter_def change_def)

lemma triple_insert_missing [triples]:
  "n \<notin> N \<Longrightarrow> triple t (good S N) (insert_missing_filter n desc sys en grp) (good S N)"
  using good_append [of S N _ n] by (auto simp: triple_def insert_missing_filter_def change_def)

lemma good_map_filters:
  assumes "good S N d" "\<And>f. f_id (g f) = f_id f" "distinct (map f_name (map g (filters d)))" "f_name ` g ` set (filters d) \<inter> N' = {}"
  shows "good S N' (d\<lparr>filters := map g (filters d)\<rparr>)"
  using assms wf_map_filters [of d g] by (auto simp: good_def rows_ok_def image_image)

lemma good_keep_names:
  assumes "good S N d" "\<And>f. f_id (g f) = f_id f" "\<And>f. f_name (g f) = f_name f"
  shows "good S N (d\<lparr>filters := map g (filters d)\<rparr>)"
proof -
  have "map f_name (map g xs) = map f_name xs" "f_name ` g ` set xs = f_name ` set xs" for xs
    using assms(3) by (simp_all add: o_def image_image)
  moreover have "distinct (map f_name (filters d))" "f_name ` set (filters d) \<inter> N = {}" using assms(1) by (simp_all add: good_def filters_wf_def)
  ultimately show ?thesis by (intro good_map_filters [OF assms(1,2)]) (simp_all only:)
qed

lemma triple_update_named [triples]:
  "(\<And>f. f_id (g f) = f_id f) \<Longrightarrow> (\<And>f. f_name (g f) = f_name f) \<Longrightarrow> triple t (good S N) (change (update_named n g)) (good S N)"
  by (auto simp: update_named_def intro!: triple_change good_keep_names)

lemma distinct_rename:
  assumes "distinct (map f_name xs)" "old \<in> f_name ` set xs \<longrightarrow> new \<notin> f_name ` set xs" "\<And>f. f_name (g f) = new"
  shows "distinct (map f_name (map (\<lambda>f. if f_name f = old then g f else f) xs))"
proof -
  have d: "distinct xs" "inj_on f_name (set xs)" using assms(1) by (simp_all add: distinct_map)
  have "inj_on (\<lambda>f. f_name (if f_name f = old then g f else f)) (set xs)"
  proof (rule inj_onI)
    fix a b assume "a \<in> set xs" "b \<in> set xs"
      and "f_name (if f_name a = old then g a else a) = f_name (if f_name b = old then g b else b)"
    with assms(2,3) have "f_name a = f_name b" by (auto split: if_splits)
    with d(2) \<open>a \<in> set xs\<close> \<open>b \<in> set xs\<close> show "a = b" by (simp add: inj_on_def)
  qed
  with d(1) show ?thesis by (simp add: distinct_map o_def)
qed

lemma triple_rename [triples]:
  assumes "t \<Longrightarrow> new \<in> N" "old \<noteq> new"
  shows "triple t (good S N) (rename_filter old new desc grp) (good S (N - {new}))"
proof -
  let ?g = "\<lambda>f. if f_name f = old then f\<lparr>f_name := new, f_description := desc, f_group := grp\<rparr> else f"
  have "good S (N - {new}) (update_named old (\<lambda>f. f\<lparr>f_name := new, f_description := desc, f_group := grp\<rparr>) d)"
    if d: "good S N d" and free: "old \<in> f_name ` set (filters d) \<longrightarrow> new \<notin> f_name ` set (filters d)" for d
  proof -
    have dist: "distinct (map f_name (filters d))" using d by (simp add: good_def filters_wf_def)
    have "distinct (map f_name (map ?g (filters d)))"
      using distinct_rename [OF dist free, of "\<lambda>f. f\<lparr>f_name := new, f_description := desc, f_group := grp\<rparr>"] by simp
    then show ?thesis unfolding update_named_def using d by (intro good_map_filters [OF d]) (auto simp: good_def)
  qed
  with assms show ?thesis
    by (auto simp: triple_def rename_filter_def change_def filter_named_None split: option.split) (auto simp: good_def)
qed

lemma good_other:
  assumes "good S N d" "filters d' = filters d" "filters_seq d' = filters_seq d" "filter_domains d' = filter_domains d"
    "filter_udp_ports d' = filter_udp_ports d" "filter_tcp_ports d' = filter_tcp_ports d" "dev_status ` set (devices d') \<subseteq> S'"
  shows "good S' N d'"
  using assms by (auto simp: good_def filters_wf_def rows_ok_def)

lemma triple_delete_named [triples]: "triple t (good S N) (change (delete_named n)) (good S N)"
proof (rule triple_change)
  fix d assume g: "good S N d"
  have keep: "f_name f \<noteq> n" if "f \<in> set (filters d)" "\<not> in_filter n d (f_id f)" for f
  proof
    assume n: "f_name f = n"
    with that(1) obtain h where h: "filter_named n d = Some h" using filter_named_None [of n d] by auto
    have "inj_on f_name (set (filters d))" using g by (simp add: good_def filters_wf_def distinct_map)
    then have "f = h" using n that(1) filter_named_Some [OF h] by (simp add: inj_on_def)
    with h that(2) show False by (simp add: in_filter_def)
  qed
  have ids: "i \<in> f_id ` set (filters (delete_named n d))" if "i \<in> f_id ` set (filters d)" "\<not> in_filter n d i" for i
  proof -
    from that obtain f where "f \<in> set (filters d)" "i = f_id f" "f_name f \<noteq> n" using keep by auto
    then show ?thesis by (simp add: delete_named_def)
  qed
  have "filters_wf (delete_named n d)"
    using g ids unfolding filters_wf_def good_def by (simp add: distinct_map_filter delete_named_def)
  moreover have "rows_ok (delete_named n d) (filter (\<lambda>p. \<not> in_filter n d (p_preset p)) rows)" if "rows_ok d rows" for rows
    using that ids by (simp add: rows_ok_def distinct_map_filter)
  ultimately show "good S N (delete_named n d)"
    using g by (auto simp: good_def delete_named_def)
qed

lemma good_filter_domains: "good S N d \<Longrightarrow> good S N (d\<lparr>filter_domains := filter P (filter_domains d)\<rparr>)"
  by (auto simp: good_def filters_wf_def rows_ok_def distinct_map_filter)

lemma triple_filter_domains [triples]:
  "triple t (good S N) (change (\<lambda>d. d\<lparr>filter_domains := filter (P d) (filter_domains d)\<rparr>)) (good S N)"
  by (rule triple_change) (rule good_filter_domains)

lemma triple_delete_domain [triples]: "triple t (good S N) (change (delete_domain site n)) (good S N)"
  by (rule triple_change) (simp add: delete_domain_def good_filter_domains)

lemma good_switch_domains: "good S N d \<Longrightarrow> good S N (d\<lparr>filter_domains := map (\<lambda>x. if P x then x\<lparr>d_enabled := True\<rparr> else x) (filter_domains d)\<rparr>)"
proof -
  assume g: "good S N d"
  have "map (\<lambda>fd. (d_filter fd, d_domain fd)) (map (\<lambda>x. if P x then x\<lparr>d_enabled := True\<rparr> else x) xs) = map (\<lambda>fd. (d_filter fd, d_domain fd)) xs" for xs
    by (induction xs) auto
  with g show ?thesis by (auto simp: good_def filters_wf_def rows_ok_def domain_ok_def simp del: map_map)
qed

lemma triple_switches [triples]:
  "triple t (good S N) (change (enable_domain site n)) (good S N)" "triple t (good S N) (change enable_nav_domains) (good S N)"
  by (auto simp: enable_domain_def enable_nav_domains_def intro!: triple_change good_switch_domains)

lemma good_add_domain:
  assumes "good S N d" "seed_ok x" "add_domain ig x d = Some d'"
  shows "good S N d'"
proof -
  obtain n site desc en where x: "x = (n, site, desc, en)" by (cases x)
  show ?thesis
  proof (cases "filter_named n d")
    case None
    with assms x show ?thesis by simp
  next
    case (Some f)
    then have f: "f_id f \<in> f_id ` set (filters d)" using filter_named_Some by blast
    note ok = seed_ok_domain [OF assms(2) [unfolded x]]
    have seq: "good S N (d\<lparr>domains_seq := k\<rparr>)" for k using assms(1) by (simp add: good_def filters_wf_def rows_ok_def)
    show ?thesis
    proof (cases "list_ex (\<lambda>y. d_filter y = f_id f \<and> d_domain y = site) (filter_domains d)")
      case True
      with assms(3) x Some seq show ?thesis by (auto split: if_splits)
    next
      case False
      with assms(3) x Some have d': "d' = d\<lparr>domains_seq := domains_seq d + 1, filter_domains := filter_domains d @
                 [\<lparr>d_id = domains_seq d + 1, d_filter = f_id f, d_domain = site, d_description = desc, d_enabled = en\<rparr>]\<rparr>" by simp
      show ?thesis using assms(1) False f ok unfolding d' by (auto simp: good_def filters_wf_def rows_ok_def domain_ok_def list_ex_iff)
    qed
  qed
qed

lemma good_add_domains:
  "good S N d \<Longrightarrow> list_all seed_ok xs \<Longrightarrow> add_domains ig xs d = Some d' \<Longrightarrow> good S N d'"
proof (induction xs arbitrary: d)
  case (Cons x xs)
  then obtain d1 where "add_domain ig x d = Some d1" "add_domains ig xs d1 = Some d'" by (auto simp: bind_eq_Some_conv)
  with Cons good_add_domain show ?case by fastforce
qed simp

lemma add_domains_total: "\<exists>d'. add_domains True xs d = Some d'"
proof (induction xs arbitrary: d)
  case (Cons x xs)
  have "add_domain True x d \<noteq> None" by (cases x) (simp split: option.split)
  then obtain d1 where "add_domain True x d = Some d1" by blast
  with Cons [of d1] show ?case by simp
qed simp

lemma triple_insert_domains [triples]:
  "list_all seed_ok xs \<Longrightarrow> triple t (good S N) (insert_domains True xs) (good S N)"
  "list_all seed_ok xs \<Longrightarrow> triple False (good S N) (insert_domains False xs) (good S N)"
  using good_add_domains [of S N _ xs] add_domains_total
  by (auto simp: triple_def insert_domains_def split: option.split) (metis option.distinct(1))+

lemma good_ports:
  assumes "good S N d" "1 \<le> p" "p \<le> 65535"
  shows "good S N (insert_udp n p d)" "good S N (insert_tcp n p d)"
proof -
  have "rows_ok d (with_port n p d rows)" if r: "rows_ok d rows" for rows
  proof (cases "filter_named n d")
    case (Some f)
    then have "f_id f \<in> f_id ` set (filters d)" using filter_named_Some by blast
    with r Some assms(2,3) show ?thesis by (auto simp: with_port_def rows_ok_def list_ex_iff)
  qed (use r in \<open>simp add: with_port_def\<close>)
  moreover have "rows_ok (insert_udp n p d) = rows_ok d" "rows_ok (insert_tcp n p d) = rows_ok d"
    by (simp_all add: fun_eq_iff rows_ok_def insert_udp_def insert_tcp_def)
  ultimately show "good S N (insert_udp n p d)" "good S N (insert_tcp n p d)"
    using assms(1) by (simp_all add: good_def) (simp_all add: insert_udp_def insert_tcp_def filters_wf_def)
qed

lemma triple_ports [triples]:
  "1 \<le> p \<Longrightarrow> p \<le> 65535 \<Longrightarrow> triple t (good S N) (change (insert_udp n p)) (good S N)"
  "1 \<le> p \<Longrightarrow> p \<le> 65535 \<Longrightarrow> triple t (good S N) (change (insert_tcp n p)) (good S N)"
  by (auto intro!: triple_change good_ports)

lemma rows_ok_map:
  assumes "rows_ok d rows" "\<And>r. p_preset (g r) = p_preset r" "\<And>r. p_port (g r) = p_port r"
  shows "rows_ok d (map g rows)"
proof -
  have "map (\<lambda>p. (p_preset p, p_port p)) (map g rows) = map (\<lambda>p. (p_preset p, p_port p)) rows" using assms(2,3) by simp
  with assms show ?thesis by (auto simp: rows_ok_def simp del: map_map)
qed

lemma triple_describe [triples]:
  "triple t (good S N) (change (describe_udp n p x)) (good S N)" "triple t (good S N) (change (describe_tcp n p x)) (good S N)"
  by (auto simp: good_def describe_udp_def describe_tcp_def described_def filters_wf_def intro!: triple_change rows_ok_map)
    (auto simp: rows_ok_def)

end
