(* ===== verification/Migrations.thy ===== *)
theory Migrations
  imports Schema
begin

text \<open>
  \<^verbatim>\<open>internal/database/migrations.go\<close>: the versions of the schema and \<^verbatim>\<open>Migrate\<close>, which carries an installation of any
  version forward, each version in a transaction of its own.
\<close>

subsection \<open>The versions\<close>

definition v1 :: statement where
  "v1 = run [(\<lambda>s. Some (s\<lparr>st_schema := (case st_schema s of None \<Rightarrow> Some [] | x \<Rightarrow> x)\<rparr>)),
     seed_settings [(''ap_ssid'', ''NetFilter''), (''ap_password'', ''changeme123''), (''ap_channel'', ''6''), (''dns_upstream'', ''1.1.1.1,8.8.8.8'')]]"

definition v2 :: statement where "v2 = run []"

definition v3 :: statement where "v3 = run [seed_settings [(''log_retention_days'', ''30'')]]"

definition v4 :: statement where "v4 = run []"

definition v5 :: statement where "v5 = run [seed_blocked v5_blocked]"

definition v6 :: statement where
  "v6 = run
    [seed_policy ''Default'' ''strict'' (''Fallback policy for devices with no explicit assignment. Strict + empty by default '' @ em_dash @ '' unassigned devices are blocked until you authorise them.'') True,
     seed_policy ''Tesla'' ''strict'' ''Tesla vehicle policy: connman keeps the car online; everything else blocked including OTA, diagnostics, and CDN.'' False,
     seed_policy_domain ''connman.vn.tesla.services'' ''Tesla connection-manager; keeps car online without exposing OTA.'',
     (\<lambda>s. Some (s\<lparr>st_allowed := []\<rparr>))]"

definition v7 :: statement where
  "v7 s = Some (s\<lparr>st_log := (st_log s)\<lparr>query_log := map (\<lambda>e. e\<lparr>te_source := (if te_action e = ''query'' then ''dns'' else ''forward''),
      te_policy := []\<rparr>) (query_log (st_log s))\<rparr>\<rparr>)"

definition v8 :: statement where
  "v8 s = Some (s\<lparr>st_device_policies := filter (\<lambda>x. CHR ''%'' \<notin> set (fst x)) (st_device_policies s)\<rparr>)"

definition v9 :: statement where
  "v9 = run
    [rebuild_policies,
     seed_policy ''Open'' ''open'' (''Trusted devices '' @ em_dash @ '' no allow-list filtering. Hard block-list + DoH/DoT chokepoint still apply.'') False]"

definition v10 :: statement where
  "v10 = run
    [seed_blocked v10_blocked,
     seed_policy_domain ''auth.tesla.com'' (''Tesla OAuth '' @ em_dash @ '' mobile app pairing, supercharger billing''),
     seed_policy_domain ''managed-charging.sn.tesla.services'' ''Supercharger billing + music-service OAuth proxy'',
     seed_policy_domain ''go.tesla.services'' ''Tesla map tile + routing (covers maps-*, apmv3 via suffix)'',
     seed_policy_domain ''maps.googleapis.com'' ''Google maps / geocoding / timezone fallback'']"

definition v11 :: statement where
  "v11 = change (update_devices (\<lambda>_. True) (\<lambda>x. x\<lparr>dev_ignore_log := False\<rparr>))"

definition v12 :: statement where "v12 = run []"

definition v13 :: statement where "v13 = run []"

definition v14 :: statement where
  "v14 s = Some (s\<lparr>st_blocked := []\<rparr>)"

definition v15_filters :: "statement list" where
  "v15_filters =
    [insert_filter ''Tesla AP/Nav'' ''Tesla navigation + autopilot map data. Audited safe: every entry has a tightly-scoped cert (single-name or 4-SAN no-wildcard) with no overlap onto protected endpoints.'' True False [],
     insert_filter ''YouTube'' ''YouTube web app, video CDN (googlevideo), thumbnails (ytimg), channel avatars (ggpht), short URLs (youtu.be).'' True False [],
     insert_filter ''Netflix'' ''Netflix web/app + video and image CDNs (nflxvideo, nflximg, nflxext, nflxso).'' True False [],
     insert_filter ''Disney+'' ''Disney+ streaming via BAMTech / Disney Streaming Services (disneyplus, disney-plus, dssott, bamgrid).'' True False [],
     insert_domains False v15_domains,
     attach_nav,
     (\<lambda>s. Some (s\<lparr>st_device_policies := [], st_policy_domains := [], st_policies := [], st_policies_seq := 0, st_adblock := []\<rparr>))]"

definition v15 :: statement where
  "v15 = run ([change (update_devices (\<lambda>_. True) (\<lambda>x. x\<lparr>dev_status := ''unknown''\<rparr>)),
     classify_devices (\<lambda>m. m = ''open'') ''trusted'',
     classify_devices (\<lambda>m. m \<noteq> ''open'') ''filtered'',
     change (update_devices dev_is_blocked (\<lambda>x. x\<lparr>dev_status := ''blocked''\<rparr>))] @ v15_filters)"

definition v16 :: statement where
  "v16 = run
    [change (update_devices (\<lambda>x. dev_status x = ''unknown'') (\<lambda>x. x\<lparr>dev_status := ''blocked''\<rparr>)),
     change (update_devices (\<lambda>x. dev_status x = ''trusted'') (\<lambda>x. x\<lparr>dev_status := ''open''\<rparr>)),
     change (\<lambda>d. d\<lparr>filters := map (\<lambda>f. f\<lparr>f_enabled := False\<rparr>) (filters d)\<rparr>),
     enable_attached,
     (\<lambda>s. Some (s\<lparr>st_device_presets := []\<rparr>)),
     change enable_nav_domains]"

definition v17 :: statement where
  "v17 = change (\<lambda>d. d\<lparr>devices := filter (\<lambda>x. dev_mac x \<noteq> ''00:00:00:00:00:00'') (devices d)\<rparr>)"

definition v18 :: statement where
  "v18 = run
    [insert_domains True v18_youtube,
     change (delete_domain ''maps.googleapis.com'' ''Tesla AP/Nav''),
     insert_or_ignore_filter ''Maps & Time'' ''Map tiles + geocoding + NTP time-sync. Required for in-car nav and time accuracy on the Tesla.'' True True [],
     insert_domains True v18_maps]"

definition twitch_description :: string where
  "twitch_description = ''Twitch live-streaming via the in-car browser. CDN host set curated from a live session '' @ em_dash @ '' twitch.tv plus the live-video/ttvnw/jtvnw CDNs and Fastly edge.''"

definition v19 :: statement where
  "v19 = run
    [insert_domains True v19_maps,
     insert_domains True v19_youtube,
     insert_or_ignore_filter ''Twitch'' twitch_description True True [],
     change (update_named ''Twitch'' (\<lambda>f. f\<lparr>f_is_system := True, f_description := twitch_description\<rparr>)),
     insert_domains True v19_twitch,
     change (\<lambda>d. d\<lparr>filter_domains := filter (\<lambda>x. \<not> in_filter ''Disney+'' d (d_filter x)) (filter_domains d)\<rparr>),
     change (delete_named ''Disney+'')]"

definition v20 :: statement where "v20 = run []"

definition v21 :: statement where "v21 = run []"

definition grok_description :: string where
  "grok_description = ''In-car Grok voice assistant '' @ em_dash @ '' QUIC UDP/18113 + VIN mTLS. Assistant only, never Hermes.''"

definition v22 :: statement where
  "v22 = run
    [change (\<lambda>d. d\<lparr>filters := map (\<lambda>f. f\<lparr>f_group := []\<rparr>) (filters d)\<rparr>),
     rename_filter ''Tesla AP/Nav'' ''Nav'' ''Tesla navigation + Autopilot map/driving data (daws, apmv3). Never Hermes.'' ''System'',
     change (delete_domain ''maps-eu-prd.go.tesla.services'' ''Nav''),
     rename_filter ''Maps & Time'' ''Maps'' (''Map tiles + geocoding '' @ em_dash @ '' Tesla EU maps backend + Google maps/tiles/places.'') ''System'',
     change (delete_domain ''pool.ntp.org'' ''Maps''),
     insert_domains True [(''Maps'', ''maps-eu-prd.go.tesla.services'', ''Tesla EU maps backend '' @ em_dash @ '' mTLS, 4-SAN cert (no wildcard)'', True)],
     insert_missing_filter ''Time'' (''NTP time sync '' @ em_dash @ '' public pool.ntp.org over UDP/123 (DNS-gated, no Tesla).'') True True ''System'',
     insert_domains True [(''Time'', ''pool.ntp.org'', ''Public NTP pool '' @ em_dash @ '' DNS-gated time servers, no Tesla'', True)],
     change (insert_udp ''Time'' 123),
     insert_missing_filter ''Grok'' grok_description True False ''System'',
     change (update_named ''Grok'' (\<lambda>f. f\<lparr>f_is_system := True, f_group := ''System'', f_enabled := False, f_description := grok_description\<rparr>)),
     insert_domains True v22_grok,
     change (insert_udp ''Grok'' 18113),
     insert_missing_filter ''Connectivity'' ''Reachability/online check the car needs to consider itself connected (google.com).'' True True ''System'',
     insert_domains True v22_connectivity,
     change (delete_domain ''www.google.com'' ''YouTube'')]"

definition v23 :: statement where
  "v23 = run
    [change (update_named ''Grok'' (\<lambda>f. f\<lparr>f_enabled := True\<rparr>)),
     change (enable_domain ''oauth2.googleapis.com'' ''YouTube''),
     insert_domains True v23_system,
     insert_or_ignore_filter ''F1'' ''Formula 1'' False True [],
     insert_or_ignore_filter ''Hulu'' ''Hulu'' False True [],
     insert_or_ignore_filter ''Max'' ''Max'' False True [],
     insert_or_ignore_filter ''Prime'' ''Prime video'' False True [],
     insert_or_ignore_filter ''Spotify'' ''Spotify'' False True [],
     insert_or_ignore_filter ''TikTok'' ''Allows tiktok'' False True [],
     insert_domains True v23_apps,
     insert_or_ignore_filter ''Car Apps'' ''Non-HTTPS ports the in-car apps need: QUIC/UDP 443, WebRTC-STUN/UDP 19302, FCM push/TCP 5228, Spotify access point/TCP 4070. Opened only for the filtered car; the DNS allow-list still gates the destinations.'' True True ''System'',
     change (insert_udp ''Car Apps'' 443),
     change (insert_udp ''Car Apps'' 19302),
     change (insert_tcp ''Car Apps'' 5228),
     change (insert_tcp ''Car Apps'' 4070),
     change (\<lambda>d. d\<lparr>firewall_rules := filter (\<lambda>r. \<not> old_hole r) (firewall_rules d)\<rparr>)]"

definition v24 :: statement where
  "v24 = run
    [change (\<lambda>d. d\<lparr>filter_udp_ports := map (\<lambda>r. r\<lparr>p_description := []\<rparr>) (filter_udp_ports d),
        filter_tcp_ports := map (\<lambda>r. r\<lparr>p_description := []\<rparr>) (filter_tcp_ports d)\<rparr>),
     change (describe_udp ''Car Apps'' 443 (''QUIC / HTTP-3 for www.gstatic.com '' @ em_dash @ '' dst-agnostic (bypasses the SNI proxy)'')),
     change (describe_udp ''Car Apps'' 19302 (''WebRTC STUN (stun.l.google.com) '' @ em_dash @ '' dst-agnostic'')),
     change (describe_tcp ''Car Apps'' 5228 ''FCM / GCM push (mobile-gtalk.l.google.com)''),
     change (describe_tcp ''Car Apps'' 4070 (''Spotify access point '' @ em_dash @ '' dst-agnostic (GSLB IPs rotate)'')),
     change (describe_udp ''Grok'' 18113 (''Grok voice assistant '' @ em_dash @ '' QUIC (VIN mTLS)'')),
     change (describe_udp ''Time'' 123 (''NTP time sync '' @ em_dash @ '' public pool.ntp.org''))]"

definition v25 :: statement where
  "v25 s = Some (s\<lparr>st_tokens := (st_tokens s)\<lparr>tokens := []\<rparr>\<rparr>)"

definition v26 :: statement where
  "v26 s = Some (s\<lparr>st_tokens := (st_tokens s)\<lparr>tokens := map (\<lambda>t. t\<lparr>tk_expires := None\<rparr>) (tokens (st_tokens s))\<rparr>\<rparr>)"

definition migrations :: "statement list" where
  "migrations = [v1, v2, v3, v4, v5, v6, v7, v8, v9, v10, v11, v12, v13, v14, v15, v16, v17, v18, v19, v20, v21, v22, v23, v24, v25, v26]"

subsection \<open>Migrate\<close>

text \<open>The steps that can fail; an error names its step.\<close>

datatype mig_step = ReadVersion | Begin nat | Exec nat | Record nat | Commit nat | LocalSeed nat

definition version :: "store \<Rightarrow> nat" where
  "version s = (case st_schema s of None \<Rightarrow> 0 | Some vs \<Rightarrow> foldr max vs 0)"

definition record_version :: "nat \<Rightarrow> statement" where
  "record_version n s =
     (case st_schema s of
        None \<Rightarrow> None
      | Some vs \<Rightarrow> if n \<in> set vs then None else Some (s\<lparr>st_schema := Some (vs @ [n])\<rparr>))"

fun migrate_from :: "(mig_step \<Rightarrow> bool) \<Rightarrow> nat \<Rightarrow> statement list \<Rightarrow> store \<Rightarrow> mig_step option \<times> store" where
  "migrate_from fails i [] s = (None, s)"
| "migrate_from fails i (m # ms) s =
     (let n = Suc i in
      if fails (Begin n) then (Some (Begin n), s)
      else case (if fails (Exec n) then None else m s) of
        None \<Rightarrow> (Some (Exec n), s)
      | Some s1 \<Rightarrow> (case (if fails (Record n) then None else record_version n s1) of
          None \<Rightarrow> (Some (Record n), s)
        | Some s2 \<Rightarrow> if fails (Commit n) then (Some (Commit n), s) else migrate_from fails n ms s2))"

fun seed_from :: "(mig_step \<Rightarrow> bool) \<Rightarrow> nat \<Rightarrow> statement list \<Rightarrow> store \<Rightarrow> mig_step option \<times> store" where
  "seed_from fails i [] s = (None, s)"
| "seed_from fails i (m # ms) s =
     (case (if fails (LocalSeed i) then None else m s) of
        None \<Rightarrow> (Some (LocalSeed i), s)
      | Some s1 \<Rightarrow> seed_from fails (Suc i) ms s1)"

definition Migrate :: "statement list \<Rightarrow> (mig_step \<Rightarrow> bool) \<Rightarrow> store \<Rightarrow> mig_step option \<times> store" where
  "Migrate localSeeds fails s =
     (let v = (if fails ReadVersion then 0 else version s) in
      case migrate_from fails v (drop v migrations) s of
        (Some e, s1) \<Rightarrow> (Some e, s1)
      | (None, s1) \<Rightarrow> seed_from fails 0 localSeeds s1)"

subsection \<open>What the versions keep\<close>

definition statuses :: "nat \<Rightarrow> string set" where
  "statuses v = (if v < 15 then UNIV
     else if v = 15 then {''unknown'', ''trusted'', ''filtered'', ''blocked''}
     else {DeviceStatusBlocked, DeviceStatusFiltered, DeviceStatusOpen})"

lemma good_settings: "good S N d \<Longrightarrow> good S N (fold seed_setting kvs d)"
proof (induction kvs arbitrary: d)
  case (Cons kv kvs)
  have "good S N (seed_setting kv d)" using Cons.prems
    by (simp add: seed_setting_def good_def filters_wf_def rows_ok_def)
  with Cons.IH show ?case by simp
qed simp

lemma triple_settings [triples]: "triple t (good S N) (seed_settings kvs) (good S N)"
  unfolding seed_settings_def by (rule triple_change) (rule good_settings)

lemma triple_untouched [triples]:
  "triple t P (seed_blocked rows) P" "triple t P (seed_policy n mode desc def) P" "triple t P (seed_policy_domain site desc) P"
  "triple t P rebuild_policies P" "triple t P attach_nav P"
  by (auto simp: triple_def seed_blocked_def seed_policy_def seed_policy_domain_def rebuild_policies_def attach_nav_def Let_def
      split: option.split)

lemma triple_devices:
  assumes "\<And>x. x \<in> S \<Longrightarrow> x \<in> T" "\<And>x. P x \<Longrightarrow> dev_status x \<in> S \<Longrightarrow> dev_status (g x) \<in> T"
  shows "triple t (good S N) (change (update_devices P g)) (good T N)"
proof (rule triple_change)
  fix d assume g: "good S N d"
  then have "dev_status ` set (devices d) \<subseteq> S" by (simp add: good_def)
  then have "dev_status ` set (devices (update_devices P g d)) \<subseteq> T" using assms by (auto simp: update_devices_def)
  then show "good T N (update_devices P g d)" by (intro good_other [OF g]) (simp_all add: update_devices_def)
qed

text \<open>A statement that moves every device of one status to another.\<close>

definition moved :: "string \<Rightarrow> string \<Rightarrow> string set \<Rightarrow> string set" where
  "moved a b S = (if a \<in> S then insert b (S - {a}) else S)"

lemma triple_move:
  "triple t (good S N) (change (update_devices (\<lambda>x. dev_status x = a) (\<lambda>x. x\<lparr>dev_status := b\<rparr>))) (good (moved a b S) N)"
proof (rule triple_change)
  fix d assume g: "good S N d"
  then have "dev_status ` set (devices d) \<subseteq> S" by (simp add: good_def)
  then have "dev_status ` set (devices (update_devices (\<lambda>x. dev_status x = a) (\<lambda>x. x\<lparr>dev_status := b\<rparr>) d)) \<subseteq> moved a b S"
    by (auto simp: update_devices_def moved_def)
  then show "good (moved a b S) N (update_devices (\<lambda>x. dev_status x = a) (\<lambda>x. x\<lparr>dev_status := b\<rparr>) d)"
    by (intro good_other [OF g]) (simp_all add: update_devices_def)
qed

lemma triple_set_status:
  "triple t (good S N) (change (update_devices (\<lambda>_. True) (\<lambda>x. x\<lparr>dev_status := b\<rparr>))) (good {b} N)"
proof (rule triple_change)
  fix d assume g: "good S N d"
  show "good {b} N (update_devices (\<lambda>_. True) (\<lambda>x. x\<lparr>dev_status := b\<rparr>) d)"
    by (rule good_other [OF g]) (auto simp: update_devices_def)
qed

lemma triple_classify: "triple t (good S N) (classify_devices P st) (good (insert st S) N)"
  using triple_devices [of S "insert st S" _ "\<lambda>x. x\<lparr>dev_status := st\<rparr>" t N]
  by (force simp: triple_def classify_devices_def change_def)

lemma triple_map_filters [triples]:
  "(\<And>f. f_id (g f) = f_id f) \<Longrightarrow> (\<And>f. f_name (g f) = f_name f) \<Longrightarrow>
   triple t (good S N) (change (\<lambda>d. d\<lparr>filters := map g (filters d)\<rparr>)) (good S N)"
  by (rule triple_change) (rule good_keep_names)

lemma triple_attached [triples]: "triple t (good S N) enable_attached (good S N)"
  by (auto simp: triple_def enable_attached_def change_def intro!: good_keep_names)

lemma triple_rules [triples]: "triple t (good S N) (change (\<lambda>d. d\<lparr>firewall_rules := f d\<rparr>)) (good S N)"
  by (rule triple_change, rule good_other) (auto simp: good_def)

lemma triple_wipe_descriptions [triples]:
  "triple t (good S N) (change (\<lambda>d. d\<lparr>filter_udp_ports := map (\<lambda>r. r\<lparr>p_description := []\<rparr>) (filter_udp_ports d),
        filter_tcp_ports := map (\<lambda>r. r\<lparr>p_description := []\<rparr>) (filter_tcp_ports d)\<rparr>)) (good S N)"
proof (rule triple_change)
  fix d assume "good S N d"
  moreover have "rows_ok (d\<lparr>filter_udp_ports := a, filter_tcp_ports := b\<rparr>) = rows_ok d" for a b by (simp add: fun_eq_iff rows_ok_def)
  moreover have "rows_ok d (map (\<lambda>r. r\<lparr>p_description := []\<rparr>) rows)" if "rows_ok d rows" for rows by (rule rows_ok_map [OF that]) simp_all
  ultimately show "good S N (d\<lparr>filter_udp_ports := map (\<lambda>r. r\<lparr>p_description := []\<rparr>) (filter_udp_ports d),
        filter_tcp_ports := map (\<lambda>r. r\<lparr>p_description := []\<rparr>) (filter_tcp_ports d)\<rparr>)"
    by (simp add: good_def filters_wf_def)
qed

lemmas triple_seq = triple_Nil triple_Cons triple_other triples

lemma triples_before_15:
  "triple t (good S N) v1 (good S N)" "triple t (good S N) v2 (good S N)" "triple t (good S N) v3 (good S N)"
  "triple t (good S N) v4 (good S N)" "triple t (good S N) v5 (good S N)" "triple t (good S N) v6 (good S N)"
  "triple t (good S N) v7 (good S N)" "triple t (good S N) v8 (good S N)" "triple t (good S N) v9 (good S N)"
  "triple t (good S N) v10 (good S N)" "triple t (good S N) v12 (good S N)"
  "triple t (good S N) v13 (good S N)" "triple t (good S N) v14 (good S N)"
  unfolding v1_def v2_def v3_def v4_def v5_def v6_def v9_def v10_def v12_def v13_def
  by (rule triple_Nil triple_Cons triple_settings triple_untouched | (rule triple_other, simp; fail) | (simp add: triple_def v7_def v8_def v14_def; fail))+

lemma triple_v11: "triple t (good S N) v11 (good S N)"
  unfolding v11_def by (rule triple_devices) auto

text \<open>Version 15 creates the tables of the filters; its plain inserts cannot fail on empty ones.\<close>

definition fresh :: "bool \<Rightarrow> string set \<Rightarrow> string set \<Rightarrow> db \<Rightarrow> bool" where
  "fresh t S N d \<longleftrightarrow> good S N d \<and> (t \<longrightarrow> filter_domains d = [])"

lemma triple_frame:
  assumes "triple t (good S N) f (good S' N')" "\<And>s s'. f s = Some s' \<Longrightarrow> filter_domains (st_db s') = filter_domains (st_db s)"
  shows "triple t (fresh t S N) f (fresh t S' N')"
  unfolding triple_def
proof (intro allI impI)
  fix s :: store assume "fresh t S N (st_db s)"
  with assms show "case f s of None \<Rightarrow> \<not> t | Some s' \<Rightarrow> fresh t S' N' (st_db s')"
    by (cases "f s") (force simp: triple_def fresh_def)+
qed

definition pair_of :: "string \<times> string \<times> string \<times> bool \<Rightarrow> string \<times> string" where
  "pair_of x = (fst x, fst (snd x))"

lemma add_domains_fresh:
  assumes "distinct (map f_id (filters d))" "distinct (map pair_of xs)"
    and "\<And>x y. x \<in> set xs \<Longrightarrow> y \<in> set (filter_domains d) \<Longrightarrow> d_domain y = snd (pair_of x) \<Longrightarrow> \<not> in_filter (fst (pair_of x)) d (d_filter y)"
  shows "add_domains False xs d \<noteq> None"
  using assms
proof (induction xs arbitrary: d)
  case (Cons x xs)
  obtain n site desc en where x: "x = (n, site, desc, en)" by (cases x)
  show ?case
  proof (cases "filter_named n d")
    case None
    with Cons x show ?thesis by simp
  next
    case (Some f)
    have free: "\<not> list_ex (\<lambda>y. d_filter y = f_id f \<and> d_domain y = site) (filter_domains d)"
      using Cons.prems(3) [of x] x Some by (fastforce simp: list_ex_iff pair_of_def in_filter_def)
    let ?d = "d\<lparr>domains_seq := domains_seq d + 1, filter_domains := filter_domains d @
        [\<lparr>d_id = domains_seq d + 1, d_filter = f_id f, d_domain = site, d_description = desc, d_enabled = en\<rparr>]\<rparr>"
    have named: "in_filter m ?d i = in_filter m d i" for m i by (simp add: in_filter_def filter_named_def)
    have "fst (pair_of z) = n" if "in_filter (fst (pair_of z)) d (f_id f)" for z
    proof -
      from that obtain h where h: "filter_named (fst (pair_of z)) d = Some h" "f_id h = f_id f" by (auto simp: in_filter_def split: option.splits)
      moreover have "inj_on f_id (set (filters d))" using Cons.prems(1) by (simp add: distinct_map)
      ultimately have "h = f" using filter_named_Some [OF h(1)] filter_named_Some [OF Some] by (simp add: inj_on_def)
      with filter_named_Some [OF h(1)] filter_named_Some [OF Some] show ?thesis by simp
    qed
    then have other: "\<not> (in_filter (fst (pair_of z)) d (f_id f) \<and> site = snd (pair_of z))" if "z \<in> set xs" for z
      using Cons.prems(2) x that by (force simp: pair_of_def)
    have "add_domains False xs ?d \<noteq> None"
    proof (rule Cons.IH)
      fix z y assume "z \<in> set xs" "y \<in> set (filter_domains ?d)" "d_domain y = snd (pair_of z)"
      with other [of z] Cons.prems(3) [of z y] show "\<not> in_filter (fst (pair_of z)) ?d (d_filter y)" by (auto simp: named)
    qed (use Cons.prems in simp_all)
    with x Some free show ?thesis by simp
  qed
qed simp

lemma triple_insert_fresh:
  assumes "list_all seed_ok xs" "distinct (map pair_of xs)"
  shows "triple t (fresh t S N) (insert_domains False xs) (good S N)"
  unfolding triple_def
proof (intro allI impI)
  fix s :: store assume f: "fresh t S N (st_db s)"
  then have "t \<Longrightarrow> add_domains False xs (st_db s) \<noteq> None"
    using assms(2) by (intro add_domains_fresh) (auto simp: fresh_def good_def filters_wf_def)
  with f assms(1) show "case insert_domains False xs s of None \<Rightarrow> \<not> t | Some s' \<Rightarrow> good S N (st_db s')"
    by (auto simp: insert_domains_def fresh_def good_add_domains split: option.split)
qed

lemma insert_filter_frame: "insert_filter n desc sys en grp s = Some s' \<Longrightarrow> filter_domains (st_db s') = filter_domains (st_db s)"
  by (auto simp: insert_filter_def change_def append_filter_def split: if_splits)

lemma devices_frame:
  "change (update_devices P g) s = Some s' \<Longrightarrow> filter_domains (st_db s') = filter_domains (st_db s)"
  "classify_devices Q st s = Some s' \<Longrightarrow> filter_domains (st_db s') = filter_domains (st_db s)"
  by (auto simp: change_def update_devices_def classify_devices_def)

lemma triple_post: "triple t P f (good S N) \<Longrightarrow> S \<subseteq> S' \<Longrightarrow> N' \<subseteq> N \<Longrightarrow> triple t P f (good S' N')"
  using triple_weaken [of t P f "good S N" P "good S' N'"] good_mono by blast

definition v15_names :: "string set" where
  "v15_names = {''Tesla AP/Nav'', ''YouTube'', ''Netflix'', ''Disney+''}"

lemma v15_pairs: "distinct (map pair_of v15_domains)"
  by code_simp

lemma triple_v15:
  assumes "t \<Longrightarrow> v15_names \<subseteq> N"
  shows "triple t (fresh t S N) v15 (good (statuses 15) (N - v15_names))"
proof -
  let ?M = "N - {''Tesla AP/Nav''} - {''YouTube''} - {''Netflix''} - {''Disney+''}"
  let ?T = "insert ''blocked'' (insert ''filtered'' (insert ''trusted'' {''unknown''}))"
  have names: "t \<Longrightarrow> ''Tesla AP/Nav'' \<in> N" "t \<Longrightarrow> ''YouTube'' \<in> N - {''Tesla AP/Nav''}"
    "t \<Longrightarrow> ''Netflix'' \<in> N - {''Tesla AP/Nav''} - {''YouTube''}" "t \<Longrightarrow> ''Disney+'' \<in> N - {''Tesla AP/Nav''} - {''YouTube''} - {''Netflix''}"
    using assms by (auto simp: v15_names_def)
  note ins = triple_frame [OF triple_insert_filter insert_filter_frame]
  have blocked: "triple t (fresh t S' N) (change (update_devices dev_is_blocked (\<lambda>x. x\<lparr>dev_status := ''blocked''\<rparr>))) (fresh t (insert ''blocked'' S') N)" for S'
    by (rule triple_frame [OF triple_devices devices_frame(1)]) auto
  have "triple t (fresh t S N) v15 (good ?T ?M)"
    unfolding v15_def v15_filters_def append_Cons append_Nil
    by (rule triple_Nil triple_Cons triple_frame [OF triple_set_status devices_frame(1)] triple_frame [OF triple_classify devices_frame(2)]
        blocked ins triple_insert_fresh seeds_ok(1) v15_pairs triple_untouched names | assumption | (rule triple_other, simp; fail))+
  then show ?thesis by (rule triple_post) (auto simp: statuses_def v15_names_def)
qed

lemma triple_v16: "triple t (good S N) v16 (good (moved ''trusted'' ''open'' (moved ''unknown'' ''blocked'' S)) N)"
  unfolding v16_def
  by (rule triple_Nil triple_Cons triple_move triple_attached triple_switches | (rule triple_map_filters; simp; fail) | (rule triple_other, simp; fail))+

lemma triple_v17: "triple t (good S N) v17 (good S N)"
  unfolding v17_def by (rule triple_change, rule good_other) (auto simp: good_def)

lemma triple_v18: "''Maps & Time'' \<notin> N \<Longrightarrow> triple t (good S N) v18 (good S N)"
  unfolding v18_def
  by (rule triple_Nil triple_Cons triple_insert_domains(1) seeds_ok triple_delete_domain | (rule triple_insert_or_ignore, assumption))+

lemma triple_v19: "''Twitch'' \<notin> N \<Longrightarrow> triple t (good S N) v19 (good S N)"
  unfolding v19_def
  by (rule triple_Nil triple_Cons triple_insert_domains(1) seeds_ok triple_delete_named triple_filter_domains | (rule triple_insert_or_ignore, assumption)
      | (rule triple_update_named; simp; fail))+

lemma triple_v20_21: "triple t P v20 P" "triple t P v21 P"
  by (simp_all add: v20_def v21_def triple_Nil)

lemma v22_extra_ok:
  "list_all seed_ok [(''Maps'', ''maps-eu-prd.go.tesla.services'', ''Tesla EU maps backend '' @ em_dash @ '' mTLS, 4-SAN cert (no wildcard)'', True)]"
  "list_all seed_ok [(''Time'', ''pool.ntp.org'', ''Public NTP pool '' @ em_dash @ '' DNS-gated time servers, no Tesla'', True)]"
  by code_simp+

lemma triple_v22:
  assumes "N \<subseteq> {''Nav'', ''Maps''}" "t \<Longrightarrow> N = {''Nav'', ''Maps''}"
  shows "triple t (good S N) v22 (good S {})"
proof -
  have names: "t \<Longrightarrow> ''Nav'' \<in> N" "t \<Longrightarrow> ''Maps'' \<in> N - {''Nav''}" using assms(2) by auto
  have none: "N - {''Nav''} - {''Maps''} = {}" using assms(1) by auto
  have rest: "x \<notin> N - {''Nav''} - {''Maps''}" for x by (simp add: none)
  have "triple t (good S N) v22 (good S (N - {''Nav''} - {''Maps''}))"
    unfolding v22_def
    by (rule triple_Nil triple_Cons triple_insert_domains(1) seeds_ok v22_extra_ok triple_delete_domain triple_insert_missing rest names | assumption
        | (rule triple_rename; (assumption | rule names | simp; fail)) | (rule triple_map_filters; simp; fail) | (rule triple_update_named; simp; fail)
        | (rule triple_ports; simp; fail))+
  then show ?thesis by (simp only: none)
qed

lemma triple_v23: "triple t (good S {}) v23 (good S {})"
  unfolding v23_def
  by (rule triple_Nil triple_Cons triple_insert_domains(1) seeds_ok apps_ok triple_switches triple_rules | (rule triple_insert_or_ignore; simp; fail)
      | (rule triple_update_named; simp; fail) | (rule triple_ports; simp; fail))+

lemma triple_v24: "triple t (good S N) v24 (good S N)"
  unfolding v24_def by (rule triple_Nil triple_Cons triple_describe triple_wipe_descriptions)+

lemma triple_v25_26: "triple t P v25 P" "triple t P v26 P"
  by (simp_all add: v25_def v26_def triple_def)

text \<open>Together.  \<open>reserved\<close>: the names that later versions will need, which no filter has when \<open>t\<close> holds.\<close>

definition reserved :: "bool \<Rightarrow> nat \<Rightarrow> string set" where
  "reserved t v = (if \<not> t then {} else if v < 15 then v15_names \<union> {''Nav'', ''Maps''} else if v < 22 then {''Nav'', ''Maps''} else {})"

definition stage_ok :: "bool \<Rightarrow> nat \<Rightarrow> db \<Rightarrow> bool" where
  "stage_ok t v d \<longleftrightarrow> good (statuses v) (reserved t v) d \<and> (t \<and> v < 15 \<longrightarrow> filter_domains d = [])"

lemma settings_frame: "filter_domains (fold seed_setting kvs d) = filter_domains d"
  by (induction kvs arbitrary: d) (auto simp: seed_setting_def)

lemma frame_settings: "triple t (\<lambda>d. filter_domains d = X) (seed_settings kvs) (\<lambda>d. filter_domains d = X)"
  unfolding seed_settings_def by (rule triple_change) (simp add: settings_frame)

lemma early_frames:
  defines "K X m \<equiv> triple False (\<lambda>d. filter_domains d = X) m (\<lambda>d. filter_domains d = X)"
  shows "K X v1" "K X v2" "K X v3" "K X v4" "K X v5" "K X v6" "K X v7" "K X v8" "K X v9" "K X v10" "K X v11" "K X v12" "K X v13" "K X v14"
  unfolding K_def v1_def v2_def v3_def v4_def v5_def v6_def v9_def v10_def v12_def v13_def
  by (rule triple_Nil triple_Cons frame_settings triple_untouched | (rule triple_other, simp; fail)
      | (simp add: triple_def v7_def v8_def v11_def v14_def change_def update_devices_def; fail))+

lemma early_frame:
  assumes "m \<in> set (take 14 migrations)" "m s = Some s'"
  shows "filter_domains (st_db s') = filter_domains (st_db s)"
proof -
  have "triple False (\<lambda>d. filter_domains d = filter_domains (st_db s)) m (\<lambda>d. filter_domains d = filter_domains (st_db s))"
    using assms(1) early_frames by (auto simp: migrations_def)
  with assms(2) show ?thesis by (fastforce simp: triple_def)
qed

lemma early_triple: "m \<in> set (take 14 migrations) \<Longrightarrow> triple t (good S N) m (good S N)"
  using triples_before_15 triple_v11 by (auto simp: migrations_def)

lemma mid_triple:
  assumes "N \<inter> {''Maps & Time'', ''Twitch''} = {}" "m \<in> set (take 5 (drop 16 migrations))"
  shows "triple t (good S N) m (good S N)"
  using triple_v17 triple_v18 [of N] triple_v19 [of N] triple_v20_21 assms by (auto simp: migrations_def)

lemma length_migrations [simp]: "length migrations = 26"
  by (simp add: migrations_def)

lemma stage_triple:
  assumes "n < 26" shows "triple t (stage_ok t n) (migrations ! n) (stage_ok t (Suc n))"
proof -
  have ok: "stage_ok t v = fresh t (statuses v) (reserved t v)" if "v < 15" for v
    using that by (auto simp: fun_eq_iff stage_ok_def fresh_def)
  have late: "stage_ok t v = good (statuses v) (reserved t v)" if "15 \<le> v" for v
    using that by (auto simp: fun_eq_iff stage_ok_def)
  have st: "statuses v = statuses 16" if "16 \<le> v" for v using that by (simp add: statuses_def)
  have r: "reserved t v \<subseteq> {''Nav'', ''Maps''}" if "15 \<le> v" for v using that by (auto simp: reserved_def)
  show ?thesis
  proof (cases "n < 14")
    case True
    then have m: "migrations ! n \<in> set (take 14 migrations)" using nth_mem [of n "take 14 migrations"] by simp
    have "statuses (Suc n) = statuses n" "reserved t (Suc n) = reserved t n" using True by (simp_all add: statuses_def reserved_def)
    with True show ?thesis by (simp add: ok) (rule triple_frame [OF early_triple [OF m] early_frame [OF m]])
  next
    case False
    with assms have "n = 14 \<or> n = 15 \<or> n = 16 \<or> n = 17 \<or> n = 18 \<or> n = 19 \<or> n = 20 \<or> n = 21 \<or> n = 22 \<or> n = 23 \<or> n = 24 \<or> n = 25"
      by presburger
    then consider "n = 14" | "n = 15" | "n \<in> {16, 17, 18, 19, 20}" | "n = 21" | "n \<in> {22, 23, 24, 25}" by blast
    then show ?thesis
    proof cases
      case 1
      have "reserved t 14 - v15_names = reserved t 15" "t \<Longrightarrow> v15_names \<subseteq> reserved t 14" by (auto simp: reserved_def v15_names_def)
      with 1 triple_v15 [of t "reserved t 14" "statuses 14"] show ?thesis by (simp add: ok late migrations_def)
    next
      case 2
      have "reserved t 16 = reserved t 15" by (simp add: reserved_def)
      moreover have "moved ''trusted'' ''open'' (moved ''unknown'' ''blocked'' (statuses 15)) = statuses 16"
        by (auto simp: moved_def statuses_def status_defs)
      ultimately show ?thesis using 2 triple_v16 [of t "statuses 15" "reserved t 15"] by (simp add: late migrations_def)
    next
      case 3
      then have "reserved t (Suc n) = reserved t n" "migrations ! n \<in> {v17, v18, v19, v20, v21}" by (auto simp: reserved_def migrations_def)
      then have "triple t (good (statuses 16) (reserved t n)) (migrations ! n) (good (statuses 16) (reserved t n))"
        using r [of n] 3 by (intro mid_triple) (auto simp: migrations_def)
      moreover have "16 \<le> n" using 3 by auto
      ultimately show ?thesis using \<open>reserved t (Suc n) = reserved t n\<close> by (simp add: late st [of n] st [of "Suc n"])
    next
      case 4
      then show ?thesis using triple_v22 [of "reserved t 21" t "statuses 16"] r [of 21]
        by (simp add: late st [of 21] st [of 22] migrations_def) (auto simp: reserved_def)
    next
      case 5
      then have "reserved t (Suc n) = {}" "reserved t n = {}" "migrations ! n \<in> {v23, v24, v25, v26}" by (auto simp: reserved_def migrations_def)
      then have "triple t (good (statuses 16) {}) (migrations ! n) (good (statuses 16) {})"
        using triple_v23 triple_v24 triple_v25_26 by auto
      moreover have "16 \<le> n" using 5 by auto
      ultimately show ?thesis using \<open>reserved t (Suc n) = {}\<close> \<open>reserved t n = {}\<close> by (simp add: late st [of n] st [of "Suc n"])
    qed
  qed
qed

subsection \<open>The schema version\<close>

text \<open>The tables that only the services and \<^verbatim>\<open>Migrate\<close> itself write.\<close>

definition core :: "store \<Rightarrow> nat list option \<times> auth_db \<times> token_table" where
  "core s = (st_schema s, st_auth s, st_tokens s)"

definition keeps_core :: "statement \<Rightarrow> bool" where
  "keeps_core f \<longleftrightarrow> (\<forall>s s'. f s = Some s' \<longrightarrow> core s' = core s)"

lemma keeps_core_run: "keeps_core (run [])" "keeps_core f \<Longrightarrow> keeps_core (run fs) \<Longrightarrow> keeps_core (run (f # fs))"
  by (auto simp: keeps_core_def bind_eq_Some_conv)

lemma keeps_core_statements:
  "keeps_core (change g)" "keeps_core (insert_filter n desc sys en grp)" "keeps_core (insert_or_ignore_filter n desc sys en grp)"
  "keeps_core (insert_missing_filter n desc sys en grp)" "keeps_core (rename_filter n m desc grp)" "keeps_core (insert_domains ig rows)"
  "keeps_core (seed_settings kvs)" "keeps_core (seed_blocked bs)" "keeps_core (seed_policy n mode desc def)"
  "keeps_core (seed_policy_domain site desc)" "keeps_core rebuild_policies" "keeps_core (classify_devices P st)" "keeps_core attach_nav"
  "keeps_core enable_attached"
  by (auto simp: keeps_core_def core_def change_def insert_filter_def insert_or_ignore_filter_def insert_missing_filter_def rename_filter_def
      insert_domains_def seed_settings_def seed_blocked_def seed_policy_def seed_policy_domain_def rebuild_policies_def classify_devices_def
      attach_nav_def enable_attached_def Let_def split: if_splits option.splits)

lemma keeps_core_other: "(\<And>s. core (f s) = core s) \<Longrightarrow> keeps_core (\<lambda>s. Some (f s))"
  by (simp add: keeps_core_def)

lemma versions_keep_core: "m \<in> set (take 23 (tl migrations)) \<Longrightarrow> keeps_core m"
proof -
  have "keeps_core v2" "keeps_core v3" "keeps_core v4" "keeps_core v5" "keeps_core v6" "keeps_core v7" "keeps_core v8"
    "keeps_core v9" "keeps_core v10" "keeps_core v11" "keeps_core v12" "keeps_core v13" "keeps_core v14" "keeps_core v15"
    "keeps_core v16" "keeps_core v17" "keeps_core v18" "keeps_core v19" "keeps_core v20" "keeps_core v21" "keeps_core v22"
    "keeps_core v23" "keeps_core v24"
    unfolding v2_def v3_def v4_def v5_def v6_def v9_def v10_def v11_def v12_def v13_def v15_def v15_filters_def append_Cons append_Nil v16_def v17_def v18_def v19_def v20_def v21_def
      v22_def v23_def v24_def
    by (rule keeps_core_run keeps_core_statements | (rule keeps_core_other, simp add: core_def; fail)
        | (simp add: keeps_core_def core_def v7_def v8_def v14_def; fail))+
  then show "m \<in> set (take 23 (tl migrations)) \<Longrightarrow> keeps_core m" by (auto simp: migrations_def)
qed

lemma versions_keep:
  assumes "m \<in> set (tl migrations)" "m s = Some s'"
  shows "st_schema s' = st_schema s" "st_auth s' = st_auth s" "tokens (st_tokens s) = [] \<Longrightarrow> tokens (st_tokens s') = []"
proof -
  have "m \<in> set (take 23 (tl migrations)) \<or> m = v25 \<or> m = v26" using assms(1) by (auto simp: migrations_def)
  then have "core s' = core s \<or> m = v25 \<or> m = v26" using versions_keep_core assms(2) by (auto simp: keeps_core_def)
  then show "st_schema s' = st_schema s" "st_auth s' = st_auth s" "tokens (st_tokens s) = [] \<Longrightarrow> tokens (st_tokens s') = []"
    using assms(2) by (auto simp: core_def v25_def v26_def)
qed

lemma v1_schema: "v1 s = Some s' \<Longrightarrow> st_schema s' = (case st_schema s of None \<Rightarrow> Some [] | x \<Rightarrow> x)"
  by (auto simp: v1_def seed_settings_def change_def)

lemma v1_total: "v1 s \<noteq> None"
  by (simp add: v1_def seed_settings_def change_def)

text \<open>The table records every version up to the current one.\<close>

definition at_version :: "nat \<Rightarrow> store \<Rightarrow> bool" where
  "at_version i s \<longleftrightarrow> (case st_schema s of None \<Rightarrow> i = 0 | Some vs \<Rightarrow> vs = [1..<Suc i])"

lemma version_at: "at_version i s \<Longrightarrow> version s = i"
proof -
  have "foldr max [1..<Suc n] 0 = n" for n :: nat
  proof (induction n)
    case (Suc n)
    have "foldr max xs k = max k (foldr max xs 0)" for xs :: "nat list" and k by (induction xs) (auto simp: max.assoc max.left_commute)
    from this [of "[1..<Suc n]" "Suc n"] Suc show ?case by simp
  qed simp
  then show "at_version i s \<Longrightarrow> version s = i" by (auto simp: at_version_def version_def split: option.splits)
qed

lemma version_step:
  assumes "i < 26" "at_version i s" "(migrations ! i) s = Some s1"
  obtains x where "record_version (Suc i) s1 = Some (s1\<lparr>st_schema := x\<rparr>)" "at_version (Suc i) (s1\<lparr>st_schema := x\<rparr>)"
proof -
  have "st_schema s1 = Some [1..<Suc i]"
  proof (cases i)
    case 0
    with assms v1_schema [of s s1] show ?thesis by (auto simp: migrations_def at_version_def split: option.splits)
  next
    case (Suc k)
    then have "migrations ! i \<in> set (tl migrations)" using assms(1) nth_mem [of k "tl migrations"] by (simp add: nth_tl)
    then have "st_schema s1 = st_schema s" using versions_keep(1) assms(3) by blast
    with assms(2) Suc show ?thesis by (auto simp: at_version_def split: option.splits)
  qed
  then show thesis by (intro that [of "Some ([1..<Suc i] @ [Suc i])"]) (simp_all add: record_version_def at_version_def)
qed

abbreviation works :: "mig_step \<Rightarrow> bool" where
  "works \<equiv> \<lambda>_. False"

text \<open>A failed read of the version starts over at version 1, and fails there on the recorded version.\<close>

lemma unread_version:
  assumes "at_version v s" "v \<noteq> 0" "fails ReadVersion" "Migrate seeds fails s = (r, s')"
  shows "r \<noteq> None \<and> s' = s"
proof -
  obtain s1 where s1: "v1 s = Some s1" using v1_total by blast
  then have "st_schema s1 = Some [1..<Suc v]" using v1_schema [OF s1] assms(1,2) by (auto simp: at_version_def split: option.splits)
  moreover have "Suc 0 \<in> set [1..<Suc v]" using assms(2) by auto
  ultimately have "record_version (Suc 0) s1 = None" unfolding record_version_def by simp
  with s1 assms(3,4) show ?thesis
    by (auto simp: Migrate_def Let_def migrations_def split: if_splits)
qed

text \<open>
  The interface between the migrations and the runs of \<^verbatim>\<open>Migrate\<close>: an invariant for each version that every migration carries
  over, and that does not look at the table of versions.  With \<open>t\<close> the migrations cannot fail under it.
\<close>

locale upgrade =
  fixes I :: "nat \<Rightarrow> store \<Rightarrow> bool" and t :: bool
  assumes step: "i < 26 \<Longrightarrow> I i s \<Longrightarrow> (case (migrations ! i) s of None \<Rightarrow> \<not> t | Some s1 \<Rightarrow> I (Suc i) s1)"
    and sch: "I i (s\<lparr>st_schema := x\<rparr>) = I i s"
begin

text \<open>Every run ends at some version with the invariant of that version, and continuing from there without a failure gives
  what a run without failure gives from the start.\<close>

lemma migrate_from_ok:
  assumes "i \<le> 26" "at_version i s" "I i s" "migrate_from fails i (drop i migrations) s = (r, s')"
  shows "\<exists>j. i \<le> j \<and> j \<le> 26 \<and> at_version j s' \<and> I j s' \<and> (r = None \<longrightarrow> j = 26) \<and> (t \<and> fails = works \<longrightarrow> r = None) \<and>
    migrate_from works j (drop j migrations) s' = migrate_from works i (drop i migrations) s"
  using assms
proof (induction "26 - i" arbitrary: i s)
  case 0
  then show ?case by simp
next
  case (Suc k)
  then have i: "i < 26" by simp
  then have ms: "drop i migrations = migrations ! i # drop (Suc i) migrations" by (simp add: Cons_nth_drop_Suc)
  have post: "case (migrations ! i) s of None \<Rightarrow> \<not> t | Some s1 \<Rightarrow> I (Suc i) s1"
    using step [OF i Suc.prems(3)] .
  show ?case
  proof (cases "r \<noteq> None \<and> s' = s \<and> \<not> (t \<and> fails = works)")
    case True
    with Suc.prems show ?thesis by (intro exI [of _ i]) auto
  next
    case False
    have "(migrations ! i) s \<noteq> None"
    proof
      assume "(migrations ! i) s = None"
      with post Suc.prems(4) ms False show False by (auto simp: Let_def split: if_splits)
    qed
    then obtain s1 where s1: "(migrations ! i) s = Some s1" by blast
    obtain x where x: "record_version (Suc i) s1 = Some (s1\<lparr>st_schema := x\<rparr>)" "at_version (Suc i) (s1\<lparr>st_schema := x\<rparr>)"
      using version_step [OF i Suc.prems(2) s1] .
    define s2 where "s2 = s1\<lparr>st_schema := x\<rparr>"
    note s2 = x [folded s2_def]
    from Suc.prems(4) ms s1 s2(1) False
    have rest: "migrate_from fails (Suc i) (drop (Suc i) migrations) s2 = (r, s')" by (auto simp: Let_def split: if_splits)
    have "I (Suc i) s2" using post s1 sch by (simp add: s2_def)
    from Suc.hyps(1) [of "Suc i", OF _ _ s2(2) this rest] Suc.hyps(2) i
    have "\<exists>j\<ge>Suc i. j \<le> 26 \<and> at_version j s' \<and> I j s' \<and> (r = None \<longrightarrow> j = 26) \<and> (t \<and> fails = works \<longrightarrow> r = None) \<and>
      migrate_from works j (drop j migrations) s' = migrate_from works (Suc i) (drop (Suc i) migrations) s2" by simp
    moreover have "migrate_from works i (drop i migrations) s = migrate_from works (Suc i) (drop (Suc i) migrations) s2"
      using ms s1 s2(1) by (simp add: Let_def)
    ultimately show ?thesis by (metis Suc_leD)
  qed
qed

lemma Migrate_ok:
  assumes "v \<le> 26" "at_version v s" "I v s" "Migrate [] fails s = (r, s')"
  shows "\<exists>w. v \<le> w \<and> w \<le> 26 \<and> at_version w s' \<and> I w s' \<and> (r = None \<longrightarrow> w = 26) \<and> (t \<and> fails = works \<longrightarrow> r = None) \<and>
    Migrate [] works s' = Migrate [] works s"
proof (cases "fails ReadVersion \<and> v \<noteq> 0")
  case True
  with unread_version [OF assms(2) _ _ assms(4)] assms show ?thesis by auto
next
  case False
  then have v: "(if fails ReadVersion then 0 else version s) = v" using version_at [OF assms(2)] by auto
  obtain q s1 where m: "migrate_from fails v (drop v migrations) s = (q, s1)" by fastforce
  have rs: "r = q" "s' = s1" using assms(4) m v by (auto simp: Migrate_def Let_def split: option.splits)
  from migrate_from_ok [OF assms(1,2,3) m]
  obtain j where j: "v \<le> j" "j \<le> 26" "at_version j s1" "I j s1" "q = None \<longrightarrow> j = 26" "t \<and> fails = works \<longrightarrow> q = None"
    "migrate_from works j (drop j migrations) s1 = migrate_from works v (drop v migrations) s" by blast
  then have "Migrate [] works s1 = Migrate [] works s"
    using version_at [OF j(3)] version_at [OF assms(2)] by (simp add: Migrate_def)
  with j rs show ?thesis by blast
qed

end

lemma upgrade_triples:
  assumes "\<And>i. i < 26 \<Longrightarrow> triple t (J i) (migrations ! i) (J (Suc i))"
  shows "upgrade (\<lambda>i s. J i (st_db s)) t"
  using assms by unfold_locales (auto simp: triple_def)

interpretation resume: upgrade "\<lambda>_ _. True" False
  by unfold_locales (auto split: option.split)

lemma Migrate_triples:
  assumes tr: "\<And>i. i < 26 \<Longrightarrow> triple t (I i) (migrations ! i) (I (Suc i))"
    and "v \<le> 26" "at_version v s" "I v (st_db s)" "Migrate [] fails s = (r, s')"
  shows "\<exists>w. v \<le> w \<and> w \<le> 26 \<and> at_version w s' \<and> I w (st_db s') \<and> (r = None \<longrightarrow> w = 26) \<and> (t \<and> fails = works \<longrightarrow> r = None)"
  using upgrade.Migrate_ok [OF upgrade_triples [OF tr] assms(2-5)] by blast

lemma upgrade_total:
  assumes "v \<le> 26" "at_version v s" "stage_ok True v (st_db s)"
  shows "\<exists>s'. Migrate [] works s = (None, s') \<and> version s' = 26"
proof -
  obtain r s' where m: "Migrate [] works s = (r, s')" by fastforce
  from Migrate_triples [OF stage_triple assms m] obtain w where "at_version w s'" "r = None" "w = 26" by auto
  then show ?thesis using m version_at by auto
qed

lemma good_empty: "good S N (st_db empty_store)"
  by (simp add: good_def filters_wf_def rows_ok_def empty_store_def empty_db_def)

lemma at_empty: "at_version 0 empty_store"
  by (simp add: at_version_def empty_store_def)

subsection \<open>Properties\<close>

text \<open>
  C34: the tables are typed after every start.  Take a database of any version whose filters are
  well-formed and whose devices have a status of that version, and let any steps of the migration
  fail.  Then the database is left at some version, with well-formed filters (distinct names, valid
  domains off the protected floor), ports in range that belong to a filter, and devices with a
  status of that version; and when \<^verbatim>\<open>Migrate\<close> reports no error it is the last version, in which every device is
  blocked, filtered or open.
\<close>

theorem migrated_tables_typed:
  assumes "v \<le> 26" "at_version v s" "good (statuses v) {} (st_db s)" "Migrate [] fails s = (r, s')"
  shows "\<exists>w\<ge>v. w \<le> 26 \<and> version s' = w \<and> filters_wf (st_db s') \<and>
    rows_ok (st_db s') (filter_udp_ports (st_db s')) \<and> rows_ok (st_db s') (filter_tcp_ports (st_db s')) \<and>
    dev_status ` set (devices (st_db s')) \<subseteq> statuses w \<and>
    (r = None \<longrightarrow> w = 26 \<and> dev_status ` set (devices (st_db s')) \<subseteq> {DeviceStatusBlocked, DeviceStatusFiltered, DeviceStatusOpen})"
proof -
  have "stage_ok False v (st_db s)" using assms(3) by (simp add: stage_ok_def reserved_def)
  from Migrate_triples [OF stage_triple assms(1,2) this assms(4)]
  obtain w where w: "v \<le> w" "w \<le> 26" "at_version w s'" "stage_ok False w (st_db s')" "r = None \<longrightarrow> w = 26" by blast
  then show ?thesis using version_at [OF w(3)] by (intro exI [of _ w]) (auto simp: stage_ok_def good_def reserved_def statuses_def)
qed

theorem migrated_tables_typed_witness:
  "\<exists>r s' w. Migrate [] (\<lambda>x. x = Commit 16) empty_store = (r, s') \<and> w \<le> 26 \<and> version s' = w \<and> filters_wf (st_db s') \<and>
    dev_status ` set (devices (st_db s')) \<subseteq> statuses w"
proof -
  obtain r s' where m: "Migrate [] (\<lambda>x. x = Commit 16) empty_store = (r, s')" by fastforce
  with migrated_tables_typed [OF _ at_empty good_empty m] show ?thesis by auto
qed

text \<open>
  C35: an interrupted upgrade resumes.  Whatever steps of the migration fail, at a statement, at the
  record of the version, at a commit or already at the read of the version: the next start without a failure
  gives the same result and the same database as if nothing had failed.
\<close>

theorem interrupted_upgrade_resumes:
  assumes "v \<le> 26" "at_version v s"
  shows "Migrate [] works (snd (Migrate [] fails s)) = Migrate [] works s"
proof -
  obtain r s' where m: "Migrate [] fails s = (r, s')" by fastforce
  from resume.Migrate_ok [OF assms _ m] m show ?thesis by auto
qed

theorem interrupted_upgrade_resumes_witness:
  "Migrate [] works (snd (Migrate [] (\<lambda>x. x = Commit 16) empty_store)) = Migrate [] works empty_store"
  by (rule interrupted_upgrade_resumes [OF _ at_empty]) simp

text \<open>
  C38: the upgrade goes through.  Without a failing step, a database of any version with well-formed
  tables reaches the last version, provided that below version 15 the filter tables are empty, as
  they do not exist, and that below version 22 no filter is named Nav or Maps.
\<close>

theorem upgrade_goes_through:
  assumes "v \<le> 26" "at_version v s" "good (statuses v) {} (st_db s)"
    and "v < 15 \<longrightarrow> filters (st_db s) = [] \<and> filter_domains (st_db s) = []"
    and "v < 22 \<longrightarrow> f_name ` set (filters (st_db s)) \<inter> {''Nav'', ''Maps''} = {}"
  shows "\<exists>s'. Migrate [] works s = (None, s') \<and> version s' = 26"
proof -
  have "stage_ok True v (st_db s)" using assms(3,4,5) by (auto simp: stage_ok_def good_def reserved_def)
  then show ?thesis using upgrade_total assms(1,2) by blast
qed

theorem upgrade_goes_through_witness: "\<exists>s'. Migrate [] works empty_store = (None, s') \<and> version s' = 26"
  by (rule upgrade_goes_through [OF _ at_empty good_empty]) (simp_all add: empty_store_def empty_db_def)

text \<open>
  C37: a filter named Nav stops the upgrade.  On an installation of version 21 that still has its
  system filter Tesla AP/Nav and in which the operator created a filter Nav, \<^verbatim>\<open>Migrate\<close> fails in version 22 and leaves the database as
  it is, so that the daemon does not start after the update, however often it is tried.
\<close>

theorem name_clash_stops_upgrade:
  assumes "at_version 21 s" "{''Tesla AP/Nav'', ''Nav''} \<subseteq> f_name ` set (filters (st_db s))"
  shows "Migrate seeds works s = (Some (Exec 22), s)"
proof -
  let ?s = "s\<lparr>st_db := (st_db s)\<lparr>filters := map (\<lambda>f. f\<lparr>f_group := []\<rparr>) (filters (st_db s))\<rparr>\<rparr>"
  have "filter_named ''Tesla AP/Nav'' (st_db ?s) \<noteq> None" "filter_named ''Nav'' (st_db ?s) \<noteq> None"
    using assms(2) unfolding filter_named_None by (auto simp: image_image)
  then have "v22 s = None" by (auto simp: v22_def change_def rename_filter_def)
  then show ?thesis using version_at [OF assms(1)] by (simp add: Migrate_def migrations_def)
qed

definition named_filter :: "int \<Rightarrow> string \<Rightarrow> bool \<Rightarrow> Filter" where
  "named_filter i n sys = \<lparr>f_id = i, f_name = n, f_description = [], f_is_system = sys, f_enabled = True, f_group = [], f_ports = []\<rparr>"

definition clash_store :: store where
  "clash_store = empty_store\<lparr>st_schema := Some [1..<22],
     st_db := empty_db\<lparr>filters := [named_filter 1 ''Tesla AP/Nav'' True, named_filter 2 ''Nav'' False], filters_seq := 2\<rparr>\<rparr>"

theorem name_clash_stops_upgrade_witness: "Migrate [] works clash_store = (Some (Exec 22), clash_store)"
proof (rule name_clash_stops_upgrade)
  show "at_version 21 clash_store" by (simp add: at_version_def clash_store_def)
qed (simp add: clash_store_def named_filter_def)

subsection \<open>The assignments of the old policies\<close>

lemma run_append: "run (xs @ ys) s = Option.bind (run xs s) (run ys)"
proof (induction xs arbitrary: s)
  case (Cons f xs)
  then show ?case by (cases "f s") simp_all
qed simp

definition assigned_ok :: "store \<Rightarrow> bool" where
  "assigned_ok s \<longleftrightarrow> snd ` set (st_device_policies s) \<subseteq> pol_id ` set (st_policies s)"

definition keeps_policies :: "statement \<Rightarrow> bool" where
  "keeps_policies f \<longleftrightarrow> (\<forall>s s'. f s = Some s' \<longrightarrow>
     set (st_device_policies s') \<subseteq> set (st_device_policies s) \<and> pol_id ` set (st_policies s) \<subseteq> pol_id ` set (st_policies s'))"

lemma keeps_policies_run: "keeps_policies (run [])" "keeps_policies f \<Longrightarrow> keeps_policies (run fs) \<Longrightarrow> keeps_policies (run (f # fs))"
  unfolding keeps_policies_def by (auto simp: bind_eq_Some_conv) (blast+)?

lemma keeps_policies_statements:
  "keeps_policies (change g)" "keeps_policies (seed_settings kvs)" "keeps_policies (seed_blocked bs)"
  "keeps_policies (seed_policy n mode desc def)" "keeps_policies (seed_policy_domain site desc)"
  by (auto simp: keeps_policies_def change_def seed_settings_def seed_blocked_def seed_policy_def seed_policy_domain_def split: option.splits if_splits)

lemma keeps_policies_other:
  "(\<And>s. st_policies (f s) = st_policies s \<and> set (st_device_policies (f s)) \<subseteq> set (st_device_policies s)) \<Longrightarrow> keeps_policies (\<lambda>s. Some (f s))"
  by (simp add: keeps_policies_def)

lemma early_policies: "m \<in> set (take 8 migrations @ take 5 (drop 9 migrations)) \<Longrightarrow> keeps_policies m"
proof -
  have "keeps_policies v1" "keeps_policies v2" "keeps_policies v3" "keeps_policies v4" "keeps_policies v5" "keeps_policies v6" "keeps_policies v7"
    "keeps_policies v8" "keeps_policies v10" "keeps_policies v11" "keeps_policies v12" "keeps_policies v13" "keeps_policies v14"
    unfolding v1_def v2_def v3_def v4_def v5_def v6_def v10_def v11_def v12_def v13_def
    by (rule keeps_policies_run keeps_policies_statements | (rule keeps_policies_other, simp; fail)
        | (simp add: keeps_policies_def v7_def v8_def v14_def; fail) | (auto simp: keeps_policies_def v8_def; fail))+
  then show "m \<in> set (take 8 migrations @ take 5 (drop 9 migrations)) \<Longrightarrow> keeps_policies m" by (auto simp: migrations_def)
qed

text \<open>The foreign key cascades when version 9 drops the old table.\<close>

lemma v9_unassigns: "assigned_ok s \<Longrightarrow> v9 s = Some s' \<Longrightarrow> st_device_policies s' = []"
proof -
  assume "assigned_ok s" "v9 s = Some s'"
  moreover have "filter (\<lambda>x. snd x \<notin> pol_id ` set (st_policies s)) (st_device_policies s) = []" if "assigned_ok s"
    using that unfolding assigned_ok_def filter_empty_conv by blast
  ultimately show ?thesis by (auto simp: v9_def rebuild_policies_def seed_policy_def Let_def)
qed

lemma classify_none: "st_device_policies s = [] \<Longrightarrow> classify_devices P st s = Some s"
  by (simp add: classify_devices_def assigned_def change_def update_devices_def)

lemma tripleD: "triple t P f Q \<Longrightarrow> P (st_db s) \<Longrightarrow> f s = Some s' \<Longrightarrow> Q (st_db s')"
  unfolding triple_def by fastforce

lemma triple_v15_filters: "triple False (good S {}) (run v15_filters) (good S {})"
proof -
  have "triple False (good S {}) (run v15_filters) (good S ({} - {''Tesla AP/Nav''} - {''YouTube''} - {''Netflix''} - {''Disney+''}))"
    unfolding v15_filters_def
    by (rule triple_Nil triple_Cons triple_insert_filter triple_insert_domains(2) seeds_ok(1) triple_untouched | (rule triple_other, simp; fail) | simp; fail)+
  then show ?thesis by simp
qed

lemma v15_unassigned:
  assumes "st_device_policies s = []" "good S {} (st_db s)" "v15 s = Some s'"
  shows "good {''unknown'', ''blocked''} {} (st_db s')"
proof -
  let ?u = "update_devices (\<lambda>_. True) (\<lambda>x. x\<lparr>dev_status := ''unknown''\<rparr>)" and ?b = "update_devices dev_is_blocked (\<lambda>x. x\<lparr>dev_status := ''blocked''\<rparr>)"
  let ?s = "s\<lparr>st_db := ?b (?u (st_db s))\<rparr>"
  have "run v15_filters ?s = Some s'"
    using assms(1,3) by (simp add: v15_def run_append change_def classify_none)
  moreover have "good {''unknown'', ''blocked''} {} (st_db ?s)"
    by (auto simp: update_devices_def intro!: good_other [OF assms(2)])
  ultimately show ?thesis using tripleD [OF triple_v15_filters] by blast
qed

definition unassigned_stage :: "nat \<Rightarrow> store \<Rightarrow> bool" where
  "unassigned_stage i s \<longleftrightarrow>
     (if i \<le> 8 then good UNIV {} (st_db s) \<and> assigned_ok s
      else if i \<le> 14 then good UNIV {} (st_db s) \<and> st_device_policies s = []
      else if i = 15 then good {''unknown'', ''blocked''} {} (st_db s)
      else good {''blocked''} {} (st_db s))"

lemma late_triple: "m \<in> set (drop 16 migrations) \<Longrightarrow> triple False (good S {}) m (good S {})"
  using triple_v17 triple_v18 [of "{}"] triple_v19 [of "{}"] triple_v20_21 triple_v22 [of "{}"] triple_v23 triple_v24 triple_v25_26
  by (auto simp: migrations_def)

lemma unassigned_step:
  assumes "i < 26" "unassigned_stage i s" "(migrations ! i) s = Some s'"
  shows "unassigned_stage (Suc i) s'"
proof -
  consider (a) "i < 8" | (b) "i = 8" | (c) "9 \<le> i" "i < 14" | (d) "i = 14" | (e) "i = 15" | (f) "16 \<le> i" by linarith
  then show ?thesis
  proof cases
    case a
    then have "migrations ! i \<in> set (take 8 migrations)" "migrations ! i \<in> set (take 14 migrations)"
      using nth_mem [of i "take 8 migrations"] nth_mem [of i "take 14 migrations"] by simp_all
    with a assms(2,3) early_policies [of "migrations ! i"] tripleD [OF early_triple, of "migrations ! i" UNIV "{}" s s'] show ?thesis
      by (force simp: unassigned_stage_def keeps_policies_def assigned_ok_def)
  next
    case b
    then have "v9 s = Some s'" using assms(3) by (simp add: migrations_def)
    with b assms(2) v9_unassigns tripleD [OF triples_before_15(9)] show ?thesis by (simp add: unassigned_stage_def) blast
  next
    case c
    then have "migrations ! i \<in> set (take 5 (drop 9 migrations))" "migrations ! i \<in> set (take 14 migrations)"
      using nth_mem [of "i - 9" "take 5 (drop 9 migrations)"] nth_mem [of i "take 14 migrations"] by simp_all
    moreover from this have "set (st_device_policies s') \<subseteq> set (st_device_policies s)"
      using early_policies [of "migrations ! i"] assms(3) by (simp add: keeps_policies_def)
    ultimately show ?thesis
      using c assms(2,3) tripleD [OF early_triple, of "migrations ! i" UNIV "{}" s s'] by (simp add: unassigned_stage_def)
  next
    case d
    then have "v15 s = Some s'" using assms(3) by (simp add: migrations_def)
    with d assms(2) v15_unassigned show ?thesis by (simp add: unassigned_stage_def) blast
  next
    case e
    then have "v16 s = Some s'" using assms(3) by (simp add: migrations_def)
    with e assms(2) tripleD [OF triple_v16, of "{''unknown'', ''blocked''}" "{}" s s'] show ?thesis by (simp add: unassigned_stage_def moved_def)
  next
    case f
    then have "migrations ! i \<in> set (drop 16 migrations)" using assms(1) nth_mem [of "i - 16" "drop 16 migrations"] by simp
    with f assms(2,3) tripleD [OF late_triple] show ?thesis by (auto simp: unassigned_stage_def)
  qed
qed

interpretation forgotten: upgrade unassigned_stage False
proof
  show "case (migrations ! i) s of None \<Rightarrow> \<not> False | Some s1 \<Rightarrow> unassigned_stage (Suc i) s1" if "i < 26" "unassigned_stage i s" for i s
    using unassigned_step [OF that] by (simp split: option.split)
qed (simp add: unassigned_stage_def assigned_ok_def)

text \<open>
  C36: the upgrade over version 9 forgets every device.  Version 9 copies the policies and drops the
  old table; as foreign keys are enforced, the drop deletes every assignment of a device to a policy.  So an
  installation of a version up to 8, whatever policies its devices had, comes out of a migration that reports no error with every
  device blocked.
\<close>

theorem upgrade_blocks_every_device:
  assumes "v \<le> 8" "at_version v s" "good UNIV {} (st_db s)" "assigned_ok s" "Migrate [] fails s = (None, s')"
  shows "dev_status ` set (devices (st_db s')) \<subseteq> {''blocked''}"
proof -
  have "unassigned_stage v s" using assms(1,3,4) by (simp add: unassigned_stage_def)
  then obtain w where "unassigned_stage w s'" "w = 26" using forgotten.Migrate_ok [OF _ assms(2) _ assms(5)] assms(1) by auto
  then show ?thesis by (simp add: unassigned_stage_def good_def)
qed

definition trusting_store :: store where
  "trusting_store = empty_store\<lparr>st_schema := Some [1..<9],
     st_db := empty_db\<lparr>devices := [\<lparr>dev_id = 1, dev_mac = ''aa:bb:cc:dd:ee:ff'', dev_ip = [], dev_hostname = [], dev_alias = [], dev_last_seen = 0,
        dev_status = [], dev_is_blocked = False, dev_ignore_log = False\<rparr>], devices_seq := 1\<rparr>,
     st_policies := [\<lparr>pol_id = 1, pol_name = ''Default'', pol_mode = ''strict'', pol_description = [], pol_default = True\<rparr>], st_policies_seq := 1,
     st_device_policies := [(''aa:bb:cc:dd:ee:ff'', 1)]\<rparr>"

theorem upgrade_blocks_every_device_witness:
  "\<exists>s'. Migrate [] works trusting_store = (None, s') \<and> dev_status ` set (devices (st_db s')) \<subseteq> {''blocked''}"
proof -
  have at: "at_version 8 trusting_store" by (simp add: at_version_def trusting_store_def)
  have good: "good UNIV N (st_db trusting_store)" for N
    by (simp add: good_def filters_wf_def rows_ok_def trusting_store_def empty_db_def)
  then have "stage_ok True 8 (st_db trusting_store)" by (simp add: stage_ok_def statuses_def trusting_store_def empty_db_def)
  from upgrade_total [OF _ at this] obtain s' where "Migrate [] works trusting_store = (None, s')" by auto
  with upgrade_blocks_every_device [OF _ at good _ this] show ?thesis by (simp add: assigned_ok_def trusting_store_def)
qed

subsection \<open>Ports belong to system filters\<close>

text \<open>\<open>held S N M\<close>: well-formed tables in which every port belongs to a system filter, and every filter with a name in \<open>M\<close> is one.\<close>

definition system_ports :: "db \<Rightarrow> bool" where
  "system_ports d \<longleftrightarrow> (\<forall>p\<in>set (filter_udp_ports d) \<union> set (filter_tcp_ports d). \<forall>f\<in>set (filters d). f_id f = p_preset p \<longrightarrow> f_is_system f)"

definition own :: "string set \<Rightarrow> db \<Rightarrow> bool" where
  "own M d \<longleftrightarrow> system_ports d \<and> (\<forall>f\<in>set (filters d). f_name f \<in> M \<longrightarrow> f_is_system f)"

definition held :: "string set \<Rightarrow> string set \<Rightarrow> string set \<Rightarrow> db \<Rightarrow> bool" where
  "held S N M d \<longleftrightarrow> good S N d \<and> own M d"

lemma triple_held:
  assumes "triple t (good S N) f (good S N')" "\<And>s s'. good S N (st_db s) \<Longrightarrow> own M (st_db s) \<Longrightarrow> f s = Some s' \<Longrightarrow> own M' (st_db s')"
  shows "triple t (held S N M) f (held S N' M')"
  unfolding triple_def
proof (intro allI impI)
  fix s :: store assume "held S N M (st_db s)"
  with assms show "case f s of None \<Rightarrow> \<not> t | Some s' \<Rightarrow> held S N' M' (st_db s')"
    by (cases "f s") (force simp: triple_def held_def)+
qed

lemma own_same:
  "own M d \<Longrightarrow> filters d' = filters d \<Longrightarrow> filter_udp_ports d' = filter_udp_ports d \<Longrightarrow> filter_tcp_ports d' = filter_tcp_ports d \<Longrightarrow> own M d'"
  by (simp add: own_def system_ports_def)

lemma add_domains_frame:
  "add_domains ig xs d = Some d' \<Longrightarrow> filters d' = filters d \<and> filter_udp_ports d' = filter_udp_ports d \<and> filter_tcp_ports d' = filter_tcp_ports d \<and>
    devices d' = devices d \<and> firewall_rules d' = firewall_rules d"
proof (induction xs arbitrary: d)
  case (Cons x xs)
  then obtain d1 where d1: "add_domain ig x d = Some d1" "add_domains ig xs d1 = Some d'" by (auto simp: bind_eq_Some_conv)
  moreover have "filters d1 = filters d \<and> filter_udp_ports d1 = filter_udp_ports d \<and> filter_tcp_ports d1 = filter_tcp_ports d \<and>
    devices d1 = devices d \<and> firewall_rules d1 = firewall_rules d"
    using d1(1) by (cases x) (auto split: option.splits if_splits)
  ultimately show ?case using Cons.IH by auto
qed simp

lemma own_domains: "own M (st_db s) \<Longrightarrow> insert_domains ig xs s = Some s' \<Longrightarrow> own M (st_db s')"
  using add_domains_frame by (auto simp: insert_domains_def intro: own_same)

lemma own_map:
  assumes "own M d" "\<And>f. f_id (g f) = f_id f" "\<And>f. f_is_system f \<Longrightarrow> f_is_system (g f)" "\<And>f. f_name (g f) \<in> M' \<Longrightarrow> f_name f \<in> M \<or> f_is_system (g f)"
  shows "own M' (d\<lparr>filters := map g (filters d)\<rparr>)"
  using assms by (auto simp: own_def system_ports_def) blast+

lemma own_append:
  assumes "good S N d" "own M d" "sys \<or> n \<notin> M'" "M' \<subseteq> insert n M" "filter_named n d = None"
  shows "own M' (append_filter n desc sys en grp d)"
proof -
  have "filters_seq d + 1 \<noteq> p_preset p" if "p \<in> set (filter_udp_ports d) \<union> set (filter_tcp_ports d)" for p
    using assms(1) that by (fastforce simp: good_def rows_ok_def filters_wf_def)
  with assms(2-5) show ?thesis by (auto simp: own_def system_ports_def append_filter_def filter_named_None)
qed

lemma held_new:
  assumes "n \<in> N"
  shows "triple t (held S N M) (insert_missing_filter n desc True en grp) (held S (N - {n}) (insert n M))"
    "triple t (held S N M) (insert_or_ignore_filter n desc True en grp) (held S (N - {n}) (insert n M))"
proof -
  have "filter_named n d = None" if "good S N d" for d using that assms by (auto simp: good_def filter_named_None)
  then show "triple t (held S N M) (insert_missing_filter n desc True en grp) (held S (N - {n}) (insert n M))"
    "triple t (held S N M) (insert_or_ignore_filter n desc True en grp) (held S (N - {n}) (insert n M))"
    by (auto simp: triple_def held_def insert_missing_filter_def insert_or_ignore_filter_def change_def intro: good_append own_append)
qed

lemma held_maybe:
  assumes "n \<notin> M" "n \<notin> N"
  shows "triple t (held S N M) (insert_missing_filter n desc sys en grp) (held S N M)"
    "triple t (held S N M) (insert_or_ignore_filter n desc sys en grp) (held S N M)"
proof -
  have own: "own M (append_filter n desc sys en grp d)" if "good S N d" "own M d" "filter_named n d = None" for d
    using assms(1) that by (intro own_append) auto
  have "own M (d\<lparr>filters_seq := k\<rparr>)" if "own M d" for d k using that by (rule own_same) simp_all
  with own show "triple t (held S N M) (insert_missing_filter n desc sys en grp) (held S N M)"
    "triple t (held S N M) (insert_or_ignore_filter n desc sys en grp) (held S N M)"
    by (auto intro!: triple_held triple_insert_missing triple_insert_or_ignore assms simp: insert_missing_filter_def insert_or_ignore_filter_def change_def
        split: if_splits)
qed

lemma held_rename:
  assumes "t \<Longrightarrow> new \<in> N" "old \<noteq> new" "new \<notin> M"
  shows "triple t (held S N M) (rename_filter old new desc grp) (held S (N - {new}) M)"
proof (rule triple_held [OF triple_rename [OF assms(1,2)]])
  fix s s' assume "own M (st_db s)" "rename_filter old new desc grp s = Some s'"
  then show "own M (st_db s')"
    using assms(3) by (auto simp: rename_filter_def change_def update_named_def split: if_splits intro!: own_map)
qed

lemma own_port:
  assumes "good S N d" "own M d" "n \<in> M"
  shows "own M (insert_udp n p d)" "own M (insert_tcp n p d)"
proof -
  have inj: "inj_on f_id (set (filters d))" using assms(1) by (simp add: good_def filters_wf_def distinct_map)
  have "f_is_system f" if "filter_named n d = Some h" "f \<in> set (filters d)" "f_id f = f_id h" for f h
  proof -
    have "f = h" using that filter_named_Some [OF that(1)] inj by (simp add: inj_on_def)
    with that assms(2,3) filter_named_Some [OF that(1)] show ?thesis by (auto simp: own_def)
  qed
  moreover have "q \<in> set rows \<or> (\<exists>h. filter_named n d = Some h \<and> p_preset q = f_id h)" if "q \<in> set (with_port n p d rows)" for q rows
    using that by (auto simp: with_port_def split: option.splits if_splits)
  ultimately have "f_is_system f" if "q \<in> set (with_port n p d rows)" "f \<in> set (filters d)" "f_id f = p_preset q"
      "\<forall>q\<in>set rows. \<forall>f\<in>set (filters d). f_id f = p_preset q \<longrightarrow> f_is_system f" for q rows f
    using that by metis
  with assms(2) show "own M (insert_udp n p d)" "own M (insert_tcp n p d)"
    unfolding own_def system_ports_def insert_udp_def insert_tcp_def by simp_all blast+
qed

lemma held_port:
  assumes "n \<in> M" "1 \<le> p" "p \<le> 65535"
  shows "triple t (held S N M) (change (insert_udp n p)) (held S N M)" "triple t (held S N M) (change (insert_tcp n p)) (held S N M)"
  using assms own_port [of S N _ M n p] by (auto intro!: triple_held triple_ports simp: change_def)

lemma held_plain:
  "list_all seed_ok xs \<Longrightarrow> triple t (held S N M) (insert_domains True xs) (held S N M)"
  "triple t (held S N M) (change (delete_domain site n)) (held S N M)" "triple t (held S N M) (change (enable_domain site n)) (held S N M)"
  "triple t (held S N M) (change (\<lambda>d. d\<lparr>firewall_rules := r d\<rparr>)) (held S N M)"
  by (rule triple_held, rule triple_insert_domains triple_delete_domain triple_switches triple_rules, (assumption)?;
      (erule (1) own_domains | (auto simp: change_def delete_domain_def enable_domain_def elim!: own_same; fail)))+

lemma held_map:
  assumes "\<And>f. f_id (g f) = f_id f" "\<And>f. f_name (g f) = f_name f" "\<And>f. f_is_system f \<Longrightarrow> f_is_system (g f)"
  shows "triple t (held S N M) (change (\<lambda>d. d\<lparr>filters := map g (filters d)\<rparr>)) (held S N M)"
    "triple t (held S N M) (change (update_named n g)) (held S N M)"
  using assms by (auto intro!: triple_held triple_map_filters triple_update_named own_map simp: change_def update_named_def split: if_splits)

lemma held_promote:
  assumes "\<And>f. f_id (g f) = f_id f" "\<And>f. f_name (g f) = f_name f" "\<And>f. f_is_system (g f)"
  shows "triple t (held S N M) (change (update_named n g)) (held S N (insert n M))"
  using assms by (auto intro!: triple_held triple_update_named own_map simp: change_def update_named_def split: if_splits)

definition names_free :: "nat \<Rightarrow> string set" where
  "names_free i = (if i < 15 then v15_names else {}) \<union> (if i < 22 then {''Nav'', ''Maps'', ''Time''} else {}) \<union> (if i < 23 then {''Car Apps''} else {})"

definition blank :: "bool \<Rightarrow> db \<Rightarrow> bool" where
  "blank noports d \<longleftrightarrow> devices d = [] \<and> firewall_rules d = [] \<and> (noports \<longrightarrow> filter_udp_ports d = [] \<and> filter_tcp_ports d = [])"

text \<open>The invariant of a database that starts empty.\<close>

definition clean :: "nat \<Rightarrow> db \<Rightarrow> bool" where
  "clean i d \<longleftrightarrow> held (statuses i) (names_free i) {} d \<and> (i < 15 \<longrightarrow> filter_domains d = []) \<and> blank (i < 22) d"

lemma held_v22: "triple t (held S (names_free 21) {}) v22 (held S (names_free 22) {})"
proof -
  let ?N = "names_free 21 - {''Nav''} - {''Maps''} - {''Time''}" and ?M = "insert ''Grok'' (insert ''Time'' {})"
  have n: "''Nav'' \<in> names_free 21" "''Maps'' \<in> names_free 21 - {''Nav''}" "''Time'' \<in> names_free 21 - {''Nav''} - {''Maps''}"
    "''Grok'' \<notin> {''Time''}" "''Grok'' \<notin> ?N" "''Connectivity'' \<notin> ?N" "''Connectivity'' \<notin> ?M" "''Time'' \<in> {''Time''}" "''Grok'' \<in> ?M"
    by (auto simp: names_free_def)
  have "triple t (held S (names_free 21) {}) v22 (held S ?N ?M)"
    unfolding v22_def
    by (rule triple_Nil triple_Cons held_plain seeds_ok v22_extra_ok held_new(1) held_maybe(1) held_port(1) n | (rule held_rename; (rule n | simp); fail)
        | (rule held_promote; simp; fail) | (rule held_map(1); simp; fail) | simp; fail)+
  then show ?thesis
    by (rule triple_weaken) (auto simp: held_def own_def names_free_def elim!: good_mono)
qed

lemma held_v23: "triple t (held S (names_free 22) {}) v23 (held S (names_free 23) {})"
proof -
  have n: "x \<notin> names_free 22" if "x \<noteq> ''Car Apps''" for x using that by (simp add: names_free_def)
  have c: "''Car Apps'' \<in> names_free 22" "''Car Apps'' \<in> insert ''Car Apps'' {}" by (simp_all add: names_free_def)
  have "triple t (held S (names_free 22) {}) v23 (held S (names_free 22 - {''Car Apps''}) (insert ''Car Apps'' {}))"
    unfolding v23_def
    by (rule triple_Nil triple_Cons held_plain seeds_ok apps_ok held_new(2) held_port c | (rule held_maybe(2), simp, rule n, simp; fail)
        | (rule held_map(2); simp; fail) | simp; fail)+
  then show ?thesis
    by (rule triple_weaken) (auto simp: held_def own_def names_free_def elim!: good_mono)
qed

lemma keep_run: "triple t P (run []) P" "triple t P f P \<Longrightarrow> triple t P (run fs) P \<Longrightarrow> triple t P (run (f # fs)) P"
  by (rule triple_Nil, erule (1) triple_Cons)

lemma blank_statements:
  "triple False (blank b) (seed_settings kvs) (blank b)" "triple False (blank b) (insert_domains ig xs) (blank b)"
  "triple False (blank b) (insert_filter n desc sys en grp) (blank b)" "triple False (blank b) (insert_or_ignore_filter n desc sys en grp) (blank b)"
  "triple False (blank b) (insert_missing_filter n desc sys en grp) (blank b)" "triple False (blank b) (rename_filter n m desc grp) (blank b)"
  "triple False (blank b) (classify_devices P st) (blank b)" "triple False (blank b) enable_attached (blank b)"
proof -
  have fold: "blank b d \<Longrightarrow> blank b (fold seed_setting kvs d)" for kvs d
    by (induction kvs arbitrary: d) (auto simp: seed_setting_def blank_def)
  show "triple False (blank b) (seed_settings kvs) (blank b)"
    unfolding seed_settings_def by (rule triple_change) (rule fold)
  show "triple False (blank b) (insert_domains ig xs) (blank b)"
    using add_domains_frame by (fastforce simp: triple_def insert_domains_def blank_def split: option.splits)
  have ap: "blank b (append_filter n desc sys en grp d) = blank b d" "blank b (d\<lparr>filters_seq := k\<rparr>) = blank b d" for d k
    by (simp_all add: blank_def append_filter_def)
  show "triple False (blank b) (insert_filter n desc sys en grp) (blank b)" "triple False (blank b) (insert_or_ignore_filter n desc sys en grp) (blank b)"
    "triple False (blank b) (insert_missing_filter n desc sys en grp) (blank b)"
    by (simp_all add: triple_def insert_filter_def insert_or_ignore_filter_def insert_missing_filter_def change_def ap)
  show "triple False (blank b) (rename_filter n m desc grp) (blank b)" "triple False (blank b) (classify_devices P st) (blank b)"
    "triple False (blank b) enable_attached (blank b)"
    by (simp_all add: triple_def rename_filter_def classify_devices_def enable_attached_def change_def update_named_def update_devices_def blank_def)
qed

lemmas blank_rules = keep_run blank_statements triple_untouched

lemma early_blank: "m \<in> set (take 21 migrations) \<Longrightarrow> triple False (blank True) m (blank True)"
proof -
  have "list_all (\<lambda>m. triple False (blank True) m (blank True)) (take 21 migrations)"
    unfolding migrations_def v1_def v2_def v3_def v4_def v5_def v6_def v9_def v10_def v11_def v12_def v13_def v15_def v15_filters_def v16_def v17_def
      v18_def v19_def v20_def v21_def append_Cons append_Nil
    apply (simp del: run.simps)
    by (intro conjI; (rule blank_rules | (rule triple_other, simp; fail)
        | (rule triple_change, simp add: blank_def update_devices_def delete_domain_def update_named_def delete_named_def enable_nav_domains_def; fail)
        | (simp add: triple_def v7_def v8_def v14_def; fail))+)
  then show "m \<in> set (take 21 migrations) \<Longrightarrow> triple False (blank True) m (blank True)" by (simp add: list_all_iff)
qed

lemma late_blank: "m \<in> set (drop 21 migrations) \<Longrightarrow> triple False (blank False) m (blank False)"
proof -
  have "list_all (\<lambda>m. triple False (blank False) m (blank False)) (drop 21 migrations)"
    unfolding migrations_def v22_def v23_def v24_def
    apply (simp del: run.simps)
    by (intro conjI; (rule blank_rules
        | (rule triple_change, simp add: blank_def delete_domain_def update_named_def enable_domain_def insert_udp_def insert_tcp_def describe_udp_def
            describe_tcp_def; fail)
        | (simp add: triple_def v25_def v26_def; fail))+)
  then show "m \<in> set (drop 21 migrations) \<Longrightarrow> triple False (blank False) m (blank False)" by (simp add: list_all_iff)
qed

lemma triple_both:
  assumes "triple t P f Q" "triple False P' f Q'" "\<And>d. R d \<Longrightarrow> P d \<and> P' d" "\<And>d. Q d \<Longrightarrow> Q' d \<Longrightarrow> R' d"
  shows "triple t R f R'"
  unfolding triple_def
proof (intro allI impI)
  fix s :: store assume "R (st_db s)"
  with assms show "case f s of None \<Rightarrow> \<not> t | Some s' \<Rightarrow> R' (st_db s')" by (cases "f s") (force simp: triple_def)+
qed

lemma system_ports_iff:
  "system_ports d \<longleftrightarrow> (\<forall>i\<in>p_preset ` set (filter_udp_ports d) \<union> p_preset ` set (filter_tcp_ports d). \<forall>f\<in>set (filters d). f_id f = i \<longrightarrow> f_is_system f)"
  by (auto simp: system_ports_def)

lemma held_v24: "triple t (held S N {}) v24 (held S N {})"
proof -
  have own: "own {} d" if "own {} e" "filters d = filters e" "p_preset ` set (filter_udp_ports d) = p_preset ` set (filter_udp_ports e)"
    "p_preset ` set (filter_tcp_ports d) = p_preset ` set (filter_tcp_ports e)" for d e :: db
    using that by (simp add: own_def system_ports_iff)
  have img: "p_preset ` set (described n p x d rows) = p_preset ` set rows" for n p x d rows
  proof -
    have "map p_preset (described n p x d rows) = map p_preset rows" by (simp add: described_def)
    then show ?thesis by (metis set_map)
  qed
  have changed: "triple t (held S N {}) (change g) (held S N {})" if "triple t (good S N) (change g) (good S N)"
    "\<And>d. filters (g d) = filters d \<and> p_preset ` set (filter_udp_ports (g d)) = p_preset ` set (filter_udp_ports d) \<and>
      p_preset ` set (filter_tcp_ports (g d)) = p_preset ` set (filter_tcp_ports d)" for g
  proof (rule triple_held [OF that(1)])
    fix s s' assume o: "own {} (st_db s)" and "change g s = Some s'"
    then have "st_db s' = g (st_db s)" by (auto simp: change_def)
    with own [where d = "g (st_db s)" and e = "st_db s"] o that(2) [of "st_db s"] show "own {} (st_db s')" by simp
  qed
  show ?thesis
    unfolding v24_def
    by (rule triple_Nil triple_Cons changed triple_describe triple_wipe_descriptions | (simp add: describe_udp_def describe_tcp_def img image_image; fail))+
qed

lemma clean_late: "22 \<le> i \<Longrightarrow> clean i = (\<lambda>d. held (statuses 16) (names_free i) {} d \<and> blank False d)"
  by (auto simp: fun_eq_iff clean_def statuses_def)

lemma clean_early: "i < 22 \<Longrightarrow> clean i = (\<lambda>d. good (statuses i) (names_free i) d \<and> (i < 15 \<longrightarrow> filter_domains d = []) \<and> blank True d)"
  by (auto simp: fun_eq_iff clean_def held_def own_def system_ports_def blank_def)

lemma clean_step:
  assumes "i < 26" shows "triple True (clean i) (migrations ! i) (clean (Suc i))"
proof -
  have bl: "triple False (blank True) (migrations ! i) (blank True)" if "i < 21"
    using that nth_mem [of i "take 21 migrations"] by (intro early_blank) simp
  have bl': "triple False (blank False) (migrations ! i) (blank False)" if "21 \<le> i"
    using that assms nth_mem [of "i - 21" "drop 21 migrations"] by (intro late_blank) simp
  consider (a) "i < 14" | (b) "i = 14" | (c) "i = 15" | (d) "16 \<le> i" "i < 21" | (e) "i = 21" | (f) "i = 22" | (g) "i = 23" | (h) "i = 24 \<or> i = 25"
    using assms by linarith
  then show ?thesis
  proof cases
    case a
    then have m: "migrations ! i \<in> set (take 14 migrations)" using nth_mem [of i "take 14 migrations"] by simp
    have "statuses (Suc i) = statuses i" "names_free (Suc i) = names_free i" using a by (simp_all add: statuses_def names_free_def)
    then show ?thesis
      using triple_both [where t = True and R = "clean i" and R' = "clean (Suc i)", OF triple_frame [OF early_triple [OF m, where S = "statuses i" and N = "names_free i"] early_frame [OF m]] bl] a
      by (simp add: clean_early fresh_def)
  next
    case b
    then have k: "triple False (blank True) v15 (blank True)" using bl by (simp add: migrations_def)
    have "names_free 14 - v15_names = names_free 15" "v15_names \<subseteq> names_free 14" by (auto simp: names_free_def v15_names_def)
    then show ?thesis
      using triple_both [where R = "clean 14" and R' = "clean 15", OF triple_v15 [of True "names_free 14" "statuses 14"] k] b
      by (simp add: clean_early fresh_def migrations_def)
  next
    case c
    then have k: "triple False (blank True) v16 (blank True)" using bl by (simp add: migrations_def)
    have "names_free 16 = names_free 15" "moved ''trusted'' ''open'' (moved ''unknown'' ''blocked'' (statuses 15)) = statuses 16"
      by (auto simp: names_free_def moved_def statuses_def status_defs)
    then show ?thesis
      using triple_both [where R = "clean 15" and R' = "clean 16", OF triple_v16 [of True "statuses 15" "names_free 15"] k] c
      by (simp add: clean_early migrations_def)
  next
    case d
    then have m: "migrations ! i \<in> set (take 5 (drop 16 migrations))" using nth_mem [of "i - 16" "take 5 (drop 16 migrations)"] by simp
    have n: "names_free (Suc i) = names_free i" "statuses (Suc i) = statuses i" "names_free i \<inter> {''Maps & Time'', ''Twitch''} = {}"
      using d by (auto simp: names_free_def statuses_def)
    then show ?thesis
      using triple_both [where t = True and R = "clean i" and R' = "clean (Suc i)", OF mid_triple [OF n(3) m, where S = "statuses i"] bl] d by (simp add: clean_early)
  next
    case e
    then have k: "triple False (blank False) v22 (blank False)" using bl' by (simp add: migrations_def)
    have "clean 21 d \<Longrightarrow> held (statuses 16) (names_free 21) {} d \<and> blank False d" for d
      by (simp add: clean_def blank_def statuses_def)
    then show ?thesis
      using triple_both [where R = "clean 21" and R' = "clean 22", OF held_v22 [of True "statuses 16"] k] e by (simp add: clean_late migrations_def)
  next
    case f
    then have k: "triple False (blank False) v23 (blank False)" using bl' by (simp add: migrations_def)
    from f show ?thesis
      using triple_both [where R = "clean 22" and R' = "clean 23", OF held_v23 [of True "statuses 16"] k] by (simp add: clean_late migrations_def)
  next
    case g
    then have k: "triple False (blank False) v24 (blank False)" using bl' by (simp add: migrations_def)
    have "names_free 24 = names_free 23" by (simp add: names_free_def)
    then show ?thesis
      using triple_both [where R = "clean 23" and R' = "clean 24", OF held_v24 [of True "statuses 16" "names_free 23"] k] g
      by (simp add: clean_late migrations_def)
  next
    case h
    then have "clean (Suc i) = clean i" "migrations ! i = v25 \<or> migrations ! i = v26" by (auto simp: clean_late names_free_def migrations_def)
    with triple_v25_26 show ?thesis by auto
  qed
qed

interpretation factory: upgrade "\<lambda>i s. clean i (st_db s)" True
  by (rule upgrade_triples) (rule clean_step)

lemma fresh_store: "\<exists>s'. Migrate [] works empty_store = (None, s') \<and> at_version 26 s' \<and> clean 26 (st_db s')"
proof -
  obtain r s' where m: "Migrate [] works empty_store = (r, s')" by fastforce
  have "clean 0 (st_db empty_store)"
    by (simp add: clean_early good_def filters_wf_def rows_ok_def blank_def empty_store_def empty_db_def)
  then obtain w where "at_version w s'" "clean w (st_db s')" "w = 26" "r = None"
    using factory.Migrate_ok [OF _ at_empty _ m] by force
  with m show ?thesis by auto
qed

text \<open>
  A fresh installation starts closed.  Migrating the empty database succeeds and gives the last
  version with well-formed filters, no device and no firewall rule, and every port that is opened
  belongs to a system filter, which the operator can switch off but not delete.
\<close>

theorem fresh_install_is_closed:
  "\<exists>s'. Migrate [] works empty_store = (None, s') \<and> version s' = 26 \<and> filters_wf (st_db s') \<and>
     devices (st_db s') = [] \<and> firewall_rules (st_db s') = [] \<and> system_ports (st_db s')"
proof -
  obtain s' where "Migrate [] works empty_store = (None, s')" "at_version 26 s'" "clean 26 (st_db s')" using fresh_store by blast
  then show ?thesis using version_at by (auto simp: clean_def held_def good_def own_def blank_def)
qed

end
