(* ===== verification/Startup.thy ===== *)
theory Startup
  imports Config_Step Migrations Spoof
begin

text \<open>
  \<^verbatim>\<open>cmd/netfilterd/main.go\<close>, \<^verbatim>\<open>internal/services/services.go\<close> and \<^verbatim>\<open>internal/database/database.go\<close>: a start of
  the daemon, from the flags to the listening server, and the life of an appliance as a sequence of starts
  and runs.  The database file is a \<^verbatim>\<open>store\<close>; what the flags, the files and the machine give is an argument.
  The listeners are the library's: what a server answers is \<^verbatim>\<open>serve_all\<close> of the router.
\<close>

subsection \<open>Opening the database\<close>

datatype open_step = OpenFile | Ping | Pragma string

datatype open_error = OpenFailed open_step | RunMigrations mig_step

definition pragmas :: "string list" where
  "pragmas = [''PRAGMA journal_mode=WAL'', ''PRAGMA busy_timeout=5000'', ''PRAGMA foreign_keys=ON'', ''PRAGMA synchronous=NORMAL'']"

definition Open_db :: "statement list \<Rightarrow> (open_step \<Rightarrow> bool) \<Rightarrow> (mig_step \<Rightarrow> bool) \<Rightarrow> store \<Rightarrow> open_error option \<times> store" where
  "Open_db localSeeds breaks fails s =
     (case find breaks (OpenFile # Ping # map Pragma pragmas) of
        Some x \<Rightarrow> (Some (OpenFailed x), s)
      | None \<Rightarrow> (case Migrate localSeeds fails s of (e, s1) \<Rightarrow> (map_option RunMigrations e, s1)))"

subsection \<open>The services\<close>

datatype worker = Scanner | SpoofHTTP | SpoofTLS | SNIListener | Tailing | AdminServe

text \<open>The state of a running daemon; \<^verbatim>\<open>se_store\<close> keeps the tables that no service reads.\<close>

record services =
  se_admin :: admin
  se_spoof :: SpoofService
  se_life :: life
  se_workers :: "worker list"
  se_store :: store

definition New_services :: "Config \<Rightarrow> store \<Rightarrow> host \<Rightarrow> services" where
  "New_services cfg s h =
     \<lparr>se_admin = \<lparr>sv_auth = st_auth s, sv_attempts = Map.empty, sv_tokens = st_tokens s, sv_audit = st_audit s, sv_audit_seq = st_audit_seq s,
        sv_rest = \<lparr>dm_db = st_db s, dm_host = h\<lparr>executor := New_executor (DryRun cfg)\<rparr>, dm_log = st_log s, dm_tlog = NewTrafficLogService,
          dm_limits = st_limits s, dm_cli = [], dm_ble = NewBLESessionService, dm_watch = NewLockWatchService, dm_tesla = st_tesla s, dm_jobs = []\<rparr>\<rparr>,
      se_spoof = NewSpoofService cfg, se_life = new_life, se_workers = [], se_store = s\<rparr>"

text \<open>The database as a run left it.\<close>

definition saved :: "admin \<Rightarrow> store \<Rightarrow> store" where
  "saved a s = s\<lparr>st_db := db_of a, st_auth := sv_auth a, st_limits := dm_limits (sv_rest a), st_tokens := sv_tokens a, st_log := dm_log (sv_rest a),
     st_audit := sv_audit a, st_audit_seq := sv_audit_seq a, st_tesla := dm_tesla (sv_rest a)\<rparr>"

datatype warning =
    HijackLeft string
  | NotHealed string
  | FirewallNotApplied string
  | DnsNotApplied string
  | BandwidthNotApplied string
  | HotspotNotApplied hotspot_error

definition warn :: "('a \<Rightarrow> warning) \<Rightarrow> 'a option \<Rightarrow> warning list" where
  "warn w e = (case e of None \<Rightarrow> [] | Some x \<Rightarrow> [w x])"

definition ApplyAll :: "(string \<Rightarrow> nat list list option) \<Rightarrow> faults \<Rightarrow> shell \<Rightarrow> Config \<Rightarrow> services \<Rightarrow> warning list \<times> services" where
  "ApplyAll lookup fails sh cfg sv =
     (let d = db_of (se_admin sv) in
      case Apply_firewall lookup fails sh cfg d (host_of_admin (se_admin sv)) of (e1, h1) \<Rightarrow>
      case Apply_dns fails sh cfg d h1 of (e2, h2) \<Rightarrow>
      case Apply_bandwidth fails sh cfg d (dm_limits (sv_rest (se_admin sv))) h2 of (e3, h3) \<Rightarrow>
      case Apply_hotspot fails sh d h3 of (e4, h4) \<Rightarrow>
        (warn FirewallNotApplied e1 @ warn DnsNotApplied e2 @ warn BandwidthNotApplied e3 @ warn HotspotNotApplied e4,
         sv\<lparr>se_admin := put_host h4 (se_admin sv), se_life := Start (se_life sv)\<rparr>))"

subsection \<open>main\<close>

record flags =
  fl_config :: string
  fl_dry_run :: bool
  fl_init_admin :: bool
  fl_reset_admin :: bool
  fl_username :: string
  fl_password :: string
  fl_version :: bool

definition no_flags :: flags where
  "no_flags = \<lparr>fl_config = ''/etc/netfilterd/config.yaml'', fl_dry_run = False, fl_init_admin = False, fl_reset_admin = False,
     fl_username = ''admin'', fl_password = [], fl_version = False\<rparr>"

record boot_env =
  bo_read :: "string \<Rightarrow> read_result"
  bo_unmarshal :: "string \<Rightarrow> Config \<Rightarrow> Config \<times> bool"
  bo_getenv :: "string \<Rightarrow> string"
  bo_open :: "open_step \<Rightarrow> bool"
  bo_migrate :: "mig_step \<Rightarrow> bool"
  bo_seeds :: "statement list"
  bo_faults :: faults
  bo_shell :: shell
  bo_lookup :: "string \<Rightarrow> nat list list option"
  bo_bcrypt :: bcrypt
  bo_salt :: string
  bo_now :: time
  bo_web :: "string \<rightharpoonup> string"
  bo_no_cert :: bool

datatype fatal = LoadConfig string | CreateDir | OpenDatabase open_error | PasswordRequired | CreateAdmin auth_error | ResetAdmin auth_error

text \<open>How a start ends: the process exits, or it serves with a configuration, with or without TLS, after some warnings.\<close>

datatype outcome = Printed string | Died fatal store | AdminSet store | Serving Config bool "warning list" services

definition set_admin :: "flags \<Rightarrow> boot_env \<Rightarrow> store \<Rightarrow> outcome" where
  "set_admin fl e s =
     (if fl_password fl = [] then Died PasswordRequired s
      else if fl_init_admin fl
      then (case CreateUser (bo_bcrypt e) (bo_faults e) (bo_salt e) (bo_now e) (fl_username fl) (fl_password fl) (st_auth s) of
              (Some x, a) \<Rightarrow> Died (CreateAdmin x) (s\<lparr>st_auth := a\<rparr>)
            | (None, a) \<Rightarrow> AdminSet (s\<lparr>st_auth := a\<rparr>))
      else (case ResetPassword (bo_bcrypt e) (bo_faults e) (bo_salt e) (fl_username fl) (fl_password fl) (st_auth s) of
              (Some x, a) \<Rightarrow> Died (ResetAdmin x) (s\<lparr>st_auth := a\<rparr>)
            | (None, a) \<Rightarrow> AdminSet (s\<lparr>st_auth := a\<rparr>)))"

text \<open>The repairs, the rules and the background services, in their order.\<close>

definition boot_services :: "Config \<Rightarrow> boot_env \<Rightarrow> services \<Rightarrow> warning list \<times> services" where
  "boot_services cfg e sv =
     (let a = se_admin sv in
      case EnsureNoDnsmasqHijack (bo_faults e) (bo_shell e) (host_of_admin a) of (e1, h1) \<Rightarrow>
      case EnsureDefaultDenyConfig (bo_faults e) (bo_shell e) h1 of (e2, h2) \<Rightarrow>
      case ApplyAll (bo_lookup e) (bo_faults e) (bo_shell e) cfg (sv\<lparr>se_admin := put_host h2 a\<rparr>) of (ws, sv1) \<Rightarrow>
        (warn HijackLeft e1 @ warn NotHealed e2 @ ws,
         sv1\<lparr>se_workers := [Scanner, SpoofHTTP, SpoofTLS, SNIListener, Tailing, AdminServe]\<rparr>))"

definition main :: "flags \<Rightarrow> boot_env \<Rightarrow> store \<Rightarrow> host \<Rightarrow> outcome" where
  "main fl e s h =
     (if fl_version fl then Printed ''netfilterd v0.1.0''
      else case Load (bo_unmarshal e) (bo_getenv e) (bo_read e (fl_config fl)) of
        (_, Some x) \<Rightarrow> Died (LoadConfig x) s
      | (c, None) \<Rightarrow>
          let cfg = (if fl_dry_run fl then c\<lparr>DryRun := True\<rparr> else c) in
          if bo_faults e ''create DB directory'' then Died CreateDir s
          else case Open_db (bo_seeds e) (bo_open e) (bo_migrate e) s of
            (Some x, s1) \<Rightarrow> Died (OpenDatabase x) s1
          | (None, s1) \<Rightarrow>
              let sv = New_services cfg s1 h;
                  sv = sv\<lparr>se_spoof := SetEnrolDeps (Some (bo_web e)) True True (se_spoof sv)\<rparr> in
              if fl_init_admin fl \<or> fl_reset_admin fl then set_admin fl e s1
              else case boot_services cfg e sv of (ws, sv1) \<Rightarrow> Serving cfg (UseTLS cfg \<and> \<not> bo_no_cert e) ws sv1)"

text \<open>The goroutine that publishes the administration pages inside the tailnet again.\<close>

definition serve_on_boot :: "(string \<Rightarrow> tail_status option) \<Rightarrow> (string \<Rightarrow> serve_status option) \<Rightarrow> machine \<Rightarrow> bool \<Rightarrow> cli list \<Rightarrow> cli list" where
  "serve_on_boot dec_status dec_serve m in_path log =
     (case Remote.Status dec_status dec_serve m in_path log of (st, ok, log1) \<Rightarrow>
        if \<not> ok \<or> \<not> rs_authenticated st then log1 else snd (EnsureAdminServe m log1))"

text \<open>What happens while the daemon runs: a request or the goroutine of one, a scan of the network, a line of a log.\<close>

datatype event = Served happening | Scanned faults time "string option" "string option" | Ingested "faults \<times> string \<times> log_event"

fun daemon_step :: "(request \<Rightarrow> target) \<Rightarrow> Config \<Rightarrow> event \<Rightarrow> admin \<Rightarrow> response option \<times> admin" where
  "daemon_step mux cfg (Served x) a = serve mux x a"
| "daemon_step mux cfg (Scanned fails now lf af) a = (None, put_db (scan_network fails cfg now lf af (db_of a)) a)"
| "daemon_step mux cfg (Ingested x) a =
     (case ingest x (dm_tlog (sv_rest a), dm_log (sv_rest a)) of (t, l) \<Rightarrow> (None, put_log l (put_tlog t a)))"

fun run_daemon :: "(request \<Rightarrow> target) \<Rightarrow> Config \<Rightarrow> event list \<Rightarrow> admin \<Rightarrow> response list \<times> admin" where
  "run_daemon mux cfg [] a = ([], a)"
| "run_daemon mux cfg (x # xs) a =
     (case daemon_step mux cfg x a of (p, a1) \<Rightarrow>
      case run_daemon mux cfg xs a1 of (ps, a2) \<Rightarrow> ((case p of None \<Rightarrow> ps | Some q \<Rightarrow> q # ps), a2))"

text \<open>
  The database of an appliance, as any history of installation, upgrades, starts that fail, administrator
  commands and runs leaves it.  The machine, the files and what fails are different every time.
\<close>

inductive appliance :: "store \<Rightarrow> bool" where
  unpacked: "appliance empty_store"
| died: "appliance s \<Longrightarrow> bo_seeds e = [] \<Longrightarrow> main fl e s h = Died x s' \<Longrightarrow> appliance s'"
| admin_set: "appliance s \<Longrightarrow> bo_seeds e = [] \<Longrightarrow> main fl e s h = AdminSet s' \<Longrightarrow> appliance s'"
| ran: "appliance s \<Longrightarrow> bo_seeds e = [] \<Longrightarrow> main fl e s h = Serving cfg tls ws sv \<Longrightarrow>
    run_daemon mux cfg xs (se_admin sv) = (ps, a) \<Longrightarrow> appliance (saved a (se_store sv))"


subsection \<open>Ports stay with the system filters\<close>

text \<open>Whatever a handler answers, the ports still belong to system filters.\<close>

definition owns :: "response \<times> admin \<Rightarrow> bool" where
  "owns q \<longleftrightarrow> port_owners (db_of (snd q))"

lemma owns_pair: "owns (p, s) \<longleftrightarrow> port_owners (db_of s)"
  by (simp add: owns_def)

lemma owns_with:
  "port_owners (db_of s) \<Longrightarrow> (\<And>i. owns (b1 i s)) \<Longrightarrow> owns (with_id k m r b1 s)"
  "port_owners (db_of s) \<Longrightarrow> (\<And>x. owns (b2 x s)) \<Longrightarrow> owns (with_body v b2 s)"
  "port_owners (db_of s) \<Longrightarrow> (\<And>m. owns (b3 m s)) \<Longrightarrow> owns (with_mac r b3 s)"
  "port_owners (db_of s) \<Longrightarrow> (\<And>x. owns (b4 x s)) \<Longrightarrow> owns (with_strict e v' b4 s)"
  by (auto simp: with_id_def with_body_def with_mac_def with_strict_def owns_pair split: option.split sum.split)

lemma owns_apply:
  assumes "port_owners (db_of s)" "\<And>h. owns (k (put_host h s))"
  shows "owns (apply_dns e msg k s)" "owns (apply_firewall e msg k s)" "owns (apply_bandwidth e msg k s)"
  using assms by (auto simp: apply_dns_def apply_firewall_def apply_bandwidth_def owns_pair split: prod.split option.split)

lemma owns_answer: "port_owners (db_of s) \<Longrightarrow> owns (answer p s)"
  by (simp add: answer_def owns_pair)

lemma owns_run_remote:
  "port_owners (db_of s) \<Longrightarrow> (\<And>c. owns (k (put_cli c s))) \<Longrightarrow> owns (run_remote e n f k s)"
  by (auto simp: run_remote_def owns_pair split: prod.split option.split)

lemma owns_funnel: "port_owners (db_of s) \<Longrightarrow> owns (funnel_done e cx a w s)"
  by (auto simp: funnel_done_def remote_status_def owns_pair split: prod.split)

lemma filter_ops_own:
  "Create_filter fails f d = Inr (i, d') \<Longrightarrow> port_owners d \<Longrightarrow> port_owners d'" "Update_filter fails j f d = Inr d' \<Longrightarrow> port_owners d \<Longrightarrow> port_owners d'"
    "SetEnabled_filter fails j en d = Inr d' \<Longrightarrow> port_owners d \<Longrightarrow> port_owners d'" "Delete_filter fails j d = Inr d' \<Longrightarrow> port_owners d \<Longrightarrow> port_owners d'"
    "CreateDomain fails j fd d = Inr (i, d') \<Longrightarrow> port_owners d \<Longrightarrow> port_owners d'" "UpdateDomain fails j fd d = Inr d' \<Longrightarrow> port_owners d \<Longrightarrow> port_owners d'"
    "SetDomainEnabled fails j en d = Inr d' \<Longrightarrow> port_owners d \<Longrightarrow> port_owners d'" "DeleteDomain fails j d = Inr d' \<Longrightarrow> port_owners d \<Longrightarrow> port_owners d'"
  using Create_filter_texts Update_filter_texts SetEnabled_filter_owners Delete_filter_texts
    only_domains_texts [OF domain_ops_only(1)] only_domains_texts [OF domain_ops_only(2)]
    only_domains_texts [OF domain_ops_only(3)] only_domains_texts [OF domain_ops_only(4)]
  by metis+

lemma other_ops_own:
  "SetStatus fails mac st d = (x, d') \<Longrightarrow> port_owners d \<Longrightarrow> port_owners d'" "Delete_device fails mac d = (x, d') \<Longrightarrow> port_owners d \<Longrightarrow> port_owners d'"
    "UpdateDevice fails mac nick ig d = (x, d') \<Longrightarrow> port_owners d \<Longrightarrow> port_owners d'" "CreateRule fails r d = Some (i, d') \<Longrightarrow> port_owners d \<Longrightarrow> port_owners d'"
    "UpdateRule fails i r d = Some d' \<Longrightarrow> port_owners d \<Longrightarrow> port_owners d'" "DeleteRule fails i d = Some d' \<Longrightarrow> port_owners d \<Longrightarrow> port_owners d'"
    "SetVIN fails v d = (y, d') \<Longrightarrow> port_owners d \<Longrightarrow> port_owners d'"
  using only_devices_owners [OF device_ops_only(1)] only_devices_owners [OF device_ops_only(2)] UpdateDevice_texts
    only_rules_texts [OF rule_ops_only(1)] only_rules_texts [OF rule_ops_only(2)] only_rules_texts [OF rule_ops_only(3)] SetVIN_texts
  by metis+

definition keeps_owners :: "daemon handler \<Rightarrow> bool" where
  "keeps_owners h \<longleftrightarrow> (\<forall>cx r s. port_owners (db_of s) \<longrightarrow> owns (h cx r s))"

lemmas owns_intros = owns_with owns_apply owns_answer owns_run_remote owns_funnel

lemma filters_own:
  "keeps_owners (filtH_List e)" "keeps_owners (filtH_Get e)" "keeps_owners (filtH_ListDomains e)" "keeps_owners (filtH_Create e)"
  "keeps_owners (filtH_Update e)" "keeps_owners (filtH_SetEnabled e)" "keeps_owners (filtH_Delete e)" "keeps_owners (filtH_CreateDomain e)"
  "keeps_owners (filtH_UpdateDomain e)" "keeps_owners (filtH_SetDomainEnabled e)" "keeps_owners (filtH_DeleteDomain e)"
  unfolding keeps_owners_def filtH_List_def filtH_Get_def filtH_ListDomains_def filtH_Create_def filtH_Update_def filtH_SetEnabled_def
    filtH_Delete_def filtH_CreateDomain_def filtH_UpdateDomain_def filtH_SetDomainEnabled_def filtH_DeleteDomain_def
  by (auto intro!: owns_intros simp: owns_pair split: sum.split filter_error.split prod.split)
    (blast intro: filter_ops_own)+

lemma admin_own:
  "keeps_owners (devH_List e)" "keeps_owners (devH_Update e)" "keeps_owners (devH_SetStatus e)" "keeps_owners (devH_Delete e)"
  "keeps_owners (fwH_List e)" "keeps_owners (fwH_Create e)" "keeps_owners (fwH_Update e)" "keeps_owners (fwH_Delete e)"
  "keeps_owners (bwH_List e)" "keeps_owners (bwH_Create e)" "keeps_owners (bwH_Update e)" "keeps_owners (bwH_Delete e)"
  "keeps_owners (setH_Get e)" "keeps_owners (setH_Update e)" "keeps_owners (setH_ChangePassword e)"
  unfolding keeps_owners_def devH_List_def devH_Update_def devH_SetStatus_def devH_Delete_def fwH_List_def fwH_Create_def fwH_Update_def
    fwH_Delete_def bwH_List_def bwH_Create_def bwH_Update_def bwH_Delete_def setH_Get_def setH_Update_def setH_ChangePassword_def Let_def
  by (auto intro!: owns_intros simp: owns_pair upserts_texts split: option.split prod.split)
    (blast intro: other_ops_own)+

lemma system_own:
  "keeps_owners (sysH_Info e)" "keeps_owners (sysH_Reboot e)" "keeps_owners (sysH_TestConnectivity e)" "keeps_owners (sysH_TrafficLog e)"
  "keeps_owners (sysH_ClearTrafficLog e)" "keeps_owners (sysH_MutedList e)" "keeps_owners (sysH_MutedAdd e)" "keeps_owners (sysH_MutedRemove e)"
  "keeps_owners (sysH_StatsSummary e)" "keeps_owners (sysH_StatsTopDomains e)" "keeps_owners (sysH_StatsTopClients e)"
  "keeps_owners (sysH_StatsTimeSeries e)" "keeps_owners (sysH_AuditLog e)" "keeps_owners (dashH_API e)"
  "keeps_owners (remoteH_Status e)" "keeps_owners (remoteH_Install e)" "keeps_owners (remoteH_Up e)" "keeps_owners (remoteH_Logout e)"
  "keeps_owners (remoteH_EnableBLEFunnel e)" "keeps_owners (remoteH_DisableBLEFunnel e)"
  unfolding keeps_owners_def sysH_Info_def sysH_Reboot_def sysH_TestConnectivity_def sysH_TrafficLog_def sysH_ClearTrafficLog_def
    sysH_MutedList_def sysH_MutedAdd_def sysH_MutedRemove_def sysH_StatsSummary_def sysH_StatsTopDomains_def sysH_StatsTopClients_def
    sysH_StatsTimeSeries_def sysH_AuditLog_def dashH_API_def remoteH_Status_def remoteH_Install_def remoteH_Up_def remoteH_Logout_def
    remoteH_EnableBLEFunnel_def remoteH_DisableBLEFunnel_def remote_status_def Let_def
  by (auto intro!: owns_intros simp: owns_pair split: option.split prod.split sum.split bool.split)

lemma bearer_own:
  "keeps_owners (teslaH_PairingInfo e)" "keeps_owners (teslaH_SetVIN e)" "keeps_owners (teslaH_PairExternalPubkey tx e)"
  "keeps_owners (teslaH_State e)" "keeps_owners (teslaH_CommandLog e)" "keeps_owners (teslaH_LockWatchStatus e)"
  "keeps_owners (teslaH_OpenBLESession e)" "keeps_owners (teslaH_ExchangeBLE e)" "keeps_owners (teslaH_CloseBLESession e)"
  "keeps_owners (teslaH_ListTokens e)" "keeps_owners (teslaH_IssueToken e)" "keeps_owners (teslaH_MyTokenInfo e)"
  "keeps_owners (teslaH_RevokeMyToken e)" "keeps_owners (teslaH_RevokeToken e)"
  unfolding keeps_owners_def teslaH_PairingInfo_def teslaH_SetVIN_def teslaH_PairExternalPubkey_def teslaH_State_def teslaH_CommandLog_def
    teslaH_LockWatchStatus_def teslaH_OpenBLESession_def teslaH_ExchangeBLE_def teslaH_CloseBLESession_def teslaH_ListTokens_def
    teslaH_IssueToken_def teslaH_MyTokenInfo_def teslaH_RevokeMyToken_def teslaH_RevokeToken_def Let_def
  by (auto intro!: owns_intros simp: owns_pair split: option.split prod.split sum.split ble_error.split)
    (blast intro: other_ops_own)+


lemma events_own: "keeps_owners (events_handler e)"
  by (auto simp: keeps_owners_def events_handler_def teslaH_EventsBLE_def owns_pair Let_def split: prod.split sum.split ble_error.split upgrade.split)

lemma handlers_own: "keeps_owners (handlers e name)"
proof -
  have same: "keeps_owners (\<lambda>cx r s. (f r, s))" for f by (simp add: keeps_owners_def owns_pair)
  have "list_all (\<lambda>(n, h). keeps_owners h) (handler_table e)"
    by (simp add: handler_table_def admin_table_def system_table_def bearer_table_def filters_own admin_own system_own bearer_own events_own same)
  moreover have "keeps_owners (page b name)" for b by (simp add: keeps_owners_def page_def owns_pair)
  ultimately show ?thesis by (auto simp: handlers_def list_all_iff dest!: map_of_SomeD split: option.split)
qed

lemma guarded_own:
  assumes "keeps_owners h" shows "keeps_owners (guarded fails now g h)"
proof -
  have st: "owns (apfst f q) = owns q" for f q by (cases q) (simp add: owns_pair)
  show ?thesis
    using assms by (cases g) (auto simp: keeps_owners_def AuthRequired_def APIAuthRequired_def BLECORS_def BLEBearerRequired_def st owns_pair
        split: option.split prod.split sum.split)
qed

lemma auth_own: "keeps_owners (H name) \<Longrightarrow> keeps_owners (auth_handlers w H name)"
  by (auto simp: auth_handlers_def keeps_owners_def LoginPage_def Login_handler_def Logout_handler_def Me_def Let_def owns_pair
      split: option.split prod.split sum.split)

lemma router_own:
  assumes "port_owners (db_of s)" shows "owns (NewRouterWithFS mux w (handlers e) r s)"
proof -
  have "keeps_owners (guarded f n g (auth_handlers w (handlers e) name))" for f n g name by (intro guarded_own auth_own handlers_own)
  moreover have "keeps_owners (guarded f n g (\<lambda>cx r s. (missing, s)))" for f n g by (intro guarded_own) (simp add: keeps_owners_def owns_pair)
  ultimately show ?thesis
    using assms by (auto simp: NewRouterWithFS_def Let_def keeps_owners_def owns_pair simp del: guarded.simps split: target.split)
qed

text \<open>A scan changes rows of devices only, and those it adds are blocked.\<close>

definition new_blocked :: "db \<Rightarrow> db \<Rightarrow> bool" where
  "new_blocked d d' \<longleftrightarrow> d' = d\<lparr>devices := devices d', devices_seq := devices_seq d'\<rparr> \<and>
     (\<forall>st. st \<noteq> DeviceStatusBlocked \<longrightarrow> map dev_mac (with_status st d') = map dev_mac (with_status st d))"

lemma new_blocked_frame:
  assumes "new_blocked d d'"
  shows "filters d' = filters d" "filter_domains d' = filter_domains d" "filter_udp_ports d' = filter_udp_ports d"
    "filter_tcp_ports d' = filter_tcp_ports d" "firewall_rules d' = firewall_rules d" "filters_seq d' = filters_seq d"
proof -
  have d': "d' = d\<lparr>devices := devices d', devices_seq := devices_seq d'\<rparr>" using assms by (simp add: new_blocked_def)
  show "filters d' = filters d" "filter_domains d' = filter_domains d" "filter_udp_ports d' = filter_udp_ports d"
    "filter_tcp_ports d' = filter_tcp_ports d" "firewall_rules d' = firewall_rules d" "filters_seq d' = filters_seq d" by (subst d', simp)+
qed

lemma new_blockedD:
  assumes "new_blocked d d'"
  shows "port_owners d' = port_owners d" "st \<noteq> DeviceStatusBlocked \<Longrightarrow> map dev_mac (with_status st d') = map dev_mac (with_status st d)"
  using assms by (simp_all add: port_owners_def owned_def new_blocked_frame) (simp add: new_blocked_def)

lemma new_blocked_trans:
  assumes "new_blocked d d1" "new_blocked d1 d2" shows "new_blocked d d2"
proof -
  have "d2 = (d\<lparr>devices := devices d1, devices_seq := devices_seq d1\<rparr>)\<lparr>devices := devices d2, devices_seq := devices_seq d2\<rparr>"
    using assms by (simp add: new_blocked_def)
  then show ?thesis using assms by (simp add: new_blocked_def)
qed

lemma with_status_map:
  assumes "\<And>x. dev_mac (u x) = dev_mac x \<and> dev_status (u x) = dev_status x"
  shows "map dev_mac (with_status st (d\<lparr>devices := map u (devices d)\<rparr>)) = map dev_mac (with_status st d)"
proof -
  have "map dev_mac (filter (\<lambda>x. dev_status x = st) (map u ds)) = map dev_mac (filter (\<lambda>x. dev_status x = st) ds)" for ds
    using assms by (induction ds) auto
  then show ?thesis by (simp add: with_status_def)
qed

lemma new_blocked_map:
  assumes "\<And>x. dev_mac (u x) = dev_mac x \<and> dev_status (u x) = dev_status x"
  shows "new_blocked d (d\<lparr>devices := map u (devices d)\<rparr>)"
  using with_status_map [where u = u, OF assms] by (simp add: new_blocked_def)

lemma new_blocked_upsert: "new_blocked d (upsertDevice fails now x present d)"
proof -
  have "new_blocked d d" by (simp add: new_blocked_def)
  moreover have "new_blocked d (d\<lparr>devices_seq := i, devices := devices d @ [y]\<rparr>)" if "dev_status y = DeviceStatusBlocked" for y i
    using that by (simp add: new_blocked_def with_status_def)
  ultimately show ?thesis by (auto simp: upsertDevice_def Let_def intro!: new_blocked_map)
qed

lemma new_blocked_scan: "new_blocked d (scan_network fails cfg now lf af d)"
proof -
  have "new_blocked d (fold (\<lambda>x. upsertDevice fails now x (q x)) ds d)" for q ds
  proof (induction ds arbitrary: d)
    case Nil
    show ?case by (simp add: new_blocked_def)
  next
    case (Cons x ds)
    from new_blocked_trans [OF new_blocked_upsert Cons] show ?case by simp
  qed
  then show ?thesis by (simp add: scan_network_def split: prod.split)
qed

lemma job_own: "db_of (run_job e j s) = db_of s"
  by (cases j) (auto simp: run_job_def split: prod.split)

lemma step_own: "daemon_step mux cfg x a = (p, a') \<Longrightarrow> port_owners (db_of a) \<Longrightarrow> port_owners (db_of a')"
proof (cases x)
  case (Served y)
  then show "daemon_step mux cfg x a = (p, a') \<Longrightarrow> port_owners (db_of a) \<Longrightarrow> port_owners (db_of a')"
  proof (cases y)
    case (Request w e r)
    assume "daemon_step mux cfg x a = (p, a')" "port_owners (db_of a)"
    with Served Request router_own [of a mux w e r] show ?thesis by (auto simp: owns_pair split: prod.splits)
  qed (auto simp: job_own)
qed (auto simp: new_blockedD(1) [OF new_blocked_scan] split: prod.splits)

lemma run_own: "run_daemon mux cfg xs a = (ps, a') \<Longrightarrow> port_owners (db_of a) \<Longrightarrow> port_owners (db_of a')"
proof (induction xs arbitrary: a ps)
  case (Cons x xs)
  obtain p a1 where x: "daemon_step mux cfg x a = (p, a1)" by fastforce
  then obtain qs where "run_daemon mux cfg xs a1 = (qs, a')" using Cons.prems(1) by (auto split: prod.splits)
  with Cons.IH step_own [OF x Cons.prems(2)] show ?case by blast
qed simp


subsection \<open>The database of an appliance\<close>

definition installed :: "store \<Rightarrow> bool" where
  "installed s \<longleftrightarrow> (\<exists>v\<le>26. at_version v s \<and> clean v (st_db s)) \<or> at_version 26 s \<and> port_owners (st_db s)"

lemma clean_owners: assumes "clean 26 d" shows "port_owners d"
proof -
  have c: "filters_wf d" "rows_ok d (filter_udp_ports d)" "rows_ok d (filter_tcp_ports d)" "system_ports d"
    using assms by (simp_all add: clean_def held_def good_def own_def)
  have "owned d rows" if "rows_ok d rows" "set rows \<subseteq> set (filter_udp_ports d) \<union> set (filter_tcp_ports d)" for rows
    using that c(1,4) by (auto simp: owned_def rows_ok_def filters_wf_def system_ports_def)
  with c(2,3) show ?thesis by (simp add: port_owners_def)
qed

lemma migrate_current:
  assumes "at_version 26 s" "Migrate [] fails s = (r, s')" shows "s' = s"
proof (cases "fails ReadVersion")
  case True
  with unread_version [OF assms(1) _ _ assms(2)] show ?thesis by simp
next
  case False
  then show ?thesis using assms(2) version_at [OF assms(1)] by (simp add: Migrate_def migrations_def)
qed

lemma Open_db_installed:
  assumes "installed s" "Open_db [] b fails s = (x, s')"
  shows "installed s' \<and> (x = None \<longrightarrow> at_version 26 s' \<and> port_owners (st_db s'))"
proof -
  obtain r s1 where m: "Migrate [] fails s = (r, s1)" by fastforce
  have "x \<noteq> None \<and> s' = s \<or> x = map_option RunMigrations r \<and> s' = s1"
    using assms(2) m by (auto simp: Open_db_def split: option.splits)
  moreover have "installed s1 \<and> (r = None \<longrightarrow> at_version 26 s1 \<and> port_owners (st_db s1))"
    using assms(1) unfolding installed_def
  proof (elim disjE exE conjE)
    fix v assume "v \<le> (26::nat)" "at_version v s" "clean v (st_db s)"
    from factory.Migrate_ok [OF this m] clean_owners
    show "((\<exists>v\<le>26. at_version v s1 \<and> clean v (st_db s1)) \<or> at_version 26 s1 \<and> port_owners (st_db s1)) \<and>
      (r = None \<longrightarrow> at_version 26 s1 \<and> port_owners (st_db s1))" by blast
  qed (use migrate_current [OF _ m] in auto)
  ultimately show ?thesis using assms(1) by auto
qed

lemma put_host_rest: "db_of (put_host h a) = db_of a" "sv_auth (put_host h a) = sv_auth a" "sv_tokens (put_host h a) = sv_tokens a"
  by (simp_all add: put_host_def)

lemma boot_frame:
  assumes "boot_services cfg e sv = (ws, sv')"
  shows "\<exists>h. se_admin sv' = put_host h (se_admin sv) \<and> se_store sv' = se_store sv \<and> se_spoof sv' = se_spoof sv"
  using assms by (auto simp: boot_services_def ApplyAll_def Let_def put_host_def split: prod.splits)

lemma main_serves:
  assumes "main fl e s h = Serving cfg tls ws sv"
  obtains s1 sv0 where "Open_db (bo_seeds e) (bo_open e) (bo_migrate e) s = (None, s1)" "boot_services cfg e sv0 = (ws, sv)"
    "se_admin sv0 = se_admin (New_services cfg s1 h)" "se_store sv = s1" "\<not> fl_init_admin fl" "\<not> fl_reset_admin fl"
proof -
  have "\<exists>s1 sv0. Open_db (bo_seeds e) (bo_open e) (bo_migrate e) s = (None, s1) \<and> boot_services cfg e sv0 = (ws, sv) \<and>
      se_admin sv0 = se_admin (New_services cfg s1 h) \<and> se_store sv0 = s1 \<and> \<not> fl_init_admin fl \<and> \<not> fl_reset_admin fl"
    using assms by (auto simp: main_def Let_def set_admin_def New_services_def split: if_splits prod.splits option.splits)
  with boot_frame that show thesis by metis
qed

lemma set_admin_frame: "set_admin fl e s = Died x s' \<or> set_admin fl e s = AdminSet s' \<Longrightarrow> \<exists>a. s' = s\<lparr>st_auth := a\<rparr>"
  by (auto simp: set_admin_def split: if_splits prod.splits option.splits) (metis store.surjective store.update_convs(3))


lemma installed_auth: "installed (s\<lparr>st_auth := a\<rparr>) = installed s"
  by (simp add: installed_def at_version_def)

lemma main_exits:
  assumes "main fl e s h = Died x s' \<or> main fl e s h = AdminSet s'"
  shows "s' = s \<or> (\<exists>y s1 a. Open_db (bo_seeds e) (bo_open e) (bo_migrate e) s = (y, s1) \<and> s' = s1\<lparr>st_auth := a\<rparr>)"
proof -
  obtain y s1 where o: "Open_db (bo_seeds e) (bo_open e) (bo_migrate e) s = (y, s1)" by fastforce
  have "s' = s \<or> s' = s1 \<or> set_admin fl e s1 = Died x s' \<or> set_admin fl e s1 = AdminSet s'"
    using assms o by (auto simp: main_def Let_def split: if_splits prod.splits option.splits)
  moreover have "s1 = s1\<lparr>st_auth := st_auth s1\<rparr>" by simp
  ultimately show ?thesis using set_admin_frame [of fl e s1] o by metis
qed

lemma appliance_installed: "appliance s \<Longrightarrow> installed s"
proof (induction rule: appliance.induct)
  case unpacked
  have "clean 0 (st_db empty_store)"
    by (simp add: clean_early good_def filters_wf_def rows_ok_def blank_def empty_store_def empty_db_def)
  with at_empty show ?case by (auto simp: installed_def)
next
  case (died s e fl h x s')
  with main_exits [of fl e s h x s'] Open_db_installed [OF died.IH] show ?case by (auto simp: installed_auth)
next
  case (admin_set s e fl h s')
  with main_exits [of fl e s h _ s'] Open_db_installed [OF admin_set.IH] show ?case by (auto simp: installed_auth)
next
  case (ran s e fl h cfg tls ws sv mux xs ps a)
  obtain s1 sv0 where o: "Open_db [] (bo_open e) (bo_migrate e) s = (None, s1)" "boot_services cfg e sv0 = (ws, sv)"
    "se_admin sv0 = se_admin (New_services cfg s1 h)" "se_store sv = s1"
    using main_serves [OF ran.hyps(3)] ran.hyps(2) by metis
  have s1: "at_version 26 s1" "port_owners (st_db s1)" using Open_db_installed [OF ran.IH o(1)] by auto
  have "db_of (se_admin sv) = st_db s1" using boot_frame [OF o(2)] o(3) by (auto simp: New_services_def)
  with run_own [OF ran.hyps(4)] s1 o(4) show ?case by (simp add: installed_def at_version_def saved_def)
qed

subsection \<open>After a start the files follow the tables\<close>

text \<open>A scan that finds no new device leaves the rulesets as they are.\<close>

lemma upsert_known:
  "length (devices d) \<le> length (devices (upsertDevice fails now x present d))"
  "length (devices (upsertDevice fails now x present d)) = length (devices d) \<Longrightarrow>
   map dev_mac (with_status st (upsertDevice fails now x present d)) = map dev_mac (with_status st d)"
  by (auto simp: upsertDevice_def Let_def intro!: with_status_map split: if_splits)

lemma scan_known:
  assumes "length (devices (scan_network fails cfg now lf af d)) = length (devices d)"
  shows "map dev_mac (with_status st (scan_network fails cfg now lf af d)) = map dev_mac (with_status st d)"
proof -
  have le: "length (devices d) \<le> length (devices (fold (\<lambda>x. upsertDevice fails now x (q x)) ds d))" for q ds d
  proof (induction ds arbitrary: d)
    case (Cons x ds)
    from order_trans [OF upsert_known(1) Cons] show ?case by simp
  qed simp
  have "length (devices (fold (\<lambda>x. upsertDevice fails now x (q x)) ds d)) = length (devices d) \<Longrightarrow>
      map dev_mac (with_status st (fold (\<lambda>x. upsertDevice fails now x (q x)) ds d)) = map dev_mac (with_status st d)" for q ds
  proof (induction ds arbitrary: d)
    case (Cons x ds)
    let ?d = "upsertDevice fails now x (q x) d"
    have "length (devices ?d) = length (devices d)"
      using Cons.prems le [of ?d q ds] upsert_known(1) [of d fails now x "q x"] by simp
    with Cons.IH [of ?d] Cons.prems upsert_known(2) [of fails now x "q x" d st] show ?case by simp
  qed simp
  with assms show ?thesis by (simp add: scan_network_def split: prod.splits)
qed

lemma scan_nft:
  assumes "length (devices (scan_network fails c now lf af d)) = length (devices d)"
  shows "nft_text lookup cfg (scan_network fails c now lf af d) = nft_text lookup cfg d"
  using scan_known [OF assms] by (intro nft_text_cong) (simp_all add: enabled_ports_def new_blocked_frame [OF new_blocked_scan])

lemma dns_text_blocked: "new_blocked d d' \<Longrightarrow> dns_text cfg d' = dns_text cfg d"
  by (intro dns_text_cong) (simp_all add: enabled_domains_def new_blocked_frame new_blockedD(2) status_defs)

lemma heal_live: "EnsureNoDnsmasqHijack fails sh h = (x, h') \<Longrightarrow> live_host h' = live_host h"
  "EnsureDefaultDenyConfig fails sh h = (x, h') \<Longrightarrow> live_host h' = live_host h"
  by (auto simp: EnsureNoDnsmasqHijack_def EnsureDefaultDenyConfig_def stripGlobalUpstreamsAndAddNoResolv_def stripLoopbackFromResolv_def
      heal_file_def restart_dnsmasq_def write_file_def remove_file_def live_host_def Let_def dest!: Run_frame split: if_splits prod.splits option.splits)

lemma Apply_hotspot_keeps:
  "Apply_hotspot fails sh d h = (x, h') \<Longrightarrow> live_host h' = live_host h \<and> (\<forall>q. q \<noteq> hostapd_path \<longrightarrow> files h' q = files h q)"
  by (auto simp: Apply_hotspot_def Let_def write_file_def live_host_def dest!: Run_frame split: if_splits option.splits prod.splits)

lemma boot_steady:
  assumes "boot_services cfg e sv = (ws, sv')" "live_host (host_of_admin (se_admin sv))" "port_owners (db_of (se_admin sv))"
    and "\<not> bo_faults e ''filter udp ports''" "\<not> bo_faults e ''filter tcp ports''"
    and "set ws \<inter> (range FirewallNotApplied \<union> range DnsNotApplied) = {}"
  shows "steady (bo_lookup e) cfg (se_admin sv')"
proof -
  let ?d = "db_of (se_admin sv)"
  obtain e1 h1 where h1: "EnsureNoDnsmasqHijack (bo_faults e) (bo_shell e) (host_of_admin (se_admin sv)) = (e1, h1)" by fastforce
  obtain e2 h2 where h2: "EnsureDefaultDenyConfig (bo_faults e) (bo_shell e) h1 = (e2, h2)" by fastforce
  obtain e3 h3 where h3: "Apply_firewall (bo_lookup e) (bo_faults e) (bo_shell e) cfg ?d h2 = (e3, h3)" by fastforce
  obtain e4 h4 where h4: "Apply_dns (bo_faults e) (bo_shell e) cfg ?d h3 = (e4, h4)" by fastforce
  obtain e5 h5 where h5: "Apply_bandwidth (bo_faults e) (bo_shell e) cfg ?d (dm_limits (sv_rest (se_admin sv))) h4 = (e5, h5)" by fastforce
  obtain e6 h6 where h6: "Apply_hotspot (bo_faults e) (bo_shell e) ?d h5 = (e6, h6)" by fastforce
  have sv': "se_admin sv' = put_host h6 (put_host h2 (se_admin sv))" and ws: "set (warn FirewallNotApplied e3) \<union> set (warn DnsNotApplied e4) \<subseteq> set ws"
    using assms(1) h1 h2 h3 h4 h5 h6 by (auto simp: boot_services_def ApplyAll_def Let_def)
  have none: "e3 = None" "e4 = None" using ws assms(6) by (cases e3; cases e4; auto simp: warn_def)+
  have "live_host h2" using heal_live(1) [OF h1] heal_live(2) [OF h2] assms(2) by simp
  with Apply_firewall_done [of "bo_lookup e" "bo_faults e"] h3 none(1) assms(4,5)
  have "live_host h3" "files h3 nft_path = Some (nft_text (bo_lookup e) cfg ?d)" by auto
  with Apply_dns_cases [OF h4] none(2) have "live_host h4" "files h4 nft_path = Some (nft_text (bo_lookup e) cfg ?d)"
    "files h4 dns_conf_path = Some (dns_text cfg ?d)" by auto
  with Apply_bandwidth_keeps [OF h5] Apply_hotspot_keeps [OF h6] paths_differ assms(3) sv'
  show ?thesis by (simp add: steady_def dns_current_def nft_current_def)
qed

text \<open>What the handlers find is this configuration and resolver, and no scan discovers a new device.\<close>

fun event_ok :: "(string \<Rightarrow> nat list list option) \<Rightarrow> Config \<Rightarrow> event \<Rightarrow> admin \<Rightarrow> bool" where
  "event_ok lookup cfg (Served x) a = usable lookup cfg (env_in x)"
| "event_ok lookup cfg (Scanned fails now lf af) a = (length (devices (scan_network fails cfg now lf af (db_of a))) = length (devices (db_of a)))"
| "event_ok lookup cfg (Ingested x) a = True"

fun run_ok :: "(string \<Rightarrow> nat list list option) \<Rightarrow> (request \<Rightarrow> target) \<Rightarrow> Config \<Rightarrow> event list \<Rightarrow> admin \<Rightarrow> bool" where
  "run_ok lookup mux cfg [] a = True"
| "run_ok lookup mux cfg (x # xs) a = (event_ok lookup cfg x a \<and> run_ok lookup mux cfg xs (snd (daemon_step mux cfg x a)))"

lemma step_steady:
  assumes "daemon_step mux cfg x a = (p, a')" "steady lookup cfg a" "event_ok lookup cfg x a" "\<forall>q. p = Some q \<longrightarrow> rp_status q \<noteq> 500"
  shows "steady lookup cfg a'"
proof (cases x)
  case (Served y)
  obtain ps where r: "serve_all mux [y] a = (ps, a')" "500 \<notin> rp_status ` set ps"
    using assms(1,4) Served by (cases p) auto
  with serve_steady [OF r(1) assms(2) _ r(2)] assms(3) Served show ?thesis by simp
next
  case (Scanned fails now lf af)
  let ?d = "scan_network fails cfg now lf af (db_of a)"
  have b: "new_blocked (db_of a) ?d" by (rule new_blocked_scan)
  have l: "length (devices ?d) = length (devices (db_of a))" using assms(3) Scanned by simp
  have "a' = put_db ?d a" using assms(1) Scanned by simp
  with assms(2) show ?thesis
    by (simp add: steady_def dns_current_def nft_current_def new_blockedD(1) [OF b] scan_nft [OF l] dns_text_blocked [OF b])
next
  case (Ingested y)
  with assms(1,2) show ?thesis by (auto simp: steady_def split: prod.splits)
qed

lemma run_steady:
  "run_daemon mux cfg xs a = (ps, a') \<Longrightarrow> steady lookup cfg a \<Longrightarrow> run_ok lookup mux cfg xs a \<Longrightarrow>
   500 \<notin> rp_status ` set ps \<Longrightarrow> steady lookup cfg a'"
proof (induction xs arbitrary: a ps)
  case (Cons x xs)
  obtain p a1 where x: "daemon_step mux cfg x a = (p, a1)" by fastforce
  obtain qs where xs: "run_daemon mux cfg xs a1 = (qs, a')" using Cons.prems(1) x by (auto split: prod.splits)
  have ps: "ps = (case p of None \<Rightarrow> qs | Some q \<Rightarrow> q # qs)" using Cons.prems(1) x xs by simp
  then have "steady lookup cfg a1" using Cons.prems(2-4) by (intro step_steady [OF x]) (auto split: option.splits)
  with Cons.IH [OF xs] Cons.prems(3,4) ps x show ?case by (auto split: option.splits)
qed simp



subsection \<open>Before there is an administrator\<close>

interpretation access: upgrade "\<lambda>_ s. st_auth s = st_auth empty_store \<and> tokens (st_tokens s) = []" False
proof
  show "case (migrations ! i) s of None \<Rightarrow> \<not> False | Some s1 \<Rightarrow> st_auth s1 = st_auth empty_store \<and> tokens (st_tokens s1) = []"
    if "i < 26" "st_auth s = st_auth empty_store \<and> tokens (st_tokens s) = []" for i s
  proof (cases i)
    case 0
    with that show ?thesis by (simp add: migrations_def v1_def seed_settings_def change_def)
  next
    case (Suc k)
    then have "migrations ! i \<in> set (tl migrations)" using that(1) nth_mem [of k "tl migrations"] by (simp add: nth_tl)
    with that(2) versions_keep(2,3) show ?thesis by (auto split: option.split)
  qed
qed simp

definition vacant :: "admin \<Rightarrow> bool" where
  "vacant a \<longleftrightarrow> users (sv_auth a) = [] \<and> auth_db.sessions (sv_auth a) = [] \<and> tokens (sv_tokens a) = []"

lemma vacant_refuses:
  assumes "vacant s"
  shows "\<exists>x. ValidateSession fails now c (sv_auth s) = (Inl x, sv_auth s)" "\<exists>x. Validate_token fails now plain (sv_tokens s) = (Inl x, sv_tokens s)"
    "\<exists>x. Login B fails seed now u pw (sv_auth s) = (Inl x, sv_auth s)" "snd (Logout fails c (sv_auth s)) = sv_auth s"
  using assms by (auto simp: vacant_def ValidateSession_def session_row_def Validate_token_def Login_def Logout_def drop_session_def Let_def)

text \<open>Then a request changes nothing but the counters of the log-in throttle.\<close>

definition undisturbed :: "admin \<Rightarrow> response \<times> admin \<Rightarrow> bool" where
  "undisturbed s q \<longleftrightarrow> (\<exists>t. snd q = s\<lparr>sv_attempts := t\<rparr>)"

lemma undisturbedI: "undisturbed s (p, s)" "undisturbed s (p, s\<lparr>sv_attempts := t\<rparr>)" "undisturbed s (p, s\<lparr>sv_auth := sv_auth s\<rparr>)"
  "undisturbed s (p, s\<lparr>sv_auth := sv_auth s, sv_attempts := t\<rparr>)" "undisturbed s (p, s\<lparr>sv_tokens := sv_tokens s\<rparr>)"
  unfolding undisturbed_def by (auto intro: exI [of _ "sv_attempts s"])

lemma vacant_guards:
  assumes "vacant s" "g \<noteq> guard.Open" shows "undisturbed s (guarded fails now g h cx r s)"
proof -
  have st: "undisturbed s (apfst f q) = undisturbed s q" for f q by (cases q) (simp add: undisturbed_def)
  obtain x where x: "\<And>c. ValidateSession fails now c (sv_auth s) = (Inl (x c), sv_auth s)" using vacant_refuses(1) [OF assms(1)] by metis
  obtain y where y: "\<And>c. Validate_token fails now c (sv_tokens s) = (Inl (y c), sv_tokens s)" using vacant_refuses(2) [OF assms(1)] by metis
  show ?thesis using assms(2) x y
    by (cases g) (auto simp: AuthRequired_def APIAuthRequired_def BLECORS_def BLEBearerRequired_def st undisturbedI split: option.split)
qed

lemma names_static: "map_of (admin_table a) ''static'' = None" "map_of (system_table b) ''static'' = None" "map_of (bearer_table tx c) ''static'' = None"
  by (simp_all add: admin_table_def system_table_def bearer_table_def)

lemma names_ca: "map_of (admin_table a) ''ca'' = None" "map_of (system_table b) ''ca'' = None" "map_of (bearer_table tx c) ''ca'' = None"
  by (simp_all add: admin_table_def system_table_def bearer_table_def)

lemma names_ev: "map_of (admin_table a) ''teslaH.EventsBLE'' = None" "map_of (system_table b) ''teslaH.EventsBLE'' = None" "map_of (bearer_table tx c) ''teslaH.EventsBLE'' = None"
  by (simp_all add: admin_table_def system_table_def bearer_table_def)

lemma open_table:
  "handlers e ''static'' = (\<lambda>cx r s. (we_static e r, s))" "handlers e ''ca'' = (\<lambda>cx r s. (we_static e r, s))"
  "handlers e ''teslaH.EventsBLE'' = events_handler e"
  unfolding handlers_def handler_table_def map_of_append map_add_def
  by (simp_all add: names_static names_ca names_ev)

lemma vacant_public:
  assumes "vacant s"
  shows "undisturbed s (events_handler e cx r s)" "undisturbed s (LoginPage f parses now r s)" "undisturbed s (Login_handler B f seed t r s)"
    "undisturbed s (Logout_handler f r s)"
proof -
  obtain x where x: "\<And>f n c. ValidateSession f n c (sv_auth s) = (Inl (x f n c), sv_auth s)" using vacant_refuses(1) [OF assms] by metis
  obtain y where y: "\<And>f n c. Validate_token f n c (sv_tokens s) = (Inl (y f n c), sv_tokens s)" using vacant_refuses(2) [OF assms] by metis
  obtain z where z: "\<And>B f d n u pw. Login B f d n u pw (sv_auth s) = (Inl (z B f d n u pw), sv_auth s)" using vacant_refuses(3) [OF assms] by metis
  show "undisturbed s (events_handler e cx r s)" by (simp add: events_handler_def teslaH_EventsBLE_def y put_tokens_def undisturbedI)
  show "undisturbed s (LoginPage f parses now r s)" by (simp add: LoginPage_def x undisturbedI split: option.split)
  show "undisturbed s (Login_handler B f seed t r s)" by (simp add: Login_handler_def z Let_def undisturbedI split: option.split)
  show "undisturbed s (Logout_handler f r s)" by (simp add: Logout_handler_def vacant_refuses(4) [OF assms] undisturbedI split: option.split)
qed

lemma vacant_open:
  assumes "vacant s" "name \<in> set open_handlers" shows "undisturbed s (auth_handlers w (handlers e) name cx r s)"
proof -
  have "name = ''static'' \<or> name = ''ca'' \<or> name = ''authH.LoginPage'' \<or> name = ''authH.Login'' \<or> name = ''authH.Logout'' \<or> name = ''teslaH.EventsBLE''"
    using assms(2) by (simp only: open_handlers_def list.set insert_iff empty_iff simp_thms)
  then show ?thesis
    by (elim disjE; hypsubst) (simp_all add: auth_handlers_def open_table vacant_public [OF assms(1)] undisturbedI)
qed

lemma vacant_router:
  assumes "mux_ok mux" "vacant s" shows "undisturbed s (NewRouterWithFS mux w (handlers e) r s)"
proof (cases "mux r")
  case (Endpoint rt ps)
  then have rt: "rt \<in> set routes" using assms(1) by (auto simp: mux_ok_def)
  show ?thesis
  proof (cases "rt_guard rt = guard.Open")
    case True
    with route_guards [OF rt] have "rt_handler rt \<in> set open_handlers" by simp
    with Endpoint True vacant_open [OF assms(2)] show ?thesis by (simp add: NewRouterWithFS_def Let_def)
  next
    case False
    with Endpoint vacant_guards [OF assms(2)] show ?thesis by (simp add: NewRouterWithFS_def Let_def)
  qed
next
  case BleFallback
  with vacant_guards [OF assms(2), of Bearer] show ?thesis by (simp add: NewRouterWithFS_def Let_def del: guarded.simps)
qed (simp add: NewRouterWithFS_def undisturbedI)


fun is_job :: "event \<Rightarrow> bool" where
  "is_job (Served (Goroutine e j)) = True"
| "is_job _ = False"

lemma undisturbed_vacant: "undisturbed s (p, s') \<Longrightarrow> vacant s' = vacant s \<and> sv_rest s' = sv_rest s"
  by (auto simp: undisturbed_def vacant_def)

lemma vacant_step:
  assumes "daemon_step mux cfg x a = (p, a')" "mux_ok mux" "\<not> is_job x" "vacant a"
  shows "vacant a' \<and> host_of_admin a' = host_of_admin a \<and> new_blocked (db_of a) (db_of a') \<and> classified (db_of a') \<subseteq> classified (db_of a)"
proof (cases x)
  case (Served y)
  with assms(3) obtain w e r where y: "y = Request w e r" by (cases y) auto
  obtain q a1 where n: "NewRouterWithFS mux w (handlers e) r a = (q, a1)" by fastforce
  then have "a' = a1" using assms(1) Served y by simp
  with undisturbed_vacant [of a q a1] vacant_router [OF assms(2,4), of w e r] n assms(4) show ?thesis by (auto simp: new_blocked_def)
next
  case (Scanned fails now lf af)
  then have "a' = put_db (scan_network fails cfg now lf af (db_of a)) a" using assms(1) by simp
  then show ?thesis using assms(4) new_blocked_scan classified_scan by (auto simp: vacant_def put_db_def)
next
  case (Ingested y)
  with assms(1,4) show ?thesis by (auto simp: vacant_def new_blocked_def put_log_def put_tlog_def split: prod.splits)
qed

lemma vacant_run:
  "run_daemon mux cfg xs a = (ps, a') \<Longrightarrow> mux_ok mux \<Longrightarrow> \<forall>x\<in>set xs. \<not> is_job x \<Longrightarrow> vacant a \<Longrightarrow>
   vacant a' \<and> host_of_admin a' = host_of_admin a \<and> new_blocked (db_of a) (db_of a') \<and> classified (db_of a') \<subseteq> classified (db_of a)"
proof (induction xs arbitrary: a ps)
  case Nil
  then show ?case by (simp add: new_blocked_def)
next
  case (Cons x xs)
  obtain p a1 where x: "daemon_step mux cfg x a = (p, a1)" by fastforce
  obtain qs where xs: "run_daemon mux cfg xs a1 = (qs, a')" using Cons.prems(1) x by (auto split: prod.splits)
  have st: "vacant a1 \<and> host_of_admin a1 = host_of_admin a \<and> new_blocked (db_of a) (db_of a1) \<and> classified (db_of a1) \<subseteq> classified (db_of a)"
    using vacant_step [OF x Cons.prems(2) _ Cons.prems(4)] Cons.prems(3) by simp
  with Cons.IH [OF xs Cons.prems(2)] Cons.prems(3) new_blocked_trans [of "db_of a" "db_of a1" "db_of a'"] show ?case by auto
qed

lemma Open_db_fresh:
  assumes "Open_db [] b fails empty_store = (None, s1)"
  shows "clean 26 (st_db s1) \<and> users (st_auth s1) = [] \<and> auth_db.sessions (st_auth s1) = [] \<and> tokens (st_tokens s1) = []"
proof -
  have m: "Migrate [] fails empty_store = (None, s1)" using assms by (auto simp: Open_db_def split: option.splits prod.splits)
  have c0: "clean 0 (st_db empty_store)"
    by (simp add: clean_early good_def filters_wf_def rows_ok_def blank_def empty_store_def empty_db_def)
  from access.Migrate_ok [OF _ at_empty _ m]
  have "st_auth s1 = st_auth empty_store" "tokens (st_tokens s1) = []" by (auto simp: empty_store_def)
  moreover have "clean 26 (st_db s1)" using factory.Migrate_ok [OF _ at_empty c0 m] by auto
  ultimately show ?thesis by (simp add: empty_store_def)
qed



subsection \<open>A first start\<close>

definition quiet_boot :: boot_env where
  "quiet_boot = \<lparr>bo_read = (\<lambda>_. NotExist), bo_unmarshal = (\<lambda>_ c. (c, False)), bo_getenv = (\<lambda>_. []), bo_open = (\<lambda>_. False), bo_migrate = works,
     bo_seeds = [], bo_faults = no_faults, bo_shell = quiet_shell, bo_lookup = (\<lambda>_. None), bo_bcrypt = plain_bcrypt, bo_salt = [], bo_now = 5,
     bo_web = Map.empty, bo_no_cert = True\<rparr>"

lemma quiet_firewall: "\<exists>h'. Apply_firewall lookup no_faults quiet_shell cfg d h = (None, h')"
  by (simp add: Apply_firewall_def ListRules_def loadDeviceSnapshot_def no_faults_def write_file_def Run_def quiet_shell_def record_cmd_def Let_def)

lemma quiet_services:
  "\<exists>ws sv'. boot_services cfg quiet_boot sv = (ws, sv') \<and> set ws \<inter> (range FirewallNotApplied \<union> range DnsNotApplied) = {}"
proof -
  let ?d = "db_of (se_admin sv)"
  obtain e1 h1 where h1: "EnsureNoDnsmasqHijack no_faults quiet_shell (host_of_admin (se_admin sv)) = (e1, h1)" by fastforce
  obtain e2 h2 where h2: "EnsureDefaultDenyConfig no_faults quiet_shell h1 = (e2, h2)" by fastforce
  obtain h3 where h3: "Apply_firewall (\<lambda>_. None) no_faults quiet_shell cfg ?d h2 = (None, h3)" using quiet_firewall by blast
  obtain h4 where h4: "Apply_dns no_faults quiet_shell cfg ?d h3 = (None, h4)" using quiet_dns by blast
  obtain e5 h5 where h5: "Apply_bandwidth no_faults quiet_shell cfg ?d (dm_limits (sv_rest (se_admin sv))) h4 = (e5, h5)" by fastforce
  obtain e6 h6 where h6: "Apply_hotspot no_faults quiet_shell ?d h5 = (e6, h6)" by fastforce
  have "\<exists>sv'. boot_services cfg quiet_boot sv =
      (warn HijackLeft e1 @ warn NotHealed e2 @ warn BandwidthNotApplied e5 @ warn HotspotNotApplied e6, sv')"
    using h1 h2 h3 h4 h5 h6 by (simp add: boot_services_def ApplyAll_def quiet_boot_def Let_def) (simp add: warn_def)
  then show ?thesis by (cases e1; cases e2; cases e5; cases e6) (auto simp: warn_def)
qed

lemma quiet_start:
  "\<exists>ws sv. main no_flags quiet_boot empty_store h = Serving Defaults False ws sv \<and> set ws \<inter> (range FirewallNotApplied \<union> range DnsNotApplied) = {}"
proof -
  have c: "applyEnvOverrides (\<lambda>_. []) Defaults = Defaults" by (simp add: applyEnvOverrides_def override_def)
  obtain s1 where "Migrate [] works empty_store = (None, s1)" using fresh_store by blast
  then have o: "Open_db [] (\<lambda>_. False) works empty_store = (None, s1)" by (simp add: Open_db_def pragmas_def)
  let ?sv = "(New_services Defaults s1 h)\<lparr>se_spoof := SetEnrolDeps (Some Map.empty) True True (se_spoof (New_services Defaults s1 h))\<rparr>"
  obtain ws sv where b: "boot_services Defaults quiet_boot ?sv = (ws, sv)" "set ws \<inter> (range FirewallNotApplied \<union> range DnsNotApplied) = {}"
    using quiet_services by blast
  have "main no_flags quiet_boot empty_store h = Serving Defaults False ws sv"
    using c o b(1) by (simp add: main_def no_flags_def Load_def Let_def) (simp add: quiet_boot_def no_faults_def Defaults_def)
  with b(2) show ?thesis by blast
qed

definition first_day :: "event list" where
  "first_day = [Served (Goroutine example_env ApplyDns), Scanned no_faults 5 None None, Ingested (no_faults, ''2024'', DnsLine ''x'')]"



subsection \<open>What a start does not check\<close>

lemma Apply_firewall_live: "Apply_firewall lookup fails sh cfg d h = (x, h') \<Longrightarrow> live_host h' = live_host h"
  by (auto simp: Apply_firewall_def write_file_def live_host_def dest!: Run_frame split: option.splits prod.splits if_splits)

lemma Apply_hotspot_restarts:
  "Apply_hotspot fails sh d h = (None, h') \<Longrightarrow> live_host h \<Longrightarrow> \<exists>cs. issued h' = cs @ [(''systemctl'', [''restart'', ''hostapd''])]"
  by (auto simp: Apply_hotspot_def Let_def write_file_def live_host_def dest!: Run_frame split: if_splits option.splits prod.splits)

text \<open>
  The access point comes up without its firewall.  When applying the firewall fails at the start, the
  daemon only logs it: unless the settings of the access point are themselves at fault, the last command of \<^verbatim>\<open>ApplyAll\<close>
  restarts hostapd all the same.  The check of the live rules that guards switching it on is not consulted.
\<close>

theorem hostapd_restarted_without_firewall:
  assumes "ApplyAll lookup fails sh cfg sv = (ws, sv')" "\<not> ex_dry_run (executor (dm_host (sv_rest (se_admin sv))))"
    and "FirewallNotApplied x \<in> set ws" "\<forall>y. HotspotNotApplied y \<notin> set ws"
  shows "\<exists>cs. issued (dm_host (sv_rest (se_admin sv'))) = cs @ [(''systemctl'', [''restart'', ''hostapd''])]"
proof -
  let ?a = "se_admin sv" and ?d = "db_of (se_admin sv)"
  obtain e1 h1 where h1: "Apply_firewall lookup fails sh cfg ?d (host_of_admin ?a) = (e1, h1)" by fastforce
  obtain e2 h2 where h2: "Apply_dns fails sh cfg ?d h1 = (e2, h2)" by fastforce
  obtain e3 h3 where h3: "Apply_bandwidth fails sh cfg ?d (dm_limits (sv_rest ?a)) h2 = (e3, h3)" by fastforce
  obtain e4 h4 where h4: "Apply_hotspot fails sh ?d h3 = (e4, h4)" by fastforce
  have r: "host_of_admin (se_admin sv') = h4" "set (warn HotspotNotApplied e4) \<subseteq> set ws"
    using assms(1) h1 h2 h3 h4 by (auto simp: ApplyAll_def Let_def)
  have "live_host h3"
    using assms(2) Apply_firewall_live [OF h1] Apply_dns_cases [OF h2] Apply_bandwidth_keeps [OF h3] by (simp add: live_host_def)
  moreover have "e4 = None" using r(2) assms(4) by (cases e4) (auto simp: warn_def)
  ultimately show ?thesis using Apply_hotspot_restarts h4 r(1) by simp
qed

text \<open>A machine on which loading the ruleset fails.\<close>

definition failing_nft :: shell where
  "failing_nft = (\<lambda>_ c. ([], [], if fst c = ''nft'' then Some (ExitStatus 1) else None))"

definition plain_services :: services where
  "plain_services = New_services Defaults empty_store (new_host False)"

lemma plain_start: "\<exists>ws sv'. ApplyAll (\<lambda>_. None) no_faults failing_nft Defaults plain_services = (ws, sv') \<and>
  FirewallNotApplied ''reload nftables'' \<in> set ws \<and> (\<forall>y. HotspotNotApplied y \<notin> set ws)"
proof -
  have fw: "\<exists>h1. Apply_firewall (\<lambda>_. None) no_faults failing_nft Defaults d h = (Some ''reload nftables'', h1)" if "live_host h" for d h
    using that by (simp add: Apply_firewall_def ListRules_def loadDeviceSnapshot_def no_faults_def write_file_def Run_def failing_nft_def live_host_def
        record_cmd_def Let_def)
  have hot: "\<exists>h1. Apply_hotspot no_faults failing_nft empty_db h = (None, h1)" for h
  proof -
    let ?s = "getSettings no_faults empty_db"
    have g: "?s = ap_defaults" by (simp add: getSettings_def no_faults_def empty_db_def)
    have "SanitizeSingleLine (setting ?s ''ap_password'') = ''changeme123''" "SanitizeSingleLine (setting ?s ''ap_channel'') = ''36''"
      unfolding g by code_simp+
    moreover have "matches apChannelRe ''36''" "bandFor (dec_val ''36'') = Some (''a'', True)" by code_simp+
    ultimately show ?thesis
      by (simp add: Apply_hotspot_def Let_def write_file_def no_faults_def Run_def failing_nft_def record_cmd_def split: prod.split)
  qed
  have "live_host (host_of_admin (se_admin plain_services))" "db_of (se_admin plain_services) = empty_db"
    by (simp_all add: plain_services_def New_services_def live_host_def New_executor_def Defaults_def empty_store_def)
  note p = this
  let ?l = "dm_limits (sv_rest (se_admin plain_services))"
  obtain h1 where h1: "Apply_firewall (\<lambda>_. None) no_faults failing_nft Defaults empty_db (host_of_admin (se_admin plain_services)) = (Some ''reload nftables'', h1)"
    using fw [OF p(1)] by blast
  obtain e2 h2 where h2: "Apply_dns no_faults failing_nft Defaults empty_db h1 = (e2, h2)" by fastforce
  obtain e3 h3 where h3: "Apply_bandwidth no_faults failing_nft Defaults empty_db ?l h2 = (e3, h3)" by fastforce
  obtain h4 where h4: "Apply_hotspot no_faults failing_nft empty_db h3 = (None, h4)" using hot by blast
  have "\<exists>sv'. ApplyAll (\<lambda>_. None) no_faults failing_nft Defaults plain_services =
      (FirewallNotApplied ''reload nftables'' # warn DnsNotApplied e2 @ warn BandwidthNotApplied e3, sv')"
    by (simp add: ApplyAll_def p(2) h1 h2 h3 h4 warn_def)
  then show ?thesis by (cases e2; cases e3) (auto simp: warn_def)
qed

theorem hostapd_restarted_without_firewall_witness:
  "\<exists>ws sv' cs. ApplyAll (\<lambda>_. None) no_faults failing_nft Defaults plain_services = (ws, sv') \<and> FirewallNotApplied ''reload nftables'' \<in> set ws \<and>
    issued (dm_host (sv_rest (se_admin sv'))) = cs @ [(''systemctl'', [''restart'', ''hostapd''])]"
proof -
  obtain ws sv' where w: "ApplyAll (\<lambda>_. None) no_faults failing_nft Defaults plain_services = (ws, sv')"
    "FirewallNotApplied ''reload nftables'' \<in> set ws" "\<forall>y. HotspotNotApplied y \<notin> set ws" using plain_start by blast
  have "\<not> ex_dry_run (executor (dm_host (sv_rest (se_admin plain_services))))"
    by (simp add: plain_services_def New_services_def New_executor_def Defaults_def)
  from hostapd_restarted_without_firewall [OF w(1) this w(2,3)] w show ?thesis by blast
qed


subsection \<open>A device between its discovery and the next change\<close>

text \<open>The rules of the forward chain that the tables call for; the chain in the file is printed from them.\<close>

definition forward_of :: "(string \<Rightarrow> nat list list option) \<Rightarrow> db \<Rightarrow> fw_rule list" where
  "forward_of lookup d = forward_rules (user_lines lookup (the (ListRules no_faults d))) (filterUDPPorts no_faults d) (filterTCPPorts no_faults d)
     (the (loadDeviceSnapshot no_faults d))"

lemma nft_text_forward:
  "\<exists>pre post. nft_text lookup cfg d = unlines (pre @ map render (forward_of lookup d) @ post)"
  unfolding nft_text_def generateConfig_def forward_chain_render forward_of_def append_assoc by (metis append_assoc)

lemma macs_with_mono: "m \<in> set (macs_with st d) \<Longrightarrow> \<exists>dev\<in>set (devices d). to_lower (dev_mac dev) = m"
  by (auto simp: macs_with_def with_status_def)

text \<open>
  C39: a device just discovered is not dropped.  A scan puts a new device into the table as blocked, but
  applies nothing, so the ruleset on the machine stays the one from before: a forward rule of the operator
  that accepts the device's packet lets it through, while the ruleset that the tables call for, which is
  loaded with the next change or restart, drops every packet of the device.
\<close>

theorem discovered_device_passes:
  assumes "files (dm_host (sv_rest a)) ''/etc/nftables.conf'' = Some (nft_text lookup cfg (dm_db (sv_rest a)))"
    and "daemon_step mux cfg (Scanned fails now lf af) a = (p, a')"
    and "pk_mac pk \<in> set (macs_with DeviceStatusBlocked (dm_db (sv_rest a')))" "\<not> pk_established pk"
    and "\<forall>dev\<in>set (devices (dm_db (sv_rest a))). to_lower (dev_mac dev) \<noteq> pk_mac pk"
    and "first_verdict (\<lambda>l. user l pk) (user_lines lookup (the (ListRules no_faults (dm_db (sv_rest a))))) = Some Accept"
  shows "\<exists>pre rs post. files (dm_host (sv_rest a')) ''/etc/nftables.conf'' = Some (unlines (pre @ map render rs @ post)) \<and>
    chain_verdict user pk rs = Accept \<and> chain_verdict user pk (forward_of lookup (dm_db (sv_rest a'))) = Drop"
proof -
  let ?d = "dm_db (sv_rest a)" and ?d' = "dm_db (sv_rest a')"
  have "a' = put_db (scan_network fails cfg now lf af ?d) a" using assms(2) by simp
  then have h: "dm_host (sv_rest a') = dm_host (sv_rest a)" by simp
  have "pk_mac pk \<notin> set (macs_with st ?d)" for st using macs_with_mono assms(5) by blast
  then have "chain_verdict user pk (forward_of lookup ?d) = Accept"
    using assms(4,6) unfolding forward_of_def forward_verdict by (simp add: loadDeviceSnapshot_def no_faults_def)
  moreover have "chain_verdict user pk (forward_of lookup ?d') = Drop"
    using assms(3,4) unfolding forward_of_def forward_verdict by (simp add: loadDeviceSnapshot_def no_faults_def)
  moreover obtain pre post where "nft_text lookup cfg ?d = unlines (pre @ map render (forward_of lookup ?d) @ post)"
    using nft_text_forward by blast
  ultimately show ?thesis using assms(1) h by auto
qed

text \<open>The operator lets everybody reach a web server, and a phone joins.\<close>

definition shared_db :: db where
  "shared_db = empty_db\<lparr>firewall_rules := [(one_rule [])\<lparr>r_dest_port := ''80'', r_action := ''allow''\<rparr>], rules_seq := 1\<rparr>"

definition shared_admin :: admin where
  "shared_admin = put_host ((new_host False)\<lparr>files := [''/etc/nftables.conf'' \<mapsto> nft_text (\<lambda>_. None) Defaults shared_db]\<rparr>) (put_db shared_db example_admin)"

definition phone :: packet where
  "phone = \<lparr>pk_mac = ''aa:bb:cc:dd:ee:ff'', pk_established = False, pk_new = True, pk_proto = ''tcp'', pk_dport = 80\<rparr>"

definition web_rule :: "string \<Rightarrow> packet \<Rightarrow> verdict option" where
  "web_rule l pk = (if pk_proto pk = ''tcp'' \<and> pk_dport pk = 80 then Some Accept else None)"

definition phone_lease :: string where
  "phone_lease = ''99 aa:bb:cc:dd:ee:ff 10.0.0.7 phone *'' @ nl"

lemma phone_found: "parseDHCPLeases (Some phone_lease) [] = [\<lparr>fd_mac = ''AA:BB:CC:DD:EE:FF'', fd_ip = ''10.0.0.7'', fd_hostname = ''phone''\<rparr>]"
proof -
  let ?line = "''99 aa:bb:cc:dd:ee:ff 10.0.0.7 phone *''"
  have raw: "raw_lines phone_lease = [?line]" "drop_cr ?line = ?line" by code_simp+
  have lines: "fst (scan_lines phone_lease) = [?line]" by (simp add: scan_lines_def raw)
  have fs: "Go_Prelude.fields ?line = [''99'', ''aa:bb:cc:dd:ee:ff'', ''10.0.0.7'', ''phone'', ''*'']" by code_simp
  have "to_upper ''aa:bb:cc:dd:ee:ff'' = ''AA:BB:CC:DD:EE:FF''" by code_simp
  then show ?thesis by (simp add: parseDHCPLeases_def mergeLeases_def lines lease_step_def fs Let_def put_found_def)
qed

lemma phone_blocked: "pk_mac phone \<in> set (macs_with DeviceStatusBlocked (scan_network no_faults Defaults 1000 (Some phone_lease) None shared_db))"
proof -
  have "to_lower ''AA:BB:CC:DD:EE:FF'' = ''aa:bb:cc:dd:ee:ff''" "ValidMAC ''aa:bb:cc:dd:ee:ff''" by code_simp+
  then show ?thesis
    by (simp add: scan_network_def found_devices_def parseARP_def phone_found upsertDevice_def no_faults_def shared_db_def empty_db_def Let_def
        macs_with_def with_status_def phone_def)
qed

theorem discovered_device_passes_witness:
  "\<exists>a' pre rs post. daemon_step example_mux Defaults (Scanned no_faults 1000 (Some phone_lease) None) shared_admin = (None, a') \<and>
    files (dm_host (sv_rest a')) ''/etc/nftables.conf'' = Some (unlines (pre @ map render rs @ post)) \<and>
    chain_verdict web_rule phone rs = Accept \<and> chain_verdict web_rule phone (forward_of (\<lambda>_. None) (dm_db (sv_rest a'))) = Drop"
proof -
  let ?d = "scan_network no_faults Defaults 1000 (Some phone_lease) None shared_db"
  let ?a = "put_db ?d shared_admin"
  have db: "dm_db (sv_rest shared_admin) = shared_db" by (simp add: shared_admin_def)
  then have st: "daemon_step example_mux Defaults (Scanned no_faults 1000 (Some phone_lease) None) shared_admin = (None, ?a)" by simp
  note phone_blocked
  moreover have "user_lines (\<lambda>_. None) (the (ListRules no_faults shared_db)) \<noteq> []" by code_simp
  then have "first_verdict (\<lambda>l. web_rule l phone) (user_lines (\<lambda>_. None) (the (ListRules no_faults shared_db))) = Some Accept"
    by (cases "user_lines (\<lambda>_. None) (the (ListRules no_faults shared_db))") (simp_all add: web_rule_def phone_def)
  moreover have "devices shared_db = []" by (simp add: shared_db_def empty_db_def)
  moreover have "files (dm_host (sv_rest shared_admin)) ''/etc/nftables.conf'' = Some (nft_text (\<lambda>_. None) Defaults shared_db)" by (simp add: shared_admin_def)
  ultimately show ?thesis
    using discovered_device_passes [OF _ st, of "\<lambda>_. None" phone web_rule] st db by (auto simp: phone_def)
qed

end
