(* ===== verification/Tailing.thy ===== *)
theory Tailing
  imports Traffic_Log
begin

text \<open>
  \<^verbatim>\<open>internal/services/trafficlog.go\<close>: the loops that read the journal and the log of dnsmasq.  What
  \<^verbatim>\<open>journalctl\<close> prints is an argument; of its documentation the loop relies on \<^verbatim>\<open>--after-cursor\<close>: the entries after the one with
  that cursor, in their order.  A round is one run of the command, until its stream ends.
\<close>

record journalEntry =
  je_cursor :: string
  je_message :: string
  je_realtime :: string
  je_identifier :: string

text \<open>A line of the output: an entry, or text that does not unmarshal, as for a message that is not a string.\<close>

type_synonym jline = "journalEntry option"

definition journal_args :: "string list \<Rightarrow> string \<Rightarrow> string list" where
  "journal_args base cursor = base @ [''-o'', ''json'', ''--no-pager'', ''--follow''] @
     (if cursor \<noteq> [] then [''--after-cursor='' @ cursor] else [''--since=1 day ago''])"

text \<open>What is the case when an entry is read: what fails, the time, and whether the cursor was last saved more than five seconds ago.\<close>

record moment =
  mo_faults :: faults
  mo_stamp :: string
  mo_due :: bool

type_synonym log_state = "TrafficLogService \<times> log_tables"

definition hand_over :: "string \<Rightarrow> moment \<Rightarrow> journalEntry \<Rightarrow> log_state \<Rightarrow> log_state" where
  "hand_over name m e st =
     (if name = ''kernel'' then
        (if contains (je_message e) ''NETFILTER'' then ingest (mo_faults m, mo_stamp m, NfLine (je_message e)) st else st)
      else if name = ''dnsmasq'' then ingest (mo_faults m, mo_stamp m, DnsLine (je_message e)) st
      else st)"

definition save_cursor :: "faults \<Rightarrow> string \<Rightarrow> string \<Rightarrow> log_state \<Rightarrow> log_state" where
  "save_cursor fails key c st = apsnd (setCursor fails key c) st"

fun tail_lines :: "string \<Rightarrow> string \<Rightarrow> (journalEntry \<Rightarrow> moment) \<Rightarrow> jline list \<Rightarrow> string \<Rightarrow> log_state \<Rightarrow> string \<times> log_state" where
  "tail_lines name key at [] lastCursor st = (lastCursor, st)"
| "tail_lines name key at (None # ls) lastCursor st = tail_lines name key at ls lastCursor st"
| "tail_lines name key at (Some e # ls) lastCursor st =
     (let m = at e; lastCursor = je_cursor e; st = hand_over name m e st in
      tail_lines name key at ls lastCursor (if mo_due m \<and> lastCursor \<noteq> [] then save_cursor (mo_faults m) key lastCursor st else st))"

text \<open>
  One round of \<^verbatim>\<open>tailJournal\<close>: \<open>n\<close> lines are read before the stream ends; \<open>starts\<close> says whether the command could be
  started, and \<open>fails\<close> what fails around it.
\<close>

definition tail_round :: "(string list \<Rightarrow> jline list) \<Rightarrow> string \<Rightarrow> string \<Rightarrow> string list \<Rightarrow> faults \<Rightarrow> (journalEntry \<Rightarrow> moment) \<Rightarrow> nat option \<Rightarrow>
    log_state \<Rightarrow> log_state" where
  "tail_round journalctl name key base fails at starts st =
     (let cursor = getCursor fails key (snd st) in
      case starts of
        None \<Rightarrow> st
      | Some n \<Rightarrow>
          (case tail_lines name key at (take n (journalctl (journal_args base cursor))) [] st of (lastCursor, st1) \<Rightarrow>
             if lastCursor \<noteq> [] then save_cursor fails key lastCursor st1 else st1))"

fun tailJournal :: "(string list \<Rightarrow> jline list) \<Rightarrow> string \<Rightarrow> string \<Rightarrow> string list \<Rightarrow> (faults \<times> (journalEntry \<Rightarrow> moment) \<times> nat option) list \<Rightarrow>
    log_state \<Rightarrow> log_state" where
  "tailJournal journalctl name key base [] st = st"
| "tailJournal journalctl name key base ((fails, at, starts) # rs) st =
     tailJournal journalctl name key base rs (tail_round journalctl name key base fails at starts st)"

text \<open>
  The loop over dnsmasq's log file.  A round finds the file and reads lines from \<^verbatim>\<open>tail -F\<close>, or it fails to start the command, or it
  does not find the file: then it runs \<^verbatim>\<open>tailJournal\<close>, which does not return, for the rest of the run.
\<close>

datatype file_round = FileLines "(faults \<times> string \<times> string) list" | TailFailed | FileMissing

fun tailDnsmasqLogFile :: "(string list \<Rightarrow> jline list) \<Rightarrow> (faults \<times> (journalEntry \<Rightarrow> moment) \<times> nat option) list \<Rightarrow> file_round list \<Rightarrow>
    log_state \<Rightarrow> log_state" where
  "tailDnsmasqLogFile journalctl js [] st = st"
| "tailDnsmasqLogFile journalctl js (FileLines ls # rs) st =
     tailDnsmasqLogFile journalctl js rs (fold (\<lambda>(fails, stamp, l). ingest (fails, stamp, DnsLine l)) ls st)"
| "tailDnsmasqLogFile journalctl js (TailFailed # rs) st = tailDnsmasqLogFile journalctl js rs st"
| "tailDnsmasqLogFile journalctl js (FileMissing # rs) st = tailJournal journalctl ''dnsmasq'' ''dnsmasq-cursor'' [''-u'', ''dnsmasq''] js st"

definition refreshCaches :: "faults \<Rightarrow> db \<Rightarrow> log_state \<Rightarrow> log_state" where
  "refreshCaches fails d st = (case st of (s, t) \<Rightarrow> (RefreshAllowCache fails d (RefreshMuteCache fails t (RefreshIgnoreCache fails d s)), t))"

subsection \<open>Rounds\<close>

definition cursor_io :: "faults \<Rightarrow> bool" where
  "cursor_io fails \<longleftrightarrow> \<not> fails ''read cursor'' \<and> \<not> fails ''write cursor''"

definition put_cursor :: "string \<Rightarrow> string \<Rightarrow> log_state \<Rightarrow> log_state" where
  "put_cursor key c st = apsnd (\<lambda>t. t\<lparr>kv_store := (kv_store t)(key \<mapsto> c)\<rparr>) st"

lemma save_cursor_ok: "\<not> fails ''write cursor'' \<Longrightarrow> save_cursor fails key c st = put_cursor key c st"
  by (cases st) (simp add: save_cursor_def put_cursor_def setCursor_def)

lemma insertEntry_kv: "insertEntry fails stamp s e (t\<lparr>kv_store := m\<rparr>) = (insertEntry fails stamp s e t)\<lparr>kv_store := m\<rparr>"
  "kv_store (insertEntry fails stamp s e t) = kv_store t"
  by (simp_all add: insertEntry_def Let_def)

lemma parse_kv:
  "parseNfLine f stamp x s (t\<lparr>kv_store := m\<rparr>) = (parseNfLine f stamp x s t)\<lparr>kv_store := m\<rparr>"
  "kv_store (parseNfLine f stamp x s t) = kv_store t"
  "parseDnsLine f stamp x s (t\<lparr>kv_store := m\<rparr>) = apsnd (\<lambda>t. t\<lparr>kv_store := m\<rparr>) (parseDnsLine f stamp x s t)"
  "kv_store (snd (parseDnsLine f stamp x s t)) = kv_store t"
  by (simp_all add: parseNfLine_def parseDnsLine_def insertEntry_kv split: option.split list.split)

lemma hand_over_kv: "kv_store (snd (hand_over name m e st)) = kv_store (snd st)"
  by (cases st) (simp add: hand_over_def parse_kv)

lemma hand_over_put: "hand_over name m e (put_cursor key c st) = put_cursor key c (hand_over name m e st)"
proof (cases st)
  case (Pair s t)
  obtain s1 t1 where "parseDnsLine (mo_faults m) (mo_stamp m) (je_message e) s t = (s1, t1)" by fastforce
  moreover from this have "kv_store t1 = kv_store t" using parse_kv(4) [of "mo_faults m" "mo_stamp m" "je_message e" s t] by simp
  ultimately show ?thesis unfolding Pair by (simp add: hand_over_def put_cursor_def parse_kv)
qed

text \<open>The entries among the lines, what handing them over does, and the cursor of the last one.\<close>

definition parsed :: "jline list \<Rightarrow> journalEntry list" where
  "parsed ls = List.map_filter id ls"

definition logged :: "string \<Rightarrow> (journalEntry \<Rightarrow> moment) \<Rightarrow> journalEntry list \<Rightarrow> log_state \<Rightarrow> log_state" where
  "logged name at es st = fold (\<lambda>e. hand_over name (at e) e) es st"

definition moved :: "string \<Rightarrow> journalEntry list \<Rightarrow> log_state \<Rightarrow> log_state" where
  "moved key es st = (if es = [] then st else put_cursor key (je_cursor (last es)) st)"

lemma parsed_simps [simp]: "parsed [] = []" "parsed (None # ls) = parsed ls" "parsed (Some e # ls) = e # parsed ls"
  "parsed (ls @ ls') = parsed ls @ parsed ls'"
  by (simp_all add: parsed_def map_filter_def)

lemma put_put: "put_cursor key c (put_cursor key c' st) = put_cursor key c st"
  by (cases st) (simp add: put_cursor_def)

lemma logged_put: "logged name at es (put_cursor key c st) = put_cursor key c (logged name at es st)"
  by (induction es arbitrary: st) (simp_all add: logged_def hand_over_put)

lemma tail_lines_last:
  "fst (tail_lines name key at ls c st) = (if parsed ls = [] then c else je_cursor (last (parsed ls)))"
  by (induction name key at ls c st rule: tail_lines.induct) (auto simp: Let_def)

lemma tail_lines_put:
  assumes "\<forall>e. \<not> mo_faults (at e) ''write cursor''"
  shows "put_cursor key d (snd (tail_lines name key at ls c st)) = put_cursor key d (logged name at (parsed ls) st)"
  using assms
  by (induction name key at ls c st rule: tail_lines.induct) (auto simp: Let_def logged_def save_cursor_ok logged_put [unfolded logged_def] put_put)

lemma tail_lines_none: "parsed ls = [] \<Longrightarrow> tail_lines name key at ls c st = (c, st)"
  by (induction name key at ls c st rule: tail_lines.induct) auto

definition fair :: "faults \<Rightarrow> (journalEntry \<Rightarrow> moment) \<Rightarrow> bool" where
  "fair fails at \<longleftrightarrow> cursor_io fails \<and> (\<forall>e. \<not> mo_faults (at e) ''write cursor'')"

lemma tail_round_eq:
  assumes "fair fails at" "\<forall>e\<in>set (parsed ls). je_cursor e \<noteq> []"
    and "ls = take n (journalctl (journal_args base (getCursor fails key (snd st))))"
  shows "tail_round journalctl name key base fails at (Some n) st = moved key (parsed ls) (logged name at (parsed ls) st)"
proof (cases "parsed ls = []")
  case True
  with assms(3) show ?thesis by (simp add: tail_round_def tail_lines_none moved_def logged_def)
next
  case False
  obtain c st1 where t: "tail_lines name key at ls [] st = (c, st1)" by (metis prod.exhaust)
  with tail_lines_last [of name key at ls "[]" st] False assms(2) have c: "c = je_cursor (last (parsed ls))" "c \<noteq> []" by auto
  have "\<not> fails ''write cursor''" using assms(1) by (simp add: fair_def cursor_io_def)
  then have "tail_round journalctl name key base fails at (Some n) st = put_cursor key c st1"
    using t c(2) assms(3) by (simp add: tail_round_def save_cursor_ok)
  moreover have "put_cursor key c st1 = put_cursor key c (logged name at (parsed ls) st)"
    using tail_lines_put [of at key c name ls "[]" st] assms(1) t by (simp add: fair_def)
  ultimately show ?thesis using c(1) False by (simp add: moved_def)
qed


lemma moved_append: "moved key es' (logged name at es' (moved key es (logged name at es st))) = moved key (es @ es') (logged name at (es @ es') st)"
proof -
  have "logged name at (es @ es') st = logged name at es' (logged name at es st)" by (simp add: logged_def)
  then show ?thesis by (auto simp: moved_def logged_put put_put logged_def [where es = "[]"])
qed

lemma parsed_split:
  "parsed ls \<noteq> [] \<Longrightarrow> \<exists>A B. ls = A @ Some (last (parsed ls)) # B \<and> parsed B = []"
proof (induction ls rule: rev_induct)
  case (snoc x ls)
  show ?case
  proof (cases x)
    case None
    with snoc obtain A B where "ls = A @ Some (last (parsed ls)) # B" "parsed B = []" by auto
    with None show ?thesis by (intro exI [of _ A] exI [of _ "B @ [None]"]) simp
  next
    case (Some e)
    then show ?thesis by (intro exI [of _ ls] exI [of _ "[]"]) simp
  qed
qed simp

text \<open>
  What the journal holds after the saved cursor, and what the documentation of \<^verbatim>\<open>--after-cursor\<close> says of the output for the
  cursor of each of its entries.
\<close>

definition follows :: "(string list \<Rightarrow> jline list) \<Rightarrow> string list \<Rightarrow> string \<Rightarrow> jline list \<Rightarrow> bool" where
  "follows journalctl base c J \<longleftrightarrow> journalctl (journal_args base c) = J \<and>
     list_all (\<lambda>i. case J ! i of None \<Rightarrow> True | Some e \<Rightarrow> je_cursor e \<noteq> [] \<and> journalctl (journal_args base (je_cursor e)) = drop (Suc i) J) [0..<length J]"

lemma follows_split: "follows journalctl base c (A @ Some e # B) \<Longrightarrow> je_cursor e \<noteq> [] \<and> journalctl (journal_args base (je_cursor e)) = B"
proof -
  assume "follows journalctl base c (A @ Some e # B)"
  moreover have "length A \<in> set [0..<length (A @ Some e # B)]" by simp
  ultimately have "case (A @ Some e # B) ! length A of None \<Rightarrow> True
      | Some e' \<Rightarrow> je_cursor e' \<noteq> [] \<and> journalctl (journal_args base (je_cursor e')) = drop (Suc (length A)) (A @ Some e # B)"
    unfolding follows_def list_all_iff by blast
  then show ?thesis by (simp del: upt_Suc)
qed

lemma follows_cursors: "follows journalctl base c J \<Longrightarrow> e \<in> set (parsed J) \<Longrightarrow> je_cursor e \<noteq> []"
proof -
  assume f: "follows journalctl base c J" and "e \<in> set (parsed J)"
  then have "Some e \<in> set J" by (auto simp: parsed_def map_filter_def)
  then obtain A B where "J = A @ Some e # B" by (meson split_list)
  with f follows_split show ?thesis by blast
qed

text \<open>The state after the first \<open>p\<close> lines, with the rest of the journal still to come.\<close>

definition read_up_to :: "(string list \<Rightarrow> jline list) \<Rightarrow> string \<Rightarrow> string \<Rightarrow> string list \<Rightarrow> (journalEntry \<Rightarrow> moment) \<Rightarrow> jline list \<Rightarrow>
    log_state \<Rightarrow> nat \<Rightarrow> log_state \<Rightarrow> bool" where
  "read_up_to journalctl name key base at J st0 p st \<longleftrightarrow> p \<le> length J \<and>
     st = moved key (parsed (take p J)) (logged name at (parsed (take p J)) st0) \<and>
     (\<exists>c. kv_store (snd st) key = Some c \<and> journalctl (journal_args base c) = drop p J)"

lemma tail_round_reads:
  assumes "follows journalctl base c0 J" "fair fails at" "read_up_to journalctl name key base at J st0 p st"
  shows "\<exists>q\<ge>p. read_up_to journalctl name key base at J st0 q (tail_round journalctl name key base fails at (Some n) st) \<and>
    parsed (take q J) = parsed (take p J) @ parsed (take n (drop p J))"
proof -
  let ?ls = "take n (drop p J)" and ?st = "tail_round journalctl name key base fails at (Some n) st"
  obtain c where p: "p \<le> length J" "st = moved key (parsed (take p J)) (logged name at (parsed (take p J)) st0)"
    and c: "kv_store (snd st) key = Some c" "journalctl (journal_args base c) = drop p J" using assms(3) by (auto simp: read_up_to_def)
  have "getCursor fails key (snd st) = c" using c(1) assms(2) by (simp add: getCursor_def fair_def cursor_io_def)
  then have ls: "?ls = take n (journalctl (journal_args base (getCursor fails key (snd st))))" using c(2) by simp
  have J: "J = take p J @ ?ls @ drop n (drop p J)" by (simp only: append_take_drop_id)
  have "set (parsed ?ls) \<subseteq> set (parsed J)" by (subst (2) J) (simp only: parsed_simps(4) set_append, blast)
  then have "\<forall>e\<in>set (parsed ?ls). je_cursor e \<noteq> []" using follows_cursors [OF assms(1)] by blast
  from tail_round_eq [where journalctl = journalctl, OF assms(2) this ls] have st': "?st = moved key (parsed ?ls) (logged name at (parsed ?ls) st)" .
  show ?thesis
  proof (cases "parsed ?ls = []")
    case True
    then show ?thesis using assms(3) st' by (intro exI [of _ p]) (simp add: moved_def logged_def)
  next
    case False
    then obtain A e B where s: "?ls = A @ Some e # B" "parsed B = []" "e = last (parsed ?ls)" using parsed_split by blast
    let ?e = e and ?q = "Suc (p + length A)"
    have "take p J @ ?ls @ drop n (drop p J) = (take p J @ A) @ Some e # B @ drop n (drop p J)" unfolding s(1) by simp
    with J have JJ: "J = (take p J @ A) @ Some ?e # B @ drop n (drop p J)" by (rule trans)
    have q: "take ?q J = take p J @ A @ [Some ?e]" "drop ?q J = B @ drop n (drop p J)" "?q \<le> length J"
      using p(1) by (subst JJ, simp)+
    have pq: "parsed (take ?q J) = parsed (take p J) @ parsed ?ls" unfolding q(1) s(1) by (simp add: s(2))
    have "journalctl (journal_args base (je_cursor ?e)) = drop ?q J" using follows_split [of journalctl base c0] assms(1) JJ q(2) by metis
    moreover have "kv_store (snd ?st) key = Some (je_cursor ?e)"
      using False s(3) unfolding st' by (cases "logged name at (parsed ?ls) st") (simp add: moved_def put_cursor_def)
    moreover have "?st = moved key (parsed (take ?q J)) (logged name at (parsed (take ?q J)) st0)"
    proof -
      have "moved key (parsed ?ls) (logged name at (parsed ?ls) st) = moved key (parsed (take ?q J)) (logged name at (parsed (take ?q J)) st0)"
        unfolding pq p(2) by (rule moved_append)
      with st' show ?thesis by (rule trans)
    qed
    ultimately show ?thesis using q(3) pq by (intro exI [of _ ?q]) (simp add: read_up_to_def)
  qed
qed


lemma tail_skip: "tail_round journalctl name key base fails at None st = st"
  by (simp add: tail_round_def)

lemma tail_reads:
  assumes "follows journalctl base c0 J" "read_up_to journalctl name key base at J st0 p st"
    and "\<forall>(f, n)\<in>set rs. fair f at"
  shows "\<exists>q\<ge>p. read_up_to journalctl name key base at J st0 q (tailJournal journalctl name key base (map (\<lambda>(f, n). (f, at, n)) rs) st) \<and>
    ((\<exists>(f, n)\<in>set rs. \<exists>k\<ge>length J. n = Some k) \<longrightarrow> parsed (take q J) = parsed J)"
  using assms(2,3)
proof (induction rs arbitrary: p st)
  case (Cons r rs)
  obtain f n where r: "r = (f, n)" by fastforce
  let ?st = "tail_round journalctl name key base f at n st"
  obtain m where m: "m \<ge> p" "read_up_to journalctl name key base at J st0 m ?st"
    "\<forall>k. n = Some k \<longrightarrow> parsed (take m J) = parsed (take p J) @ parsed (take k (drop p J))"
  proof (cases n)
    case None
    with that [of p] Cons.prems(1) show ?thesis by (simp add: tail_skip)
  next
    case (Some k)
    have "fair f at" using Cons.prems(2) r by simp
    from tail_round_reads [OF assms(1) this Cons.prems(1), of k] Some that show ?thesis by auto
  qed
  obtain q where q: "q \<ge> m" "read_up_to journalctl name key base at J st0 q (tailJournal journalctl name key base (map (\<lambda>(f, n). (f, at, n)) rs) ?st)"
    "(\<exists>(f, n)\<in>set rs. \<exists>k\<ge>length J. n = Some k) \<longrightarrow> parsed (take q J) = parsed J"
    using Cons.IH [OF m(2)] Cons.prems(2) by auto
  have "parsed (take q J) = parsed J" if "n = Some k" "k \<ge> length J" for k
  proof -
    have "parsed (take m J) = parsed (take p J) @ parsed (drop p J)" using m(3) that by simp
    then have all: "parsed (take m J) = parsed J" by (metis append_take_drop_id parsed_simps(4))
    have "J = take m J @ take (q - m) (drop m J) @ drop q J" using q(1)
      by (metis append_take_drop_id drop_drop le_add_diff_inverse2)
    then have "parsed J = parsed (take m J) @ parsed (take (q - m) (drop m J)) @ parsed (drop q J)" by (metis parsed_simps(4))
    with all have "parsed (drop q J) = []" by simp
    then show ?thesis by (metis append_Nil2 append_take_drop_id parsed_simps(4))
  qed
  with m(1) q r show ?case by (intro exI [of _ q]) auto
qed auto

text \<open>
  C40: restarts of the tail are invisible.  However often the journal stream ends or cannot be started,
  and wherever each round stops reading, as long as cursors can be read and written: the log, the caches and
  the saved cursor are exactly those of a single uninterrupted round over some first part of the journal, and over all of it once a
  round has reached its end.  No entry is skipped and none is logged twice.
\<close>

theorem tail_restarts_invisible:
  assumes "follows journalctl base c J" "kv_store (snd st) key = Some c" "\<forall>(f, n)\<in>set rs. fair f at" "fair f0 at"
  shows "\<exists>N. tailJournal journalctl name key base (map (\<lambda>(f, n). (f, at, n)) rs) st = tail_round journalctl name key base f0 at (Some N) st \<and>
    ((\<exists>(f, n)\<in>set rs. \<exists>k\<ge>length J. n = Some k) \<longrightarrow> parsed (take N J) = parsed J)"
proof -
  have J: "journalctl (journal_args base c) = J" using assms(1) by (simp add: follows_def)
  have start: "read_up_to journalctl name key base at J st 0 st" using assms(2) J by (auto simp: read_up_to_def moved_def logged_def)
  from tail_reads [OF assms(1) start assms(3)]
  obtain q where q: "read_up_to journalctl name key base at J st q (tailJournal journalctl name key base (map (\<lambda>(f, n). (f, at, n)) rs) st)"
    "(\<exists>(f, n)\<in>set rs. \<exists>k\<ge>length J. n = Some k) \<longrightarrow> parsed (take q J) = parsed J" by blast
  have c: "getCursor f0 key (snd st) = c" using assms(2,4) by (simp add: getCursor_def fair_def cursor_io_def)
  have "set (parsed (take q J)) \<subseteq> set (parsed J)" by (metis append_take_drop_id parsed_simps(4) set_append Un_upper1)
  then have "\<forall>e\<in>set (parsed (take q J)). je_cursor e \<noteq> []" using follows_cursors [OF assms(1)] by blast
  then have "tail_round journalctl name key base f0 at (Some q) st = moved key (parsed (take q J)) (logged name at (parsed (take q J)) st)"
    by (intro tail_round_eq assms(4)) (simp_all add: c J)
  with q show ?thesis by (intro exI [of _ q]) (simp add: read_up_to_def)
qed

text \<open>A journal of two queries with a binary message between them; the stream ends after each line.\<close>

definition query_entry :: "string \<Rightarrow> string \<Rightarrow> journalEntry" where
  "query_entry c m = \<lparr>je_cursor = c, je_message = m, je_realtime = [], je_identifier = ''dnsmasq''\<rparr>"

definition small_journal :: "jline list" where
  "small_journal = [Some (query_entry ''s=1'' ''query[A] a.io from 10.0.0.7''), None, Some (query_entry ''s=2'' ''query[A] b.io from 10.0.0.8'')]"

definition small_journalctl :: "string list \<Rightarrow> jline list" where
  "small_journalctl args =
     (if last args = ''--after-cursor=s=1'' then drop 1 small_journal else if last args = ''--after-cursor=s=2'' then [] else small_journal)"

definition calm :: "journalEntry \<Rightarrow> moment" where
  "calm e = \<lparr>mo_faults = no_faults, mo_stamp = ''2024'', mo_due = True\<rparr>"

theorem tail_restarts_invisible_witness:
  "\<exists>N. tailJournal small_journalctl ''dnsmasq'' ''k'' [''-u'', ''dnsmasq''] (map (\<lambda>(f, n). (f, calm, n)) [(no_faults, Some 1), (no_faults, None), (no_faults, Some 3)])
      (NewTrafficLogService, no_log\<lparr>kv_store := [''k'' \<mapsto> ''s=0'']\<rparr>) =
    tail_round small_journalctl ''dnsmasq'' ''k'' [''-u'', ''dnsmasq''] no_faults calm (Some N) (NewTrafficLogService, no_log\<lparr>kv_store := [''k'' \<mapsto> ''s=0'']\<rparr>) \<and>
    parsed (take N small_journal) = parsed small_journal"
proof -
  let ?st = "(NewTrafficLogService, no_log\<lparr>kv_store := [''k'' \<mapsto> ''s=0'']\<rparr>)"
  let ?rs = "[(no_faults, Some 1), (no_faults, None), (no_faults, Some 3)] :: (faults \<times> nat option) list"
  have "follows small_journalctl [''-u'', ''dnsmasq''] ''s=0'' small_journal" by code_simp
  moreover have "kv_store (snd ?st) ''k'' = Some ''s=0''" by simp
  moreover have "fair no_faults calm" by (simp add: fair_def cursor_io_def no_faults_def calm_def)
  then have "\<forall>(f, n)\<in>set ?rs. fair f calm" "fair no_faults calm" by simp_all
  moreover have "length small_journal = 3" by (simp add: small_journal_def)
  ultimately show ?thesis using tail_restarts_invisible [of small_journalctl "[''-u'', ''dnsmasq'']" "''s=0''" small_journal ?st "''k''" ?rs calm no_faults "''dnsmasq''"]
    by auto
qed

text \<open>
  Once the log file of dnsmasq was missing the journal is read for ever: whatever happens to the file later makes no difference.
\<close>

theorem missing_file_is_final:
  "tailDnsmasqLogFile journalctl js (pre @ FileMissing # rs) st = tailDnsmasqLogFile journalctl js (pre @ FileMissing # rs') st"
  by (induction journalctl js pre st rule: tailDnsmasqLogFile.induct) simp_all

end
